(* ===== verification/Prelude.thy ===== *)
theory Prelude
  imports Main "HOL-Library.Word" "HOL-Library.Multiset"
begin

text \<open>
  The Go vocabulary the components share: bytes and strings (package \<open>strings\<close>, restricted to the
  ASCII range for white space and letter case), decimal printing, errors with the sentinel
  identity that \<open>errors.Is\<close> and \<open>errors.Join\<close> observe, and the functional-option loop that every
  constructor of the agent runs. The collection \<open>go_simps\<close> holds the definitions a component
  proof usually unfolds.
\<close>

named_theorems go_simps

subsection \<open>Bytes and strings\<close>

type_synonym byte = "8 word"
type_synonym bytes = "8 word list"

text \<open>A time is a number of nanoseconds since some epoch, a duration a number of nanoseconds.\<close>

type_synonym time = int
type_synonym duration = int

definition Second :: duration where "Second = 1000000000"
definition Minute :: duration where "Minute = 60 * Second"

definition bytes_of :: "string \<Rightarrow> bytes" where
  "bytes_of s = map of_char s"

definition string_of :: "bytes \<Rightarrow> string" where
  "string_of b = map (\<lambda>w. char_of (unat w)) b"

definition is_space :: "char \<Rightarrow> bool" where
  "is_space c \<longleftrightarrow> c \<in> set [CHR 0x09, CHR 0x0A, CHR 0x0B, CHR 0x0C, CHR 0x0D, CHR 0x20]"

definition TrimSpace :: "string \<Rightarrow> string" where
  "TrimSpace s = rev (dropWhile is_space (rev (dropWhile is_space s)))"

definition lower_char :: "char \<Rightarrow> char" where
  "lower_char c = (let n = (of_char c :: nat) in if 65 \<le> n \<and> n \<le> 90 then char_of (n + 32) else c)"

definition ToLower :: "string \<Rightarrow> string" where
  "ToLower s = map lower_char s"

definition EqualFold :: "string \<Rightarrow> string \<Rightarrow> bool" where
  "EqualFold s t \<longleftrightarrow> ToLower s = ToLower t"

definition HasPrefix :: "string \<Rightarrow> string \<Rightarrow> bool" where
  "HasPrefix s p \<longleftrightarrow> take (length p) s = p"

definition TrimPrefix :: "string \<Rightarrow> string \<Rightarrow> string" where
  "TrimPrefix s p = (if HasPrefix s p then drop (length p) s else s)"

fun Contains :: "string \<Rightarrow> string \<Rightarrow> bool" where
  "Contains [] p = (p = [])"
| "Contains (c # s) p = (HasPrefix (c # s) p \<or> Contains s p)"

text \<open>\<open>strings.Split\<close> on a one-character separator: always at least one field.\<close>

fun Split :: "string \<Rightarrow> char \<Rightarrow> string list" where
  "Split [] sep = [[]]"
| "Split (c # s) sep =
     (if c = sep then [] # Split s sep
      else (case Split s sep of [] \<Rightarrow> [[c]] | f # fs \<Rightarrow> (c # f) # fs))"

fun Join :: "string list \<Rightarrow> string \<Rightarrow> string" where
  "Join [] sep = []"
| "Join [s] sep = s"
| "Join (s # t # ss) sep = s @ sep @ Join (t # ss) sep"

text \<open>\<open>strconv.Itoa\<close> and the verb \<open>%d\<close>.\<close>

fun show_nat :: "nat \<Rightarrow> string" where
  "show_nat n =
     (if n < 10 then [char_of (48 + n)] else show_nat (n div 10) @ [char_of (48 + n mod 10)])"

declare show_nat.simps [simp del]

definition show_int :: "int \<Rightarrow> string" where
  "show_int i = (if i < 0 then ''-'' @ show_nat (nat (- i)) else show_nat (nat i))"

text \<open>Arithmetic on \<open>int64\<close> wraps around.\<close>

definition wrap64 :: "int \<Rightarrow> int" where "wrap64 i = sint (word_of_int i :: 64 word)"

lemma wrap64_id: "- (2 ^ 63) \<le> i \<Longrightarrow> i < 2 ^ 63 \<Longrightarrow> wrap64 i = i"
  by (simp add: wrap64_def sint_sbintrunc' signed_take_bit_int_eq_self)

subsection \<open>Errors\<close>

text \<open>
  An error value: a sentinel kept in a package variable (named after its package and variable,
  which stands for its identity), an error made on the spot that nothing compares with, a close
  status with its reason (the error type \<open>websocket.CloseError\<close> that \<open>errors.As\<close> looks for), a value
  wrapped with \<open>fmt.Errorf("%w ...")\<close> (the string labels the text added, which no code inspects), or the result of \<open>errors.Join\<close>. The Go type \<open>error\<close> is \<open>gerr option\<close>, with \<open>None\<close> for \<open>nil\<close>.
\<close>

datatype gerr = Sentinel string | Plain string | Coded int bytes | Wrapped string gerr | Joined "gerr list"

fun errIs :: "gerr \<Rightarrow> string \<Rightarrow> bool" where
  "errIs (Sentinel s) t = (s = t)"
| "errIs (Plain s) t = False"
| "errIs (Coded c r) t = False"
| "errIs (Wrapped w e) t = errIs e t"
| "errIs (Joined es) t = list_ex (\<lambda>e. errIs e t) es"

fun errAs :: "gerr \<Rightarrow> (int \<times> bytes) option" where
  "errAs (Sentinel s) = None"
| "errAs (Plain s) = None"
| "errAs (Coded c r) = Some (c, r)"
| "errAs (Wrapped w e) = errAs e"
| "errAs (Joined es) = (case filter (\<lambda>x. x \<noteq> None) (map errAs es) of [] \<Rightarrow> None | x # _ \<Rightarrow> x)"

definition errorsIs :: "gerr option \<Rightarrow> string \<Rightarrow> bool" where
  "errorsIs err t = (case err of None \<Rightarrow> False | Some e \<Rightarrow> errIs e t)"

definition errorsJoin :: "gerr option list \<Rightarrow> gerr option" where
  "errorsJoin es =
     (case List.map_filter (\<lambda>e. e) es of [] \<Rightarrow> None | x # xs \<Rightarrow> Some (Joined (x # xs)))"

subsection \<open>Functional options\<close>

text \<open>
  The constructor loop \<open>for _, opt := range opts { if opt != nil { if err := opt.apply(&c) ... } } }\<close>:
  nil options are skipped and the first error is returned.
\<close>

type_synonym 'c goption = "'c \<Rightarrow> gerr + 'c"

fun applyOpts :: "'c goption option list \<Rightarrow> 'c \<Rightarrow> gerr + 'c" where
  "applyOpts [] c = Inr c"
| "applyOpts (None # os) c = applyOpts os c"
| "applyOpts (Some f # os) c = (case f c of Inl e \<Rightarrow> Inl e | Inr c' \<Rightarrow> applyOpts os c')"

text \<open>A validator is an option that fails unless a condition holds and changes nothing.\<close>

definition vador :: "('c \<Rightarrow> bool) \<Rightarrow> gerr \<Rightarrow> 'c goption" where
  "vador bad e c = (if bad c then Inl e else Inr c)"

subsection \<open>Lemmas\<close>

lemma HasPrefix_append [simp]: "HasPrefix (p @ s) p"
  by (simp add: HasPrefix_def)

lemma HasPrefix_iff: "HasPrefix s p \<longleftrightarrow> (\<exists>t. s = p @ t)"
  by (metis HasPrefix_append HasPrefix_def append_take_drop_id)

lemma TrimPrefix_append [simp]: "TrimPrefix (p @ s) p = s"
  by (simp add: TrimPrefix_def)

lemma Split_not_Nil [simp]: "Split s sep \<noteq> []"
  by (induction s) (auto split: list.splits)

lemma Split_no_sep: "sep \<notin> set s \<Longrightarrow> Split s sep = [s]"
  by (induction s) auto

lemma Split_append_sep: "sep \<notin> set s \<Longrightarrow> Split (s @ sep # t) sep = s # Split t sep"
  by (induction s) auto

lemma Split_fields: "f \<in> set (Split s sep) \<Longrightarrow> sep \<notin> set f"
proof (induction s arbitrary: f)
  case Nil
  then show ?case by simp
next
  case (Cons c s)
  show ?case
  proof (cases "Split s sep")
    case Nil
    then show ?thesis by simp
  next
    case (Cons g gs)
    with Cons.prems Cons.IH show ?thesis by (auto split: if_splits)
  qed
qed

lemma Join_Split: "Join (Split s sep) [sep] = s"
proof (induction s)
  case Nil
  then show ?case by simp
next
  case (Cons c s)
  then show ?case
    by (cases "Split s sep" rule: remdups_adj.cases) auto
qed

lemma show_nat_not_Nil [simp]: "show_nat n \<noteq> []"
  by (subst show_nat.simps) simp

text \<open>Reading a decimal numeral back, which makes \<open>show_nat\<close> injective.\<close>

definition decimal :: "string \<Rightarrow> nat" where
  "decimal s = foldl (\<lambda>v ch. 10 * v + (of_char ch - 48)) 0 s"

lemma decimal_show_nat [simp]: "decimal (show_nat n) = n"
proof (induction n rule: show_nat.induct)
  case (1 n)
  have digit: "of_char (char_of (48 + d) :: char) - 48 = d" if "d < 10" for d :: nat using that by simp
  show ?case
  proof (cases "n < 10")
    case True
    then show ?thesis by (subst show_nat.simps) (simp add: decimal_def)
  next
    case False
    with 1 have "decimal (show_nat (n div 10)) = n div 10" by simp
    with False digit[of "n mod 10"] show ?thesis by (subst show_nat.simps) (simp add: decimal_def)
  qed
qed

lemma errorsIs_None [simp]: "\<not> errorsIs None t"
  by (simp add: errorsIs_def)

lemma errorsIs_Some [simp]: "errorsIs (Some e) t = errIs e t"
  by (simp add: errorsIs_def)

lemma errorsJoin_None_iff [simp]: "errorsJoin es = None \<longleftrightarrow> set es \<subseteq> {None}"
  by (induction es) (auto simp: errorsJoin_def map_filter_simps split: list.splits option.splits)

lemma errIs_Joined [simp]: "errIs (Joined es) t \<longleftrightarrow> (\<exists>e\<in>set es. errIs e t)"
  by (simp add: list_ex_iff)

declare errIs.simps(5) [simp del]

lemma errorsIs_Join: "errorsIs (errorsJoin es) t \<longleftrightarrow> (\<exists>e\<in>set es. errorsIs e t)"
proof -
  have "set (List.map_filter (\<lambda>e. e) es) = {e. Some e \<in> set es}"
    by (induction es) (auto simp: map_filter_simps split: option.splits)
  then have "(\<exists>e\<in>set es. errorsIs e t) \<longleftrightarrow> (\<exists>e\<in>set (List.map_filter (\<lambda>e. e) es). errIs e t)"
    by (auto simp: errorsIs_def split: option.splits)
  then show ?thesis
    by (auto simp: errorsJoin_def split: list.splits)
qed

lemma applyOpts_append:
  "applyOpts (xs @ ys) c = (case applyOpts xs c of Inl e \<Rightarrow> Inl e | Inr c' \<Rightarrow> applyOpts ys c')"
  by (induction xs c rule: applyOpts.induct) (auto split: sum.splits)

lemma vador_apply: "vador bad e c = (if bad c then Inl e else Inr c)"
  by (simp add: vador_def)

text \<open>
  Validators are appended after the caller's options, so a constructor that succeeds has
  left a configuration that passes each of them.
\<close>

lemma applyOpts_vadors:
  "applyOpts (map (\<lambda>(bad, e). Some (vador bad e)) vs) c = Inr c' \<longleftrightarrow>
   c' = c \<and> (\<forall>(bad, e) \<in> set vs. \<not> bad c)"
  by (induction vs) (auto simp: vador_apply split: if_splits)

lemma applyOpts_vadors_Inl:
  "applyOpts (map (\<lambda>(bad, e). Some (vador bad e)) vs) c = Inl x \<Longrightarrow>
   \<exists>(bad, e) \<in> set vs. bad c \<and> x = e"
  by (induction vs) (auto simp: vador_apply split: if_splits)

lemma applyOpts_invariant:
  assumes "applyOpts os c = Inr c'" and "P c"
    and "\<And>f c d. Some f \<in> set os \<Longrightarrow> P c \<Longrightarrow> f c = Inr d \<Longrightarrow> P d"
  shows "P c'"
  using assms
  by (induction os c rule: applyOpts.induct) (auto split: sum.splits)

subsection \<open>Select\<close>

text \<open>A \<open>select\<close> takes any of its ready cases; the choice is an argument.\<close>

definition readyCases :: "(bool \<times> 'a) list \<Rightarrow> 'a list" where
  "readyCases cs = map snd (filter fst cs)"

text \<open>\<open>None\<close>: no case is ready, the select blocks.\<close>

definition goSelect :: "nat \<Rightarrow> (bool \<times> 'a) list \<Rightarrow> 'a option" where
  "goSelect pick cs = (let r = readyCases cs in if r = [] then None else Some (r ! (pick mod length r)))"

lemma goSelect_ready: "goSelect pick cs = Some x \<Longrightarrow> (True, x) \<in> set cs"
proof -
  assume s: "goSelect pick cs = Some x"
  then have "readyCases cs \<noteq> []" by (auto simp: goSelect_def Let_def split: if_splits)
  then have "x \<in> set (readyCases cs)"
    using s mod_less_divisor[of "length (readyCases cs)" pick] by (auto simp: goSelect_def Let_def intro!: nth_mem)
  then show ?thesis by (auto simp: readyCases_def)
qed

lemma goSelect_blocks: "goSelect pick cs = None \<longleftrightarrow> (\<forall>c\<in>set cs. \<not> fst c)"
  by (auto simp: goSelect_def Let_def readyCases_def filter_empty_conv)

text \<open>With one ready case there is no choice.\<close>

lemma goSelect_single: "readyCases cs = [x] \<Longrightarrow> goSelect pick cs = Some x"
  by (simp add: goSelect_def)

end
