(* ===== verification/Wrp.thy ===== *)
theory Wrp
  imports Prelude
begin

text \<open>
  The WRP message as the agent reads and writes it, and the handler interface of
  \<open>internal/wrpkit/handler.go\<close>. The message type comes from the package \<open>wrp-go\<close>, which is not part of
  the repository: the record has the fields the sources touch, the datatype names the message
  types the sources name, and \<open>MessageType.RequiresTransaction\<close>, \<open>QOSValue.Level\<close> and the locator
  functions are arguments of the definitions that call them.
\<close>

datatype MessageType =
    Invalid0MessageType
  | Invalid1MessageType
  | AuthorizationMessageType
  | ServiceRegistrationMessageType
  | ServiceAliveMessageType
  | UpdateMessageType
  | OtherMessageType int

datatype QOSLevel = QOSLow | QOSMedium | QOSHigh | QOSCritical | QOSOther

record message =
  mType :: MessageType
  mSource :: string
  mDestination :: string
  mTransactionUUID :: string
  mContentType :: string
  mPartnerIDs :: "string list"
  mPath :: string
  mServiceName :: string
  mURL :: string
  mStatus :: "int option"
  mRequestDeliveryResponse :: "int option"
  mMetadata :: "(string \<rightharpoonup> string) option"
  mPayload :: bytes
  mQualityOfService :: int

text \<open>
  A handler takes a message, acts on the world \<open>'s\<close> (what it sends, stores or logs) and returns
  an error. An interface value that may be nil is a \<open>'s handler option\<close>.
\<close>

type_synonym 's handler = "message \<Rightarrow> 's \<Rightarrow> gerr option \<times> 's"

definition ErrNotHandled :: gerr where
  "ErrNotHandled = Sentinel ''wrpkit.ErrNotHandled''"

abbreviation notHandled :: "gerr option \<Rightarrow> bool" where
  "notHandled err \<equiv> errorsIs err ''wrpkit.ErrNotHandled''"

text \<open>
  A recording handler: it appends what it is given to a log and answers with a fixed error.
  It is the concrete handler the witnesses use.
\<close>

definition record_handler :: "gerr option \<Rightarrow> message list handler" where
  "record_handler err m log = (err, log @ [m])"

definition empty_message :: message where
  "empty_message = \<lparr>mType = OtherMessageType 0, mSource = [], mDestination = [],
     mTransactionUUID = [], mContentType = [], mPartnerIDs = [], mPath = [], mServiceName = [],
     mURL = [], mStatus = None, mRequestDeliveryResponse = None, mMetadata = None,
     mPayload = [], mQualityOfService = 0\<rparr>"

lemma notHandled_ErrNotHandled [simp]: "errIs ErrNotHandled ''wrpkit.ErrNotHandled''"
  by (simp add: ErrNotHandled_def)

lemma notHandled_Join [simp]: "notHandled (errorsJoin es) \<longleftrightarrow> (\<exists>e\<in>set es. notHandled e)"
  by (rule errorsIs_Join)

subsection \<open>Replies\<close>

text \<open>
  The handlers that answer a request copy it and overwrite the addressing, the content type, the
  status and the payload (\<open>auth\<close>, \<open>missing\<close>, \<open>mocktr181\<close> and \<open>xmidt_agent_crud\<close>).
\<close>

definition reply :: "string \<Rightarrow> int \<Rightarrow> bytes \<Rightarrow> message \<Rightarrow> message" where
  "reply source code payload msg =
     msg\<lparr>mDestination := mSource msg, mSource := source, mContentType := ''application/json'',
         mStatus := Some code, mPayload := payload\<rparr>"

definition is_reply :: "string \<Rightarrow> message \<Rightarrow> message \<Rightarrow> bool" where
  "is_reply source msg r \<longleftrightarrow>
     mDestination r = mSource msg \<and> mSource r = source \<and> mContentType r = ''application/json''
     \<and> mTransactionUUID r = mTransactionUUID msg \<and> mType r = mType msg
     \<and> mPartnerIDs r = mPartnerIDs msg \<and> mQualityOfService r = mQualityOfService msg"

lemma is_reply_reply [simp, intro]: "is_reply source msg (reply source code payload msg)"
  by (simp add: is_reply_def reply_def)

lemma reply_simps [simp]:
  "mDestination (reply source code payload msg) = mSource msg"
  "mSource (reply source code payload msg) = source"
  "mStatus (reply source code payload msg) = Some code"
  "mPayload (reply source code payload msg) = payload"
  "mType (reply source code payload msg) = mType msg"
  by (simp_all add: reply_def)

end
