(* ===== verification/GoHeap.thy ===== *)
theory GoHeap
  imports Prelude
begin

text \<open>
  Package \<open>container/heap\<close> of the Go standard library, as the QOS queue uses it: a binary heap in
  a slice with the functions \<open>up\<close>, \<open>down\<close>, \<open>Push\<close> and \<open>Pop\<close>. The element order is a parameter, as
  \<open>heap.Interface\<close> leaves it to \<open>Less\<close>. The locale \<open>heap_order\<close> states what \<open>Less\<close> must satisfy and
  proves what the heap functions then promise.
\<close>

definition swap :: "'a list \<Rightarrow> nat \<Rightarrow> nat \<Rightarrow> 'a list" where
  "swap xs i j = xs[i := xs ! j, j := xs ! i]"

text \<open>The index expression \<open>(j - 1) / 2\<close> of \<open>up\<close>, which Go rounds to 0 at the root.\<close>

definition parent :: "nat \<Rightarrow> nat" where
  "parent j = (j - 1) div 2"

lemma parent_less [simp]: "0 < j \<Longrightarrow> parent j < j"
  by (simp add: parent_def)

lemma parent_bound [simp]: "j < n \<Longrightarrow> parent j < n"
  by (simp add: parent_def)

lemma parent_neq [simp]: "0 < j \<Longrightarrow> j \<le> n \<Longrightarrow> parent j \<noteq> n"
  by (simp add: parent_def)

lemma parent_eq_iff: "0 < k \<Longrightarrow> parent k = i \<longleftrightarrow> k = 2 * i + 1 \<or> k = 2 * i + 2"
  by (auto simp: parent_def)

fun heap_up :: "('a \<Rightarrow> 'a \<Rightarrow> bool) \<Rightarrow> 'a list \<Rightarrow> nat \<Rightarrow> 'a list" where
  "heap_up lt xs j =
     (if j = 0 \<or> \<not> lt (xs ! j) (xs ! (parent j)) then xs
      else heap_up lt (swap xs (parent j) j) (parent j))"

definition smaller_child :: "('a \<Rightarrow> 'a \<Rightarrow> bool) \<Rightarrow> 'a list \<Rightarrow> nat \<Rightarrow> nat \<Rightarrow> nat" where
  "smaller_child lt xs i n =
     (if 2 * i + 2 < n \<and> lt (xs ! (2 * i + 2)) (xs ! (2 * i + 1)) then 2 * i + 2 else 2 * i + 1)"

function heap_down :: "('a \<Rightarrow> 'a \<Rightarrow> bool) \<Rightarrow> 'a list \<Rightarrow> nat \<Rightarrow> nat \<Rightarrow> 'a list" where
  "heap_down lt xs i n =
     (if n \<le> 2 * i + 1 then xs
      else let j = smaller_child lt xs i n
           in if \<not> lt (xs ! j) (xs ! i) then xs
              else heap_down lt (swap xs i j) j n)"
  by pat_completeness auto
termination
  by (relation "measure (\<lambda>(lt, xs, i, n). n - i)") (auto simp: smaller_child_def)

declare heap_up.simps [simp del] heap_down.simps [simp del]

definition heap_push :: "('a \<Rightarrow> 'a \<Rightarrow> bool) \<Rightarrow> 'a list \<Rightarrow> 'a \<Rightarrow> 'a list" where
  "heap_push lt xs x = heap_up lt (xs @ [x]) (length xs)"

text \<open>\<open>heap.Pop\<close> up to the final call of \<open>h.Pop()\<close>: the best element has been moved to the end.\<close>

definition heap_pop :: "('a \<Rightarrow> 'a \<Rightarrow> bool) \<Rightarrow> 'a list \<Rightarrow> 'a list" where
  "heap_pop lt xs = (let n = length xs - 1 in heap_down lt (swap xs 0 n) 0 n)"

text \<open>The heap order on the first \<open>n\<close> cells.\<close>

definition is_heap :: "('a \<Rightarrow> 'a \<Rightarrow> bool) \<Rightarrow> 'a list \<Rightarrow> nat \<Rightarrow> bool" where
  "is_heap lt xs n \<longleftrightarrow> (\<forall>k. 0 < k \<and> k < n \<longrightarrow> \<not> lt (xs ! k) (xs ! (parent k)))"

subsection \<open>Facts that need no order\<close>

lemma length_swap [simp]: "length (swap xs i j) = length xs"
  by (simp add: swap_def)

lemma mset_swap_eq [simp]: "i < length xs \<Longrightarrow> j < length xs \<Longrightarrow> mset (swap xs i j) = mset xs"
  unfolding swap_def by (rule mset_swap)

lemma nth_swap:
  "i < length xs \<Longrightarrow> j < length xs \<Longrightarrow>
   swap xs i j ! k = (if k = j then xs ! i else if k = i then xs ! j else xs ! k)"
  by (simp add: swap_def nth_list_update)

lemma length_heap_up [simp]: "length (heap_up lt xs j) = length xs"
  by (induction lt xs j rule: heap_up.induct) (subst heap_up.simps, simp)

lemma mset_heap_up: "j < length xs \<Longrightarrow> mset (heap_up lt xs j) = mset xs"
proof (induction lt xs j rule: heap_up.induct)
  case (1 lt xs j)
  then show ?case by (subst heap_up.simps) auto
qed

lemma smaller_child_bounds:
  "2 * i + 1 < n \<Longrightarrow> i < smaller_child lt xs i n \<and> smaller_child lt xs i n < n"
  by (auto simp: smaller_child_def)

lemma length_heap_down [simp]: "length (heap_down lt xs i n) = length xs"
proof (induction lt xs i n rule: heap_down.induct)
  case (1 lt xs i n)
  then show ?case by (subst heap_down.simps) (auto simp: Let_def)
qed

lemma mset_heap_down: "n \<le> length xs \<Longrightarrow> mset (heap_down lt xs i n) = mset xs"
proof (induction lt xs i n rule: heap_down.induct)
  case (1 lt xs i n)
  show ?case
  proof (cases "2 * i + 1 < n")
    case True
    with smaller_child_bounds[of i n lt xs] 1 show ?thesis
      by (subst heap_down.simps) (auto simp: Let_def)
  next
    case False
    then show ?thesis by (subst heap_down.simps) simp
  qed
qed

text \<open>Sifting down never touches the cells at or above the bound.\<close>

lemma heap_down_frame: "n \<le> k \<Longrightarrow> n \<le> length xs \<Longrightarrow> heap_down lt xs i n ! k = xs ! k"
proof (induction lt xs i n rule: heap_down.induct)
  case (1 lt xs i n)
  show ?case
  proof (cases "2 * i + 1 < n")
    case True
    with smaller_child_bounds[of i n lt xs] 1 show ?thesis
      by (subst heap_down.simps) (auto simp: Let_def nth_swap)
  next
    case False
    then show ?thesis by (subst heap_down.simps) simp
  qed
qed

lemma length_heap_push [simp]: "length (heap_push lt xs x) = Suc (length xs)"
  by (simp add: heap_push_def)

lemma mset_heap_push: "mset (heap_push lt xs x) = add_mset x (mset xs)"
  by (simp add: heap_push_def mset_heap_up)

lemma length_heap_pop [simp]: "length (heap_pop lt xs) = length xs"
  by (simp add: heap_pop_def Let_def)

lemma mset_heap_pop: "xs \<noteq> [] \<Longrightarrow> mset (heap_pop lt xs) = mset xs"
  by (simp add: heap_pop_def Let_def mset_heap_down)

lemma last_heap_pop:
  assumes "xs \<noteq> []"
  shows "last (heap_pop lt xs) = hd xs"
proof -
  have ne: "heap_pop lt xs \<noteq> []" using assms length_heap_pop[of lt xs] by fastforce
  have "heap_pop lt xs ! (length xs - 1) = swap xs 0 (length xs - 1) ! (length xs - 1)"
    unfolding heap_pop_def Let_def by (rule heap_down_frame) auto
  also have "\<dots> = xs ! 0" using assms by (simp add: nth_swap)
  finally show ?thesis using assms ne by (simp add: last_conv_nth hd_conv_nth)
qed

subsection \<open>What a strict weak order gives\<close>

locale heap_order =
  fixes lt :: "'a \<Rightarrow> 'a \<Rightarrow> bool"
  assumes asym: "lt x y \<Longrightarrow> \<not> lt y x"
    and neg_trans: "\<not> lt x y \<Longrightarrow> \<not> lt y z \<Longrightarrow> \<not> lt x z"
begin

lemma irrefl [simp]: "\<not> lt x x"
  using asym by blast

lemma root_best: "is_heap lt xs n \<Longrightarrow> k < n \<Longrightarrow> \<not> lt (xs ! k) (xs ! 0)"
proof (induction k rule: less_induct)
  case (less k)
  show ?case
  proof (cases "k = 0")
    case True
    then show ?thesis using asym by blast
  next
    case False
    then have "parent k < k" by simp
    with less have "\<not> lt (xs ! (parent k)) (xs ! 0)" by simp
    moreover have "\<not> lt (xs ! k) (xs ! (parent k))"
      using False less.prems by (simp add: is_heap_def)
    ultimately show ?thesis using neg_trans by blast
  qed
qed

text \<open>While an element rises, every edge but the one above it is in order.\<close>

definition up_inv :: "'a list \<Rightarrow> nat \<Rightarrow> bool" where
  "up_inv xs j \<longleftrightarrow>
     (\<forall>k. 0 < k \<and> k < length xs \<and> k \<noteq> j \<longrightarrow> \<not> lt (xs ! k) (xs ! (parent k)))
     \<and> (\<forall>k. 0 < k \<and> k < length xs \<and> parent k = j \<and> 0 < j \<longrightarrow>
            \<not> lt (xs ! k) (xs ! (parent j)))"

lemma up_inv_step:
  assumes inv: "up_inv xs j" and j: "0 < j" "j < length xs"
    and ji: "lt (xs ! j) (xs ! (parent j))"
  shows "up_inv (swap xs (parent j) j) (parent j)"
proof -
  let ?p = "parent j"
  let ?ys = "swap xs ?p j"
  have p: "?p < j" "?p < length xs" using j by auto
  have nth: "?ys ! k = (if k = j then xs ! ?p else if k = ?p then xs ! j else xs ! k)" for k
    using p j by (simp add: nth_swap)
  have edge: "\<not> lt (xs ! k) (xs ! (parent k))" if "0 < k" "k < length xs" "k \<noteq> j" for k
    using inv that by (auto simp: up_inv_def)
  have skip: "\<not> lt (xs ! k) (xs ! ?p)" if "0 < k" "k < length xs" "parent k = j" for k
    using inv that j by (auto simp: up_inv_def)
  have below: "\<not> lt (xs ! k) (xs ! j)" if "\<not> lt (xs ! k) (xs ! ?p)" for k
    using that ji asym neg_trans by blast
  show ?thesis
    unfolding up_inv_def length_swap
  proof (intro conjI allI impI)
    fix k assume k: "0 < k \<and> k < length xs \<and> k \<noteq> ?p"
    show "\<not> lt (?ys ! k) (?ys ! (parent k))"
    proof (cases "k = j")
      case True
      then show ?thesis using ji asym p by (simp add: nth)
    next
      case False
      consider "parent k = j" | "parent k = ?p" "parent k \<noteq> j"
        | "parent k \<noteq> j" "parent k \<noteq> ?p" by blast
      then show ?thesis
      proof cases
        case 1
        then show ?thesis using False k skip[of k] by (simp add: nth)
      next
        case 2
        then show ?thesis using False k below[of k] edge[of k] by (simp add: nth)
      next
        case 3
        then show ?thesis using False k edge[of k] by (simp add: nth)
      qed
    qed
  next
    fix k assume k: "0 < k \<and> k < length xs \<and> parent k = ?p \<and> 0 < ?p"
    have pp: "parent ?p < ?p" using k by simp
    have top: "\<not> lt (xs ! ?p) (xs ! (parent ?p))" using edge[of ?p] k p by simp
    show "\<not> lt (?ys ! k) (?ys ! (parent ?p))"
    proof (cases "k = j")
      case True
      then show ?thesis using top p pp by (simp add: nth)
    next
      case False
      have "k \<noteq> ?p" using k parent_less[of k] by (metis less_irrefl)
      moreover have "\<not> lt (xs ! k) (xs ! ?p)" using edge[of k] k False by simp
      ultimately show ?thesis using False top p pp neg_trans by (simp add: nth)
    qed
  qed
qed

lemma heap_up_is_heap:
  "up_inv xs j \<Longrightarrow> j < length xs \<Longrightarrow> is_heap lt (heap_up lt xs j) (length xs)"
proof (induction j arbitrary: xs rule: less_induct)
  case (less j)
  show ?case
  proof (cases "j = 0 \<or> \<not> lt (xs ! j) (xs ! (parent j))")
    case True
    with less.prems show ?thesis
      by (subst heap_up.simps) (auto simp: is_heap_def up_inv_def)
  next
    case False
    let ?p = "parent j"
    have "up_inv (swap xs ?p j) ?p"
      by (rule up_inv_step) (use False less.prems in auto)
    with less.IH[of ?p "swap xs ?p j"] False less.prems
    have "is_heap lt (heap_up lt (swap xs ?p j) ?p) (length xs)" by auto
    with False show ?thesis by (subst heap_up.simps) simp
  qed
qed

lemma heap_push_is_heap:
  assumes "is_heap lt xs (length xs)"
  shows "is_heap lt (heap_push lt xs x) (Suc (length xs))"
proof -
  have "up_inv (xs @ [x]) (length xs)"
    using assms by (auto simp: up_inv_def is_heap_def nth_append less_Suc_eq)
  from heap_up_is_heap[OF this] show ?thesis by (simp add: heap_push_def)
qed

text \<open>While an element sinks, every edge but those below it is in order.\<close>

definition down_inv :: "'a list \<Rightarrow> nat \<Rightarrow> nat \<Rightarrow> bool" where
  "down_inv xs i n \<longleftrightarrow>
     (\<forall>k. 0 < k \<and> k < n \<and> parent k \<noteq> i \<longrightarrow> \<not> lt (xs ! k) (xs ! (parent k)))
     \<and> (\<forall>k. 0 < k \<and> k < n \<and> parent k = i \<and> 0 < i \<longrightarrow>
            \<not> lt (xs ! k) (xs ! (parent i)))"

lemma smaller_child_best:
  assumes "2 * i + 1 < n" "k < n" "0 < k" "parent k = i"
  shows "\<not> lt (xs ! k) (xs ! smaller_child lt xs i n)"
proof -
  have "k = 2 * i + 1 \<or> k = 2 * i + 2" using assms by (simp add: parent_eq_iff)
  then show ?thesis using assms asym by (auto simp: smaller_child_def)
qed

lemma down_inv_step:
  assumes inv: "down_inv xs i n" and n: "n \<le> length xs" and i: "2 * i + 1 < n"
    and ji: "lt (xs ! smaller_child lt xs i n) (xs ! i)"
  shows "down_inv (swap xs i (smaller_child lt xs i n)) (smaller_child lt xs i n) n"
proof -
  let ?j = "smaller_child lt xs i n"
  let ?ys = "swap xs i ?j"
  have j: "i < ?j" "?j < n" using smaller_child_bounds[OF i] by auto
  have pj: "parent ?j = i" by (auto simp: smaller_child_def parent_def)
  have nth: "?ys ! k = (if k = ?j then xs ! i else if k = i then xs ! ?j else xs ! k)" for k
    using i j n by (simp add: nth_swap)
  have edge: "\<not> lt (xs ! k) (xs ! (parent k))"
    if "0 < k" "k < n" "parent k \<noteq> i" for k
    using inv that by (auto simp: down_inv_def)
  have above: "\<not> lt (xs ! k) (xs ! (parent i))"
    if "0 < k" "k < n" "parent k = i" "0 < i" for k
    using inv that by (auto simp: down_inv_def)
  show ?thesis
    unfolding down_inv_def
  proof (intro conjI allI impI)
    fix k assume k: "0 < k \<and> k < n \<and> parent k \<noteq> ?j"
    consider "k = ?j" | "k = i" | "k \<noteq> ?j" "k \<noteq> i" "parent k = i"
      | "k \<noteq> ?j" "k \<noteq> i" "parent k \<noteq> i" by blast
    then show "\<not> lt (?ys ! k) (?ys ! (parent k))"
    proof cases
      case 1
      then show ?thesis using ji asym j pj by (simp add: nth)
    next
      case 2
      then have "parent k < i" using k by simp
      then show ?thesis using 2 k j above[of ?j] pj by (simp add: nth)
    next
      case 3
      then show ?thesis using k j smaller_child_best[OF i, of k xs] by (simp add: nth)
    next
      case 4
      then show ?thesis using k edge[of k] by (simp add: nth)
    qed
  next
    fix k assume k: "0 < k \<and> k < n \<and> parent k = ?j \<and> 0 < ?j"
    then have "k \<noteq> ?j" "k \<noteq> i" using j parent_less[of k] by (metis less_irrefl, metis less_trans less_irrefl)
    then show "\<not> lt (?ys ! k) (?ys ! (parent ?j))"
      using k j pj edge[of k] by (simp add: nth)
  qed
qed

lemma heap_down_is_heap:
  "down_inv xs i n \<Longrightarrow> n \<le> length xs \<Longrightarrow> is_heap lt (heap_down lt xs i n) n"
proof (induction "n - i" arbitrary: xs i rule: less_induct)
  case less
  let ?j = "smaller_child lt xs i n"
  show ?case
  proof (cases "2 * i + 1 < n")
    case False
    then have "\<not> lt (xs ! k) (xs ! (parent k))" if "0 < k" "k < n" for k
      using less.prems that parent_eq_iff[of k i] by (auto simp: down_inv_def)
    with False show ?thesis by (subst heap_down.simps) (auto simp: is_heap_def)
  next
    case i: True
    note j = smaller_child_bounds[OF i, of lt xs]
    show ?thesis
    proof (cases "lt (xs ! ?j) (xs ! i)")
      case True
      from down_inv_step[OF less.prems(1,2) i True]
      have "is_heap lt (heap_down lt (swap xs i ?j) ?j n) n"
        by (rule less.hyps[rotated]) (use i j less.prems in auto)
      with i True show ?thesis by (subst heap_down.simps) (simp add: Let_def)
    next
      case False
      have "\<not> lt (xs ! k) (xs ! (parent k))" if "0 < k" "k < n" for k
      proof (cases "parent k = i")
        case True
        then show ?thesis
          using smaller_child_best[OF i \<open>k < n\<close> \<open>0 < k\<close>, of xs] False neg_trans by blast
      next
        case False
        then show ?thesis using less.prems that by (auto simp: down_inv_def)
      qed
      with i False show ?thesis by (subst heap_down.simps) (auto simp: is_heap_def Let_def)
    qed
  qed
qed

lemma heap_pop_is_heap:
  assumes "is_heap lt xs (length xs)"
  shows "is_heap lt (heap_pop lt xs) (length xs - 1)"
proof -
  let ?n = "length xs - 1"
  have "down_inv (swap xs 0 ?n) 0 ?n"
  proof (cases "xs = []")
    case True
    then show ?thesis by (simp add: down_inv_def)
  next
    case False
    have "swap xs 0 ?n ! k = xs ! k" if "0 < k" "k < ?n" for k
      using that by (simp add: swap_def)
    then show ?thesis using assms by (auto simp: down_inv_def is_heap_def)
  qed
  from heap_down_is_heap[OF this] show ?thesis by (simp add: heap_pop_def Let_def)
qed

lemma head_best:
  assumes "is_heap lt xs (length xs)" and "x \<in> set xs"
  shows "\<not> lt x (hd xs)"
proof -
  from assms(2) obtain k where "k < length xs" "x = xs ! k" by (auto simp: in_set_conv_nth)
  moreover from this have "hd xs = xs ! 0" by (cases xs) auto
  ultimately show ?thesis using root_best[OF assms(1)] by simp
qed

end

end
