(* ===== verification/GoSort.thy ===== *)
theory GoSort
  imports Prelude
begin

text \<open>
  Package \<open>slices\<close> and \<open>sort\<close>: a sort by a comparison function. The library documents that the
  result is a permutation in ascending order and that equal elements may end in any order, so the
  sort is an argument of the definitions that call it and the locale \<open>sort_func\<close> is its contract.
  An insertion sort, which is what the library runs on short slices, discharges the contract.
\<close>

definition weak_order :: "('a \<Rightarrow> 'a \<Rightarrow> int) \<Rightarrow> bool" where
  "weak_order cmp \<longleftrightarrow>
     (\<forall>x y. cmp x y \<le> 0 \<or> cmp y x \<le> 0) \<and>
     (\<forall>x y z. cmp x y \<le> 0 \<longrightarrow> cmp y z \<le> 0 \<longrightarrow> cmp x z \<le> 0)"

fun insert_cmp :: "('a \<Rightarrow> 'a \<Rightarrow> int) \<Rightarrow> 'a \<Rightarrow> 'a list \<Rightarrow> 'a list" where
  "insert_cmp cmp x [] = [x]"
| "insert_cmp cmp x (y # ys) = (if cmp x y \<le> 0 then x # y # ys else y # insert_cmp cmp x ys)"

fun insertion_sort :: "('a \<Rightarrow> 'a \<Rightarrow> int) \<Rightarrow> 'a list \<Rightarrow> 'a list" where
  "insertion_sort cmp [] = []"
| "insertion_sort cmp (x # xs) = insert_cmp cmp x (insertion_sort cmp xs)"

text \<open>The integer comparison \<open>cmp.Compare\<close> and \<open>time.Time.Compare\<close>.\<close>

definition compare_int :: "int \<Rightarrow> int \<Rightarrow> int" where
  "compare_int a b = (if a < b then -1 else if a > b then 1 else 0)"

locale sort_func =
  fixes srt :: "('a \<Rightarrow> 'a \<Rightarrow> int) \<Rightarrow> 'a list \<Rightarrow> 'a list"
  assumes srt_mset: "mset (srt cmp xs) = mset xs"
    and srt_sorted: "weak_order cmp \<Longrightarrow> sorted_wrt (\<lambda>x y. cmp x y \<le> 0) (srt cmp xs)"
begin

lemma srt_set [simp]: "set (srt cmp xs) = set xs"
  using srt_mset by (rule mset_eq_setD)

lemma srt_length [simp]: "length (srt cmp xs) = length xs"
  using srt_mset by (rule mset_eq_length)

lemma srt_distinct [simp]: "distinct (srt cmp xs) = distinct xs"
  using srt_mset by (metis distinct_count_atmost_1 set_mset_mset)

text \<open>What precedes a position compares at most equal with everything behind it.\<close>

lemma srt_split:
  assumes "weak_order cmp" "srt cmp xs = ys @ zs" "y \<in> set ys" "z \<in> set zs"
  shows "cmp y z \<le> 0"
  using srt_sorted[OF assms(1), of xs] assms(2-4) by (auto simp: sorted_wrt_append)

end

lemma mset_insert_cmp [simp]: "mset (insert_cmp cmp x xs) = add_mset x (mset xs)"
  by (induction xs) auto

lemma mset_insertion_sort: "mset (insertion_sort cmp xs) = mset xs"
  by (induction xs) auto

lemma set_insert_cmp [simp]: "set (insert_cmp cmp x xs) = insert x (set xs)"
  by (induction xs) auto

lemma sorted_insert_cmp:
  assumes "weak_order cmp"
  shows "sorted_wrt (\<lambda>x y. cmp x y \<le> 0) xs \<Longrightarrow> sorted_wrt (\<lambda>x y. cmp x y \<le> 0) (insert_cmp cmp x xs)"
proof (induction xs)
  case Nil
  then show ?case by simp
next
  case (Cons y ys)
  have total: "cmp y x \<le> 0" if "\<not> cmp x y \<le> 0" using assms that by (auto simp: weak_order_def)
  have trans: "cmp x y \<le> 0 \<Longrightarrow> cmp y z \<le> 0 \<Longrightarrow> cmp x z \<le> 0" for z
    using assms unfolding weak_order_def by blast
  from Cons total trans show ?case by auto
qed

lemma sorted_insertion_sort:
  "weak_order cmp \<Longrightarrow> sorted_wrt (\<lambda>x y. cmp x y \<le> 0) (insertion_sort cmp xs)"
  by (induction xs) (auto intro: sorted_insert_cmp)

interpretation isort: sort_func insertion_sort
  by unfold_locales (auto simp: mset_insertion_sort sorted_insertion_sort)

end
