(* ===== verification/QosQueue.thy ===== *)
theory QosQueue
  imports Wrp GoHeap GoSort "HOL-Library.List_Lexorder" "HOL-Library.Char_ord"
begin

text \<open>
  \<open>internal/wrphandlers/qos/priority.go\<close> and \<open>priority_queue.go\<close>: the priority type, and the priority
  queue of WRP messages over \<open>container/heap\<close> with its byte budget. Slice indices stand for the
  item pointers of \<open>trim\<close>. Sizes are unbounded integers (the source notes that its 64-bit counter
  does not overflow in practice). The clock readings of \<open>time.Now\<close>, the QOS level of a value and
  the sort are arguments.
\<close>

subsection \<open>Priority types\<close>

type_synonym PriorityType = int

definition UnknownType :: PriorityType where "UnknownType = 0"
definition OldestType :: PriorityType where "OldestType = 1"
definition NewestType :: PriorityType where "NewestType = 2"
definition lastType :: PriorityType where "lastType = 3"

lemmas priority_defs = UnknownType_def OldestType_def NewestType_def lastType_def

definition ErrPriorityTypeInvalid :: gerr where
  "ErrPriorityTypeInvalid = Sentinel ''qos.ErrPriorityTypeInvalid''"

definition PriorityTypeUnmarshal :: "(string \<times> PriorityType) list" where
  "PriorityTypeUnmarshal =
     [(''unknown'', UnknownType), (''oldest'', OldestType), (''newest'', NewestType)]"

definition PriorityTypeMarshal :: "PriorityType \<rightharpoonup> string" where
  "PriorityTypeMarshal =
     [UnknownType \<mapsto> ''unknown'', OldestType \<mapsto> ''oldest'', NewestType \<mapsto> ''newest'']"

definition PriorityType_String :: "PriorityType \<Rightarrow> string" where
  "PriorityType_String pt =
     (case PriorityTypeMarshal pt of Some v \<Rightarrow> v | None \<Rightarrow> the (PriorityTypeMarshal UnknownType))"

definition getKeys :: string where
  "getKeys = Join (sort (map (\<lambda>(k, _). [CHR 0x27] @ k @ [CHR 0x27]) PriorityTypeUnmarshal)) '', ''"

definition PriorityType_UnmarshalText :: "string \<Rightarrow> gerr + PriorityType" where
  "PriorityType_UnmarshalText b =
     (let s = ToLower b in
      case map_of PriorityTypeUnmarshal s of
        None \<Rightarrow> Inl (Joined [ErrPriorityTypeInvalid,
                  Plain (''PriorityType error: '' @ s @ '' does not match any valid options: '' @ getKeys)])
      | Some r \<Rightarrow> Inr r)"

subsection \<open>Items and the queue\<close>

definition messageIsTooLarge :: int where "messageIsTooLarge = 4"
definition higherPriorityMessageTookTheSpot :: int where "higherPriorityMessageTookTheSpot = 102"

definition ErrMaxMessageBytes :: gerr where
  "ErrMaxMessageBytes = Sentinel ''qos.ErrMaxMessageBytes''"

record item =
  iMsg :: message
  iExpires :: time
  iDiscard :: bool

type_synonym tieBreaker = "item \<Rightarrow> item \<Rightarrow> bool"

record priorityQueue =
  pqQueue :: "item list"
  pqPriority :: PriorityType
  pqTieBreaker :: tieBreaker
  pqMaxQueueBytes :: int
  pqMaxMessageBytes :: int
  pqSizeBytes :: int
  pqLowExpires :: duration
  pqMediumExpires :: duration
  pqHighExpires :: duration
  pqCriticalExpires :: duration

abbreviation payloadSize :: "item \<Rightarrow> int" where
  "payloadSize itm \<equiv> int (length (mPayload (iMsg itm)))"

definition dispose :: "item \<Rightarrow> item \<times> int" where
  "dispose itm =
     (itm\<lparr>iDiscard := True,
          iMsg := (iMsg itm)\<lparr>mPayload := [],
                    mRequestDeliveryResponse := Some higherPriorityMessageTookTheSpot\<rparr>\<rparr>,
      payloadSize itm)"

definition PriorityNewestMsg :: tieBreaker where
  "PriorityNewestMsg i j \<longleftrightarrow> iExpires i > iExpires j"

definition PriorityOldestMsg :: tieBreaker where
  "PriorityOldestMsg i j \<longleftrightarrow> iExpires i < iExpires j"

definition lessItem :: "tieBreaker \<Rightarrow> item \<Rightarrow> item \<Rightarrow> bool" where
  "lessItem tb i j =
     (if mQualityOfService (iMsg i) \<noteq> mQualityOfService (iMsg j)
      then mQualityOfService (iMsg i) > mQualityOfService (iMsg j)
      else tb i j)"

definition Less :: "priorityQueue \<Rightarrow> nat \<Rightarrow> nat \<Rightarrow> bool" where
  "Less pq i j = lessItem (pqTieBreaker pq) (pqQueue pq ! i) (pqQueue pq ! j)"

definition Swap :: "priorityQueue \<Rightarrow> nat \<Rightarrow> nat \<Rightarrow> priorityQueue" where
  "Swap pq i j = pq\<lparr>pqQueue := swap (pqQueue pq) i j\<rparr>"

definition qosExpires :: "(int \<Rightarrow> QOSLevel) \<Rightarrow> priorityQueue \<Rightarrow> message \<Rightarrow> duration" where
  "qosExpires level pq msg =
     (case level (mQualityOfService msg) of
        QOSLow \<Rightarrow> pqLowExpires pq
      | QOSMedium \<Rightarrow> pqMediumExpires pq
      | QOSHigh \<Rightarrow> pqHighExpires pq
      | QOSCritical \<Rightarrow> pqCriticalExpires pq
      | QOSOther \<Rightarrow> 0)"

definition newItem :: "(int \<Rightarrow> QOSLevel) \<Rightarrow> time \<Rightarrow> message \<Rightarrow> priorityQueue \<Rightarrow> item" where
  "newItem level now msg pq =
     \<lparr>iMsg = msg, iExpires = now + qosExpires level pq msg, iDiscard = False\<rparr>"

definition Push :: "(int \<Rightarrow> QOSLevel) \<Rightarrow> time \<Rightarrow> message \<Rightarrow> priorityQueue \<Rightarrow> priorityQueue" where
  "Push level now msg pq =
     pq\<lparr>pqSizeBytes := pqSizeBytes pq + int (length (mPayload msg)),
        pqQueue := pqQueue pq @ [newItem level now msg pq]\<rparr>"

definition Pop :: "priorityQueue \<Rightarrow> item option \<times> priorityQueue" where
  "Pop pq =
     (if pqQueue pq = [] then (None, pq)
      else let itm = last (pqQueue pq)
           in (Some itm, pq\<lparr>pqSizeBytes := pqSizeBytes pq - payloadSize itm,
                            pqQueue := butlast (pqQueue pq)\<rparr>))"

text \<open>\<open>heap.Push(pq, msg)\<close> and \<open>heap.Pop(pq)\<close>.\<close>

definition heapPush :: "(int \<Rightarrow> QOSLevel) \<Rightarrow> time \<Rightarrow> message \<Rightarrow> priorityQueue \<Rightarrow> priorityQueue" where
  "heapPush level now msg pq =
     (let pq' = Push level now msg pq
      in pq'\<lparr>pqQueue := heap_up (lessItem (pqTieBreaker pq')) (pqQueue pq') (length (pqQueue pq') - 1)\<rparr>)"

definition heapPop :: "priorityQueue \<Rightarrow> item option \<times> priorityQueue" where
  "heapPop pq = Pop (pq\<lparr>pqQueue := heap_pop (lessItem (pqTieBreaker pq)) (pqQueue pq)\<rparr>)"

definition Dequeue :: "priorityQueue \<Rightarrow> message option \<times> priorityQueue" where
  "Dequeue pq =
     (if length (pqQueue pq) = 0 then (None, pq)
      else case heapPop pq of (itm, pq') \<Rightarrow> (map_option iMsg itm, pq'))"

subsection \<open>Trimming\<close>

text \<open>The scan that marks expired items and caches the indices of the live ones.\<close>

fun trim_scan :: "time \<Rightarrow> nat list \<Rightarrow> item list \<times> int \<Rightarrow> nat list \<Rightarrow> (item list \<times> int) \<times> nat list" where
  "trim_scan now [] (q, sz) cache = ((q, sz), cache)"
| "trim_scan now (i # is) (q, sz) cache =
     (if iDiscard (q ! i) then trim_scan now is (q, sz) cache
      else if now > iExpires (q ! i)
      then (case dispose (q ! i) of (itm, n) \<Rightarrow> trim_scan now is (q[i := itm], sz - n) cache)
      else trim_scan now is (q, sz) (cache @ [i]))"

definition trim_cmp :: "PriorityType \<Rightarrow> item \<Rightarrow> item \<Rightarrow> int" where
  "trim_cmp priority i j =
     (if mQualityOfService (iMsg i) < mQualityOfService (iMsg j) then -1
      else if mQualityOfService (iMsg i) > mQualityOfService (iMsg j) then 1
      else if priority = NewestType then compare_int (iExpires i) (iExpires j)
      else compare_int (iExpires j) (iExpires i))"

text \<open>The loop that discards the least important live items until the budget holds.\<close>

fun trim_cut :: "int \<Rightarrow> nat list \<Rightarrow> item list \<times> int \<Rightarrow> item list \<times> int" where
  "trim_cut maxb [] (q, sz) = (q, sz)"
| "trim_cut maxb (i # is) (q, sz) =
     (if sz \<le> maxb then (q, sz)
      else (case dispose (q ! i) of (itm, n) \<Rightarrow> trim_cut maxb is (q[i := itm], sz - n)))"

type_synonym index_sort = "(nat \<Rightarrow> nat \<Rightarrow> int) \<Rightarrow> nat list \<Rightarrow> nat list"

definition trim :: "index_sort \<Rightarrow> time \<Rightarrow> priorityQueue \<Rightarrow> priorityQueue" where
  "trim srt now pq =
     (if pqSizeBytes pq \<le> pqMaxQueueBytes pq then pq
      else case trim_scan now [0..<length (pqQueue pq)] (pqQueue pq, pqSizeBytes pq) [] of
        ((q, sz), cache) \<Rightarrow>
          (case trim_cut (pqMaxQueueBytes pq)
                  (srt (\<lambda>i j. trim_cmp (pqPriority pq) (q ! i) (q ! j)) cache) (q, sz) of
             (q', sz') \<Rightarrow> pq\<lparr>pqQueue := q', pqSizeBytes := sz'\<rparr>))"

text \<open>The clock is read once in \<open>Push\<close> and once in \<open>trim\<close>.\<close>

definition clampMessage :: "priorityQueue \<Rightarrow> message \<Rightarrow> message \<times> gerr option" where
  "clampMessage pq msg =
     (if pqMaxMessageBytes pq \<noteq> 0 \<and> int (length (mPayload msg)) > pqMaxMessageBytes pq
      then (msg\<lparr>mPayload := [], mRequestDeliveryResponse := Some messageIsTooLarge\<rparr>,
            Some (Wrapped ''maxMessageBytes'' ErrMaxMessageBytes))
      else (msg, None))"

definition Enqueue ::
  "(int \<Rightarrow> QOSLevel) \<Rightarrow> index_sort \<Rightarrow> time \<Rightarrow> time \<Rightarrow> message \<Rightarrow> priorityQueue \<Rightarrow> gerr option \<times> priorityQueue" where
  "Enqueue level srt now now' msg pq =
     (case clampMessage pq msg of (msg', err) \<Rightarrow> (err, trim srt now' (heapPush level now msg' pq)))"


text \<open>Taking every message out, one \<open>Dequeue\<close> after the other.\<close>

fun drain :: "nat \<Rightarrow> priorityQueue \<Rightarrow> message list" where
  "drain 0 pq = []"
| "drain (Suc n) pq =
     (case Dequeue pq of (None, _) \<Rightarrow> [] | (Some m, pq') \<Rightarrow> m # drain n pq')"

text \<open>An empty queue with a byte budget, as \<open>serviceQOS\<close> and the tests make one.\<close>

definition emptyQueue :: "tieBreaker \<Rightarrow> int \<Rightarrow> int \<Rightarrow> priorityQueue" where
  "emptyQueue tb maxq maxm =
     \<lparr>pqQueue = [], pqPriority = UnknownType, pqTieBreaker = tb, pqMaxQueueBytes = maxq,
      pqMaxMessageBytes = maxm, pqSizeBytes = 0, pqLowExpires = 0, pqMediumExpires = 0,
      pqHighExpires = 0, pqCriticalExpires = 0\<rparr>"

text \<open>Two messages, three bytes, over a budget of two: the queue of the worked examples.\<close>

definition exampleItem :: "int \<Rightarrow> bytes \<Rightarrow> item" where
  "exampleItem qos payload =
     \<lparr>iMsg = empty_message\<lparr>mQualityOfService := qos, mPayload := payload\<rparr>, iExpires = 10, iDiscard = False\<rparr>"

definition exampleQueue :: priorityQueue where
  "exampleQueue = (emptyQueue PriorityOldestMsg 2 0)
     \<lparr>pqQueue := [exampleItem 75 [1, 2], exampleItem 25 [3]], pqSizeBytes := 3\<rparr>"

text \<open>What is left of a message once its payload and its delivery response are ignored.\<close>

definition envelope :: "message \<Rightarrow> message" where
  "envelope m = m\<lparr>mPayload := [], mRequestDeliveryResponse := None\<rparr>"

subsection \<open>The order of the queue\<close>

text \<open>A tie breaker that is itself a strict weak order makes \<open>Less\<close> one.\<close>

locale tie_breaker = tb: heap_order tb for tb :: tieBreaker

sublocale tie_breaker \<subseteq> pq: heap_order "lessItem tb"
proof
  show "lessItem tb x y \<Longrightarrow> \<not> lessItem tb y x" for x y
    using tb.asym by (auto simp: lessItem_def split: if_splits)
  show "\<not> lessItem tb x y \<Longrightarrow> \<not> lessItem tb y z \<Longrightarrow> \<not> lessItem tb x z" for x y z
    using tb.neg_trans by (auto simp: lessItem_def split: if_splits)
qed

interpretation newest: tie_breaker PriorityNewestMsg
  by unfold_locales (auto simp: PriorityNewestMsg_def)

interpretation oldest: tie_breaker PriorityOldestMsg
  by unfold_locales (auto simp: PriorityOldestMsg_def)

text \<open>
  The invariant of the queue: the byte counter is the sum of the queued payloads, the slice is a
  heap, discarded items have lost their payload, and the tie breaker is one of the two that the
  options install.
\<close>

definition psum :: "item list \<Rightarrow> int" where
  "psum q = (\<Sum>itm\<leftarrow>q. payloadSize itm)"

definition stubbed :: "item list \<Rightarrow> bool" where
  "stubbed q \<longleftrightarrow> (\<forall>itm\<in>set q. iDiscard itm \<longrightarrow> mPayload (iMsg itm) = [])"

definition pq_inv :: "priorityQueue \<Rightarrow> bool" where
  "pq_inv pq \<longleftrightarrow>
     pqSizeBytes pq = psum (pqQueue pq) \<and> stubbed (pqQueue pq)
     \<and> is_heap (lessItem (pqTieBreaker pq)) (pqQueue pq) (length (pqQueue pq))
     \<and> (pqTieBreaker pq = PriorityNewestMsg \<or> pqTieBreaker pq = PriorityOldestMsg)"

lemma pq_inv_tie_breaker: "pq_inv pq \<Longrightarrow> tie_breaker (pqTieBreaker pq)"
  using newest.tie_breaker_axioms oldest.tie_breaker_axioms by (auto simp: pq_inv_def)

lemma pq_inv_heap_order: "pq_inv pq \<Longrightarrow> heap_order (lessItem (pqTieBreaker pq))"
  using newest.pq.heap_order_axioms oldest.pq.heap_order_axioms by (auto simp: pq_inv_def)

subsection \<open>Payload sums\<close>

lemma psum_simps [simp]: "psum [] = 0" "psum (x # xs) = payloadSize x + psum xs"
  by (simp_all add: psum_def)

lemma psum_append [simp]: "psum (xs @ ys) = psum xs + psum ys"
  by (simp add: psum_def)

lemma psum_mset: "mset xs = mset ys \<Longrightarrow> psum xs = psum ys"
  unfolding psum_def by (metis mset_map sum_mset_sum_list)

lemma psum_nonneg [simp]: "0 \<le> psum xs"
  by (induction xs) auto

lemma psum_update:
  "i < length q \<Longrightarrow> psum (q[i := x]) = psum q - payloadSize (q ! i) + payloadSize x"
  by (induction q arbitrary: i) (auto split: nat.splits)

lemma psum_all_stubs: "\<forall>x\<in>set q. mPayload (iMsg x) = [] \<Longrightarrow> psum q = 0"
  by (induction q) auto

lemma stubbed_mset: "mset xs = mset ys \<Longrightarrow> stubbed xs = stubbed ys"
  unfolding stubbed_def by (metis set_mset_mset)

subsection \<open>Disposing of items\<close>

lemma dispose_simps [simp]:
  "iDiscard (fst (dispose x))"
  "mPayload (iMsg (fst (dispose x))) = []"
  "iExpires (fst (dispose x)) = iExpires x"
  "mQualityOfService (iMsg (fst (dispose x))) = mQualityOfService (iMsg x)"
  "snd (dispose x) = payloadSize x"
  by (simp_all add: dispose_def)

text \<open>Two queues that agree up to items disposed of on the way.\<close>

definition disposed :: "item list \<Rightarrow> item list \<Rightarrow> bool" where
  "disposed = list_all2 (\<lambda>x y. y = x \<or> (\<not> iDiscard x \<and> y = fst (dispose x)))"

lemma disposed_refl [simp, intro]: "disposed q q"
  by (simp add: disposed_def list_all2_refl)

lemma disposed_trans:
  assumes "disposed p q" and "disposed q r"
  shows "disposed p r"
proof -
  have "r ! i = p ! i \<or> (\<not> iDiscard (p ! i) \<and> r ! i = fst (dispose (p ! i)))" if "i < length p" for i
  proof -
    have "q ! i = p ! i \<or> (\<not> iDiscard (p ! i) \<and> q ! i = fst (dispose (p ! i)))"
      and "r ! i = q ! i \<or> (\<not> iDiscard (q ! i) \<and> r ! i = fst (dispose (q ! i)))"
      using assms that by (auto simp: disposed_def list_all2_conv_all_nth)
    then show ?thesis by (metis dispose_simps(1))
  qed
  moreover have "length p = length r" using assms by (auto simp: disposed_def list_all2_conv_all_nth)
  ultimately show ?thesis by (simp add: disposed_def list_all2_conv_all_nth)
qed

lemma disposed_update: "i < length q \<Longrightarrow> \<not> iDiscard (q ! i) \<Longrightarrow> disposed q (q[i := fst (dispose (q ! i))])"
  by (auto simp: disposed_def list_all2_conv_all_nth nth_list_update)

lemma disposed_length: "disposed p q \<Longrightarrow> length q = length p"
  by (simp add: disposed_def list_all2_lengthD)

lemma disposed_nth:
  "disposed p q \<Longrightarrow> k < length p \<Longrightarrow>
   q ! k = p ! k \<or> (\<not> iDiscard (p ! k) \<and> q ! k = fst (dispose (p ! k)))"
  by (auto simp: disposed_def list_all2_conv_all_nth)

lemma disposed_heap:
  assumes "disposed p q" and "tb = PriorityNewestMsg \<or> tb = PriorityOldestMsg"
  shows "is_heap (lessItem tb) q (length q) = is_heap (lessItem tb) p (length p)"
proof -
  have "iExpires (q ! k) = iExpires (p ! k)
        \<and> mQualityOfService (iMsg (q ! k)) = mQualityOfService (iMsg (p ! k))" if "k < length p" for k
    using disposed_nth[OF assms(1) that] by auto
  then have "lessItem tb (q ! i) (q ! j) = lessItem tb (p ! i) (p ! j)"
    if "i < length p" "j < length p" for i j
    using that assms(2) by (auto simp: lessItem_def PriorityNewestMsg_def PriorityOldestMsg_def)
  then show ?thesis
    using disposed_length[OF assms(1)] by (auto simp: is_heap_def)
qed

lemma disposed_stubbed: "disposed p q \<Longrightarrow> stubbed p \<Longrightarrow> stubbed q"
  unfolding stubbed_def disposed_def
  by (auto simp: list_all2_conv_all_nth in_set_conv_nth) (metis dispose_simps(2) nth_mem)

subsection \<open>What trimming does\<close>

lemma trim_scan_disposed:
  assumes "trim_scan now is (q, sz) cache = ((q', sz'), cache')" and "\<forall>i\<in>set is. i < length q"
    and "sz = psum q"
  shows "disposed q q' \<and> sz' = psum q'"
  using assms
proof (induction now "is" "(q, sz)" cache arbitrary: q sz rule: trim_scan.induct)
  case (2 now i "is" q sz cache)
  consider "iDiscard (q ! i)" | "\<not> iDiscard (q ! i)" "now > iExpires (q ! i)"
    | "\<not> iDiscard (q ! i)" "\<not> now > iExpires (q ! i)" by blast
  then show ?case
  proof cases
    case 1
    with 2 show ?thesis by simp
  next
    case 3
    with 2 show ?thesis by simp
  next
    case exp: 2
    let ?q = "q[i := fst (dispose (q ! i))]"
    have i: "i < length q" using "2.prems" by simp
    have "disposed ?q q' \<and> sz' = psum q'"
      by (rule "2.hyps"(2)) (use exp "2.prems" i in \<open>auto simp: dispose_def psum_update\<close>)
    with disposed_update[OF i exp(1)] show ?thesis using disposed_trans by blast
  qed
qed simp

lemma trim_scan_cache:
  assumes "trim_scan now is (q, sz) cache = ((q', sz'), cache')" and "distinct is"
    and "\<forall>i\<in>set is. i < length q"
  shows "cache' = cache @ filter (\<lambda>i. \<not> iDiscard (q ! i) \<and> \<not> now > iExpires (q ! i)) is
         \<and> (\<forall>k. k < length q \<longrightarrow> (\<not> iDiscard (q' ! k) \<longleftrightarrow>
              \<not> iDiscard (q ! k) \<and> (k \<in> set is \<longrightarrow> \<not> now > iExpires (q ! k))))"
  using assms
proof (induction now "is" "(q, sz)" cache arbitrary: q sz rule: trim_scan.induct)
  case (2 now i "is" q sz cache)
  consider "iDiscard (q ! i)" | "\<not> iDiscard (q ! i)" "now > iExpires (q ! i)"
    | "\<not> iDiscard (q ! i)" "\<not> now > iExpires (q ! i)" by blast
  then show ?case
  proof cases
    case 1
    then have "cache' = cache @ filter (\<lambda>i. \<not> iDiscard (q ! i) \<and> \<not> now > iExpires (q ! i)) is
      \<and> (\<forall>k. k < length q \<longrightarrow> (\<not> iDiscard (q' ! k) \<longleftrightarrow>
              \<not> iDiscard (q ! k) \<and> (k \<in> set is \<longrightarrow> \<not> now > iExpires (q ! k))))"
      using "2.hyps"(1) "2.prems" by simp
    with 1 show ?thesis by auto
  next
    case 3
    then have "cache' = (cache @ [i]) @ filter (\<lambda>i. \<not> iDiscard (q ! i) \<and> \<not> now > iExpires (q ! i)) is
      \<and> (\<forall>k. k < length q \<longrightarrow> (\<not> iDiscard (q' ! k) \<longleftrightarrow>
              \<not> iDiscard (q ! k) \<and> (k \<in> set is \<longrightarrow> \<not> now > iExpires (q ! k))))"
      using "2.hyps"(3) "2.prems" by simp
    with 3 show ?thesis by auto
  next
    case exp: 2
    let ?q = "q[i := fst (dispose (q ! i))]"
    have i: "i < length q" "i \<notin> set is" using "2.prems" by auto
    have IH: "cache' = cache @ filter (\<lambda>i. \<not> iDiscard (?q ! i) \<and> \<not> now > iExpires (?q ! i)) is
      \<and> (\<forall>k. k < length ?q \<longrightarrow> (\<not> iDiscard (q' ! k) \<longleftrightarrow>
              \<not> iDiscard (?q ! k) \<and> (k \<in> set is \<longrightarrow> \<not> now > iExpires (?q ! k))))"
      by (rule "2.hyps"(2)) (use exp "2.prems" i in \<open>auto simp: dispose_def\<close>)
    have upd: "?q ! k = q ! k" if "k \<in> set is" for k
      using i(2) that by (metis nth_list_update_neq)
    have "filter (\<lambda>i. \<not> iDiscard (?q ! i) \<and> \<not> now > iExpires (?q ! i)) is
        = filter (\<lambda>i. \<not> iDiscard (q ! i) \<and> \<not> now > iExpires (q ! i)) is"
      by (intro filter_cong refl) (simp add: upd)
    with IH exp i show ?thesis by (auto simp: nth_list_update split: if_splits)
  qed
qed simp

lemma trim_cut_disposed:
  assumes "trim_cut maxb is (q, sz) = (q', sz')" and "distinct is"
    and "\<forall>i\<in>set is. i < length q \<and> \<not> iDiscard (q ! i)" and "sz = psum q"
  shows "disposed q q' \<and> sz' = psum q'"
  using assms
proof (induction maxb "is" "(q, sz)" arbitrary: q sz rule: trim_cut.induct)
  case (2 maxb i "is" q sz)
  show ?case
  proof (cases "sz \<le> maxb")
    case True
    with "2.prems" show ?thesis by auto
  next
    case False
    let ?q = "q[i := fst (dispose (q ! i))]"
    have i: "i < length q" "\<not> iDiscard (q ! i)" using "2.prems" by auto
    have "disposed ?q q' \<and> sz' = psum q'"
      by (rule "2.hyps") (use False "2.prems" i in \<open>auto simp: dispose_def psum_update nth_list_update\<close>)
    with disposed_update[OF i] show ?thesis using disposed_trans by blast
  qed
qed simp

lemma trim_cut_bound:
  assumes "trim_cut maxb is (q, sz) = (q', sz')" and "0 \<le> maxb" and "stubbed q" and "sz = psum q"
    and "\<forall>k < length q. \<not> iDiscard (q ! k) \<longrightarrow> k \<in> set is" and "\<forall>i\<in>set is. i < length q"
  shows "sz' \<le> maxb"
  using assms
proof (induction maxb "is" "(q, sz)" arbitrary: q sz rule: trim_cut.induct)
  case (1 maxb q sz)
  then have "\<forall>x\<in>set q. iDiscard x" by (auto simp: in_set_conv_nth)
  with "1.prems" have "psum q = 0" by (intro psum_all_stubs) (auto simp: stubbed_def)
  with "1.prems" show ?case by simp
next
  case (2 maxb i "is" q sz)
  show ?case
  proof (cases "sz \<le> maxb")
    case True
    with "2.prems" show ?thesis by auto
  next
    case False
    let ?q = "q[i := fst (dispose (q ! i))]"
    have i: "i < length q" using "2.prems" by auto
    have "stubbed ?q"
      using "2.prems"(3) by (auto simp: stubbed_def dest!: set_update_subset_insert[THEN subsetD])
    then show ?thesis
      by (intro "2.hyps"[of "fst (dispose (q ! i))" "snd (dispose (q ! i))"])
        (use False "2.prems" i in \<open>auto simp: dispose_def psum_update nth_list_update split: if_splits\<close>)
  qed
qed

text \<open>The cut discards a prefix of the sorted indices and leaves the rest alone.\<close>

lemma trim_cut_split:
  assumes "trim_cut maxb is (q, sz) = (q', sz')" and "distinct is" and "\<forall>i\<in>set is. i < length q"
  shows "\<exists>ys zs. is = ys @ zs \<and> (\<forall>k. k \<notin> set ys \<longrightarrow> q' ! k = q ! k) \<and> (\<forall>k\<in>set ys. iDiscard (q' ! k))"
  using assms
proof (induction maxb "is" "(q, sz)" arbitrary: q sz rule: trim_cut.induct)
  case (2 maxb i "is" q sz)
  show ?case
  proof (cases "sz \<le> maxb")
    case True
    with "2.prems" show ?thesis by (intro exI[of _ "[]"] exI[of _ "i # is"]) simp
  next
    case False
    let ?q = "q[i := fst (dispose (q ! i))]"
    have i: "i < length q" "i \<notin> set is" using "2.prems" by auto
    have "\<exists>ys zs. is = ys @ zs \<and> (\<forall>k. k \<notin> set ys \<longrightarrow> q' ! k = ?q ! k) \<and> (\<forall>k\<in>set ys. iDiscard (q' ! k))"
      by (rule "2.hyps") (use False "2.prems" i in \<open>auto simp: dispose_def\<close>)
    then obtain ys zs where yz: "is = ys @ zs" "\<forall>k. k \<notin> set ys \<longrightarrow> q' ! k = ?q ! k"
      "\<forall>k\<in>set ys. iDiscard (q' ! k)" by blast
    moreover from yz i have "iDiscard (q' ! i)" by simp
    ultimately show ?thesis using i by (intro exI[of _ "i # ys"] exI[of _ zs]) (auto simp: nth_list_update)
  qed
qed simp

lemma weak_order_trim_cmp: "weak_order (\<lambda>i j. trim_cmp priority (q ! i) (q ! j))"
  unfolding weak_order_def trim_cmp_def compare_int_def by auto

text \<open>
  One run of \<open>trim\<close> over budget: the scanned queue \<open>q\<close>, the sorted live indices \<open>ix\<close> and the
  final queue \<open>q'\<close>. The facts below read off what they need.
\<close>

definition trim_run ::
  "priorityQueue \<Rightarrow> priorityQueue \<Rightarrow> item list \<Rightarrow> nat list \<Rightarrow> item list \<Rightarrow> bool" where
  "trim_run pq pq' q ix q' \<longleftrightarrow>
     trim_cut (pqMaxQueueBytes pq) ix (q, psum q) = (q', psum q')
     \<and> pq' = pq\<lparr>pqQueue := q', pqSizeBytes := psum q'\<rparr>
     \<and> disposed (pqQueue pq) q \<and> disposed q q' \<and> distinct ix
     \<and> (\<forall>k. k \<in> set ix \<longleftrightarrow> k < length q \<and> \<not> iDiscard (q ! k))
     \<and> (\<forall>ys zs y z. ix = ys @ zs \<longrightarrow> y \<in> set ys \<longrightarrow> z \<in> set zs \<longrightarrow>
            trim_cmp (pqPriority pq) (q ! y) (q ! z) \<le> 0)"

lemma trim_run_exists:
  assumes srt: "sort_func srt" and sz: "pqSizeBytes pq = psum (pqQueue pq)"
    and over: "\<not> pqSizeBytes pq \<le> pqMaxQueueBytes pq"
  shows "\<exists>q ix q'. trim_run pq (trim srt now pq) q ix q'
           \<and> (\<forall>k < length (pqQueue pq). \<not> iDiscard (q ! k) \<longleftrightarrow>
                 \<not> iDiscard (pqQueue pq ! k) \<and> \<not> now > iExpires (pqQueue pq ! k))"
proof -
  let ?p = "pqQueue pq"
  obtain q s cache where scan: "trim_scan now [0..<length ?p] (?p, pqSizeBytes pq) [] = ((q, s), cache)"
    by (metis surj_pair)
  define cmp where "cmp = (\<lambda>i j. trim_cmp (pqPriority pq) (q ! i) (q ! j))"
  define ix where "ix = srt cmp cache"
  obtain q' s' where cut: "trim_cut (pqMaxQueueBytes pq) ix (q, s) = (q', s')" by (metis surj_pair)
  note c = trim_scan_cache[OF scan distinct_upt]
  have disc: "\<forall>k < length ?p. \<not> iDiscard (q ! k) \<longleftrightarrow> \<not> iDiscard (?p ! k) \<and> \<not> now > iExpires (?p ! k)"
    using c by simp
  have d1: "disposed ?p q" and s: "s = psum q" using trim_scan_disposed[OF scan _ sz] by auto
  have len: "length q = length ?p" using d1 by (rule disposed_length)
  have cache: "set cache = {k. k < length q \<and> \<not> iDiscard (q ! k)}" "distinct cache"
    using c disc len by auto
  have mem: "\<forall>k. k \<in> set ix \<longleftrightarrow> k < length q \<and> \<not> iDiscard (q ! k)" and dist: "distinct ix"
    using cache by (simp_all add: ix_def sort_func.srt_set[OF srt] sort_func.srt_distinct[OF srt])
  have d2: "disposed q q'" and s': "s' = psum q'"
    using trim_cut_disposed[OF cut dist _ s] mem by auto
  have sorted: "cmp y z \<le> 0" if "ix = ys @ zs" "y \<in> set ys" "z \<in> set zs" for ys zs y z
    using sort_func.srt_split[OF srt _ _ that(2,3)] that(1) weak_order_trim_cmp
    unfolding cmp_def ix_def by blast
  have "trim srt now pq = pq\<lparr>pqQueue := q', pqSizeBytes := s'\<rparr>"
    using over scan cut by (simp add: trim_def ix_def cmp_def)
  with cut d1 d2 s s' mem dist sorted have "trim_run pq (trim srt now pq) q ix q'"
    by (simp add: trim_run_def cmp_def)
  with disc show ?thesis by blast
qed

lemma trim_frame [simp]:
  "pqPriority (trim srt now pq) = pqPriority pq"
  "pqTieBreaker (trim srt now pq) = pqTieBreaker pq"
  "pqMaxQueueBytes (trim srt now pq) = pqMaxQueueBytes pq"
  "pqMaxMessageBytes (trim srt now pq) = pqMaxMessageBytes pq"
  by (auto simp: trim_def split: prod.splits)

lemma trim_disposed:
  assumes "sort_func srt" and "pqSizeBytes pq = psum (pqQueue pq)"
  shows "disposed (pqQueue pq) (pqQueue (trim srt now pq))
         \<and> pqSizeBytes (trim srt now pq) = psum (pqQueue (trim srt now pq))"
proof (cases "pqSizeBytes pq \<le> pqMaxQueueBytes pq")
  case True
  with assms show ?thesis by (simp add: trim_def)
next
  case False
  from trim_run_exists[OF assms False, of now] obtain q ix q' where
    "trim_run pq (trim srt now pq) q ix q'" by blast
  then show ?thesis using disposed_trans by (auto simp: trim_run_def)
qed

lemma trim_pq_inv:
  assumes "sort_func srt" and "pq_inv pq"
  shows "pq_inv (trim srt now pq)"
  using trim_disposed[OF assms(1), of pq now] assms(2) disposed_heap disposed_stubbed
  by (auto simp: pq_inv_def)

lemma trim_bound:
  assumes "sort_func srt" and "pq_inv pq" and "0 \<le> pqMaxQueueBytes pq"
  shows "pqSizeBytes (trim srt now pq) \<le> pqMaxQueueBytes pq"
proof (cases "pqSizeBytes pq \<le> pqMaxQueueBytes pq")
  case True
  then show ?thesis by (simp add: trim_def)
next
  case False
  have sz: "pqSizeBytes pq = psum (pqQueue pq)" and st: "stubbed (pqQueue pq)"
    using assms(2) by (auto simp: pq_inv_def)
  from trim_run_exists[OF assms(1) sz False, of now] obtain q ix q' where
    run: "trim_run pq (trim srt now pq) q ix q'" by blast
  have "psum q' \<le> pqMaxQueueBytes pq"
  proof (rule trim_cut_bound)
    show "trim_cut (pqMaxQueueBytes pq) ix (q, psum q) = (q', psum q')"
      using run by (simp add: trim_run_def)
    show "stubbed q" using run st disposed_stubbed by (auto simp: trim_run_def)
  qed (use run assms(3) in \<open>auto simp: trim_run_def\<close>)
  with run show ?thesis by (simp add: trim_run_def)
qed

subsection \<open>Pushing and popping\<close>

lemma heapPush_queue:
  "pqQueue (heapPush level now msg pq) =
     heap_push (lessItem (pqTieBreaker pq)) (pqQueue pq) (newItem level now msg pq)"
  by (simp add: heapPush_def Push_def heap_push_def Let_def)

lemma heapPush_frame [simp]:
  "pqTieBreaker (heapPush level now msg pq) = pqTieBreaker pq"
  "pqMaxQueueBytes (heapPush level now msg pq) = pqMaxQueueBytes pq"
  "pqMaxMessageBytes (heapPush level now msg pq) = pqMaxMessageBytes pq"
  "pqPriority (heapPush level now msg pq) = pqPriority pq"
  "pqSizeBytes (heapPush level now msg pq) = pqSizeBytes pq + int (length (mPayload msg))"
  by (simp_all add: heapPush_def Push_def Let_def)

lemma heapPush_mset:
  "mset (pqQueue (heapPush level now msg pq)) = add_mset (newItem level now msg pq) (mset (pqQueue pq))"
  by (simp add: heapPush_queue mset_heap_push)

lemma heapPush_pq_inv:
  assumes "pq_inv pq"
  shows "pq_inv (heapPush level now msg pq)"
proof -
  let ?pq = "heapPush level now msg pq"
  have m: "mset (pqQueue ?pq) = mset (newItem level now msg pq # pqQueue pq)"
    by (simp add: heapPush_mset)
  have "is_heap (lessItem (pqTieBreaker pq)) (pqQueue ?pq) (length (pqQueue ?pq))"
    using heap_order.heap_push_is_heap[OF pq_inv_heap_order[OF assms]] assms
    by (simp add: heapPush_queue pq_inv_def)
  moreover have "psum (pqQueue ?pq) = pqSizeBytes ?pq"
    using psum_mset[OF m] assms by (simp add: pq_inv_def newItem_def)
  moreover have "stubbed (pqQueue ?pq)"
    using stubbed_mset[OF m] assms by (simp add: pq_inv_def stubbed_def newItem_def)
  ultimately show ?thesis using assms by (simp add: pq_inv_def)
qed

lemma heapPop_spec:
  assumes "pq_inv pq" and "pqQueue pq \<noteq> []"
  obtains itm pq' where "heapPop pq = (Some itm, pq')" "itm = hd (pqQueue pq)"
    "mset (pqQueue pq) = add_mset itm (mset (pqQueue pq'))" "pq_inv pq'"
    "pqTieBreaker pq' = pqTieBreaker pq" "pqMaxQueueBytes pq' = pqMaxQueueBytes pq"
proof -
  let ?lt = "lessItem (pqTieBreaker pq)"
  let ?h = "heap_pop ?lt (pqQueue pq)"
  have ne: "?h \<noteq> []" using assms(2) length_heap_pop by (metis length_0_conv)
  have last: "last ?h = hd (pqQueue pq)" using assms(2) by (rule last_heap_pop)
  have split: "?h = butlast ?h @ [last ?h]" using ne by simp
  have m: "mset (pqQueue pq) = add_mset (hd (pqQueue pq)) (mset (butlast ?h))"
    using mset_heap_pop[OF assms(2), of ?lt] split last
    by (metis add_mset_add_single mset_append mset_single_iff_right)
  have ps: "psum (pqQueue pq) = payloadSize (hd (pqQueue pq)) + psum (butlast ?h)"
    using psum_mset[of "pqQueue pq" "hd (pqQueue pq) # butlast ?h"] m by simp
  have heap: "is_heap ?lt (butlast ?h) (length (butlast ?h))"
    using heap_order.heap_pop_is_heap[OF pq_inv_heap_order[OF assms(1)], of "pqQueue pq"] assms(1)
    by (auto simp: is_heap_def pq_inv_def nth_butlast)
  have st: "stubbed (butlast ?h)"
    using stubbed_mset[of "pqQueue pq" "hd (pqQueue pq) # butlast ?h"] m assms(1)
    by (simp add: pq_inv_def stubbed_def)
  let ?pq' = "pq\<lparr>pqQueue := butlast ?h, pqSizeBytes := pqSizeBytes pq - payloadSize (hd (pqQueue pq))\<rparr>"
  have "heapPop pq = (Some (hd (pqQueue pq)), ?pq')"
    using ne last by (simp add: heapPop_def Pop_def Let_def)
  moreover have "pq_inv ?pq'" using ps heap st assms(1) by (simp add: pq_inv_def)
  ultimately show ?thesis using that m by simp
qed

lemma Dequeue_spec:
  assumes "pq_inv pq" and "pqQueue pq \<noteq> []"
  obtains itm pq' where "Dequeue pq = (Some (iMsg itm), pq')" "itm = hd (pqQueue pq)"
    "mset (pqQueue pq) = add_mset itm (mset (pqQueue pq'))" "pq_inv pq'"
    "pqTieBreaker pq' = pqTieBreaker pq" "pqMaxQueueBytes pq' = pqMaxQueueBytes pq"
  by (rule heapPop_spec[OF assms]) (use assms(2) in \<open>auto simp: Dequeue_def that\<close>)

lemma pq_inv_emptyQueue:
  "tb = PriorityNewestMsg \<or> tb = PriorityOldestMsg \<Longrightarrow> pq_inv (emptyQueue tb maxq maxm)"
  by (auto simp: pq_inv_def emptyQueue_def stubbed_def is_heap_def)

lemma pq_inv_exampleQueue: "pq_inv exampleQueue"
  by (auto simp: pq_inv_def exampleQueue_def emptyQueue_def exampleItem_def stubbed_def is_heap_def
      lessItem_def PriorityOldestMsg_def empty_message_def parent_def less_Suc_eq)

lemma exampleQueue_queue: "pqQueue exampleQueue = [exampleItem 75 [1, 2], exampleItem 25 [3]]"
  by (simp add: exampleQueue_def)

lemma exampleQueue_trim:
  "pqQueue (trim insertion_sort 0 exampleQueue) =
     [exampleItem 75 [1, 2], fst (dispose (exampleItem 25 [3]))]"
  by (simp add: trim_def exampleQueue_def emptyQueue_def exampleItem_def trim_cmp_def empty_message_def
      dispose_def upt_rec)

lemma Enqueue_snd:
  "snd (Enqueue level srt now now' msg pq) =
     trim srt now' (heapPush level now (fst (clampMessage pq msg)) pq)"
  by (simp add: Enqueue_def split: prod.splits)

lemma Enqueue_pq_inv:
  "sort_func srt \<Longrightarrow> pq_inv pq \<Longrightarrow> pq_inv (snd (Enqueue level srt now now' msg pq))"
  by (simp add: Enqueue_snd trim_pq_inv heapPush_pq_inv)

lemma envelope_dispose [simp]: "envelope (iMsg (fst (dispose x))) = envelope (iMsg x)"
  by (simp add: envelope_def dispose_def)

lemma envelope_clamp [simp]: "envelope (fst (clampMessage pq msg)) = envelope msg"
  by (simp add: envelope_def clampMessage_def)

lemma disposed_envelope: "disposed p q \<Longrightarrow> map (envelope \<circ> iMsg) q = map (envelope \<circ> iMsg) p"
  by (rule nth_equalityI) (auto simp: disposed_length dest!: disposed_nth)

lemma drain_Suc:
  assumes "pq_inv pq" and "length (pqQueue pq) = Suc n"
  obtains itm pq' where "drain (Suc n) pq = iMsg itm # drain n pq'" "itm = hd (pqQueue pq)"
    "mset (pqQueue pq) = add_mset itm (mset (pqQueue pq'))" "pq_inv pq'"
    "length (pqQueue pq') = n"
proof -
  from assms(2) have "pqQueue pq \<noteq> []" by auto
  from Dequeue_spec[OF assms(1) this] obtain itm pq' where d:
    "Dequeue pq = (Some (iMsg itm), pq')" "itm = hd (pqQueue pq)"
    "mset (pqQueue pq) = add_mset itm (mset (pqQueue pq'))" "pq_inv pq'" by metis
  from d(3) have "size (mset (pqQueue pq)) = Suc (size (mset (pqQueue pq')))" by simp
  with assms(2) have "length (pqQueue pq') = n" by simp
  with d that show ?thesis by simp
qed

lemma mset_drain:
  "pq_inv pq \<Longrightarrow> length (pqQueue pq) = n \<Longrightarrow> mset (drain n pq) = image_mset iMsg (mset (pqQueue pq))"
proof (induction n arbitrary: pq)
  case 0
  then show ?case by simp
next
  case (Suc n)
  from Suc.prems obtain itm pq' where "drain (Suc n) pq = iMsg itm # drain n pq'"
    "mset (pqQueue pq) = add_mset itm (mset (pqQueue pq'))" "pq_inv pq'" "length (pqQueue pq') = n"
    by (rule drain_Suc)
  with Suc.IH show ?case by simp
qed

lemma hd_max_qos:
  assumes "pq_inv pq" and "x \<in> set (pqQueue pq)"
  shows "mQualityOfService (iMsg x) \<le> mQualityOfService (iMsg (hd (pqQueue pq)))"
  using heap_order.head_best[OF pq_inv_heap_order[OF assms(1)] _ assms(2)] assms(1)
  by (auto simp: pq_inv_def lessItem_def split: if_splits)

subsection \<open>Properties\<close>

text \<open>
  C1: After every \<open>Enqueue\<close> the payload bytes held by the queue are within \<open>maxQueueBytes\<close>, the byte
  counter is exact and the heap order is kept, whatever the message and the clock.
\<close>

theorem Enqueue_within_budget:
  assumes "sort_func srt" and "pq_inv pq" and "0 \<le> pqMaxQueueBytes pq"
  shows "psum (pqQueue (snd (Enqueue level srt now now' msg pq))) \<le> pqMaxQueueBytes pq
         \<and> pq_inv (snd (Enqueue level srt now now' msg pq))"
proof -
  let ?pq = "snd (Enqueue level srt now now' msg pq)"
  have inv: "pq_inv ?pq" using assms(1,2) by (rule Enqueue_pq_inv)
  have "pqSizeBytes ?pq \<le> pqMaxQueueBytes pq"
    using trim_bound[OF assms(1) heapPush_pq_inv[OF assms(2)]] assms(3) by (simp add: Enqueue_snd)
  with inv show ?thesis by (simp add: pq_inv_def)
qed

theorem Enqueue_within_budget_witness:
  "psum (pqQueue (snd (Enqueue (\<lambda>_. QOSLow) insertion_sort 5 6
      (empty_message\<lparr>mPayload := [1, 2, 3]\<rparr>) (emptyQueue PriorityNewestMsg 2 0)))) \<le> 2
   \<and> pq_inv (snd (Enqueue (\<lambda>_. QOSLow) insertion_sort 5 6
      (empty_message\<lparr>mPayload := [1, 2, 3]\<rparr>) (emptyQueue PriorityNewestMsg 2 0)))"
  using Enqueue_within_budget[OF isort.sort_func_axioms, of "emptyQueue PriorityNewestMsg 2 0"]
    pq_inv_emptyQueue[of PriorityNewestMsg 2 0]
  by (simp add: emptyQueue_def)

text \<open>
  \<open>Dequeue\<close> on a non-empty queue returns a message of the highest priority, so that no queued
  item goes before it, and removes exactly that item.
\<close>

theorem Dequeue_best:
  assumes "pq_inv pq" and "pqQueue pq \<noteq> []"
  shows "\<exists>itm pq'. Dequeue pq = (Some (iMsg itm), pq')
           \<and> mset (pqQueue pq) = add_mset itm (mset (pqQueue pq'))
           \<and> (\<forall>x\<in>set (pqQueue pq). \<not> lessItem (pqTieBreaker pq) x itm) \<and> pq_inv pq'"
proof -
  from Dequeue_spec[OF assms] obtain itm pq' where d: "Dequeue pq = (Some (iMsg itm), pq')"
    "itm = hd (pqQueue pq)" "mset (pqQueue pq) = add_mset itm (mset (pqQueue pq'))" "pq_inv pq'"
    by metis
  moreover have "\<not> lessItem (pqTieBreaker pq) x itm" if "x \<in> set (pqQueue pq)" for x
    using heap_order.head_best[OF pq_inv_heap_order[OF assms(1)] _ that] assms(1) d(2)
    by (simp add: pq_inv_def)
  ultimately show ?thesis by blast
qed

theorem Dequeue_best_witness:
  "\<exists>itm pq'. Dequeue exampleQueue = (Some (iMsg itm), pq')
     \<and> mset (pqQueue exampleQueue) = add_mset itm (mset (pqQueue pq'))
     \<and> (\<forall>x\<in>set (pqQueue exampleQueue). \<not> lessItem (pqTieBreaker exampleQueue) x itm) \<and> pq_inv pq'"
  by (rule Dequeue_best[OF pq_inv_exampleQueue]) (simp add: exampleQueue_queue)

text \<open>
  C2: Draining the queue hands out every queued message once, in non-increasing quality of service.
\<close>

theorem drain_highest_first:
  assumes "pq_inv pq"
  shows "sorted_wrt (\<lambda>a b. mQualityOfService b \<le> mQualityOfService a) (drain (length (pqQueue pq)) pq)
         \<and> mset (drain (length (pqQueue pq)) pq) = image_mset iMsg (mset (pqQueue pq))"
proof -
  have "sorted_wrt (\<lambda>a b. mQualityOfService b \<le> mQualityOfService a) (drain n pq)"
    if "pq_inv pq" "length (pqQueue pq) = n" for n
    using that
  proof (induction n arbitrary: pq)
    case 0
    then show ?case by simp
  next
    case (Suc n)
    from Suc.prems obtain itm pq' where d: "drain (Suc n) pq = iMsg itm # drain n pq'"
      "itm = hd (pqQueue pq)" "mset (pqQueue pq) = add_mset itm (mset (pqQueue pq'))" "pq_inv pq'"
      "length (pqQueue pq') = n"
      by (rule drain_Suc)
    have "mQualityOfService m \<le> mQualityOfService (iMsg itm)" if m: "m \<in> set (drain n pq')" for m
    proof -
      from m have "m \<in># image_mset iMsg (mset (pqQueue pq'))" using mset_drain[OF d(4,5)] by (metis set_mset_mset)
      then obtain x where "x \<in> set (pqQueue pq)" "m = iMsg x"
        using d(3) by (metis imageE insertCI set_image_mset set_mset_add_mset_insert set_mset_mset)
      with hd_max_qos[OF Suc.prems(1)] d(2) show ?thesis by simp
    qed
    with Suc.IH[OF d(4,5)] d(1) show ?case by simp
  qed
  with mset_drain assms show ?thesis by blast
qed

theorem drain_highest_first_witness:
  "sorted_wrt (\<lambda>a b. mQualityOfService b \<le> mQualityOfService a) (drain 2 exampleQueue)
   \<and> mset (drain 2 exampleQueue) = image_mset iMsg (mset (pqQueue exampleQueue))"
  using drain_highest_first[OF pq_inv_exampleQueue] by (simp add: exampleQueue_queue numeral_2_eq_2)





text \<open>
  The textual form of a priority type decodes to the same type for exactly the three types that
  have a name; anything but those names, in any letter case, is rejected.
\<close>

theorem PriorityType_roundtrip:
  "(PriorityType_UnmarshalText (PriorityType_String pt) = Inr pt \<longleftrightarrow>
      UnknownType \<le> pt \<and> pt < lastType)
   \<and> (ToLower s \<notin> {''unknown'', ''oldest'', ''newest''} \<longleftrightarrow>
      (\<exists>e. PriorityType_UnmarshalText s = Inl e))"
  by (auto simp: PriorityType_UnmarshalText_def PriorityType_String_def PriorityTypeMarshal_def
      PriorityTypeUnmarshal_def priority_defs ToLower_def lower_char_def Let_def
      split: option.splits if_splits)

end
