(* ===== verification/QosService.thy ===== *)
theory QosService
  imports QosQueue
begin

text \<open>
  \<open>internal/wrphandlers/qos/qos.go\<close>, \<open>options.go\<close> and \<open>internal_options.go\<close>: the options and the
  constructor of the QOS handler, its life cycle, and the goroutine \<open>serviceQOS\<close> as a step function
  over the events its \<open>select\<close> can take. A channel value is named by a number. The calls of the
  next handler are recorded in the order in which \<open>wrpHandler\<close> starts them.
\<close>

subsection \<open>Configuration\<close>

definition ErrInvalidInput_qos :: gerr where "ErrInvalidInput_qos = Sentinel ''qos.ErrInvalidInput''"
definition ErrMisconfiguredQOS :: gerr where "ErrMisconfiguredQOS = Sentinel ''qos.ErrMisconfiguredQOS''"
definition ErrQOSHasShutdown :: gerr where "ErrQOSHasShutdown = Sentinel ''qos.ErrQOSHasShutdown''"

definition DefaultMaxQueueBytes :: int where "DefaultMaxQueueBytes = 1 * 1024 * 1024"
definition DefaultLowExpires :: duration where "DefaultLowExpires = Minute * 15"
definition DefaultMediumExpires :: duration where "DefaultMediumExpires = Minute * 20"
definition DefaultHighExpires :: duration where "DefaultHighExpires = Minute * 25"
definition DefaultCriticalExpires :: duration where "DefaultCriticalExpires = Minute * 30"

record 's qosHandler =
  hNext :: "'s handler"
  hQueue :: "nat option"
  hPriority :: PriorityType
  hTieBreaker :: "tieBreaker option"
  hMaxQueueBytes :: int
  hMaxMessageBytes :: int
  hLowExpires :: duration
  hMediumExpires :: duration
  hHighExpires :: duration
  hCriticalExpires :: duration

text \<open>An option may write the handler and return an error at the same time.\<close>

type_synonym 's qosOption = "'s qosHandler \<Rightarrow> 's qosHandler \<times> gerr option"

definition MaxQueueBytes :: "int \<Rightarrow> 's qosOption" where
  "MaxQueueBytes s h =
     (if s < 0 then (h, Some (Wrapped ''negative MaxQueueBytes'' ErrMisconfiguredQOS))
      else if s = 0 then (h\<lparr>hMaxQueueBytes := DefaultMaxQueueBytes\<rparr>, None)
      else (h\<lparr>hMaxQueueBytes := s\<rparr>, None))"

definition MaxMessageBytes :: "int \<Rightarrow> 's qosOption" where
  "MaxMessageBytes s h =
     (if s < 0 then (h, Some (Wrapped ''negative MaxMessageBytes'' ErrMisconfiguredQOS))
      else (h\<lparr>hMaxMessageBytes := s\<rparr>, None))"

definition priority :: "PriorityType \<Rightarrow> tieBreaker option \<times> gerr option" where
  "priority p =
     (if p = NewestType then (Some PriorityNewestMsg, None)
      else if p = OldestType then (Some PriorityOldestMsg, None)
      else (None, errorsJoin [Some (Wrapped (PriorityType_String p) ErrPriorityTypeInvalid),
                              Some ErrMisconfiguredQOS]))"

definition Priority :: "PriorityType \<Rightarrow> 's qosOption" where
  "Priority p h = (case priority p of (tb, err) \<Rightarrow> (h\<lparr>hTieBreaker := tb, hPriority := p\<rparr>, err))"

definition LowExpires :: "duration \<Rightarrow> 's qosOption" where
  "LowExpires t h =
     (if t < 0 then (h, Some (Wrapped ''negative LowExpires'' ErrMisconfiguredQOS))
      else (h\<lparr>hLowExpires := t\<rparr>, None))"

definition MediumExpires :: "duration \<Rightarrow> 's qosOption" where
  "MediumExpires t h =
     (if t < 0 then (h, Some (Wrapped ''negative MediumExpires'' ErrMisconfiguredQOS))
      else (h\<lparr>hMediumExpires := t\<rparr>, None))"

definition HighExpires :: "duration \<Rightarrow> 's qosOption" where
  "HighExpires t h =
     (if t < 0 then (h, Some (Wrapped ''negative HighExpires'' ErrMisconfiguredQOS))
      else (h\<lparr>hHighExpires := t\<rparr>, None))"

definition CriticalExpires :: "duration \<Rightarrow> 's qosOption" where
  "CriticalExpires t h =
     (if t < 0 then (h, Some (Wrapped ''negative CriticalExpires'' ErrMisconfiguredQOS))
      else (h\<lparr>hCriticalExpires := t\<rparr>, None))"

definition validateQueueConstraints :: "'s qosOption" where
  "validateQueueConstraints h =
     (h, if hMaxMessageBytes h > hMaxQueueBytes h
         then Some (Wrapped ''MaxMessageBytes > MaxQueueBytes'' ErrMisconfiguredQOS) else None)"

definition validatePriority :: "'s qosOption" where
  "validatePriority h =
     (h, if hPriority h \<le> UnknownType \<or> hPriority h \<ge> lastType
         then errorsJoin [Some (Wrapped (PriorityType_String (hPriority h)) ErrPriorityTypeInvalid),
                          Some ErrMisconfiguredQOS] else None)"

definition validateTieBreaker :: "'s qosOption" where
  "validateTieBreaker h =
     (h, if hTieBreaker h = None
         then errorsJoin [Some (Wrapped ''nil tiebreak'' ErrPriorityTypeInvalid),
                          Some ErrMisconfiguredQOS] else None)"

text \<open>The constructor loop keeps going after an error and joins the errors.\<close>

fun applyJoin :: "'s qosOption option list \<Rightarrow> 's qosHandler \<Rightarrow> gerr option \<Rightarrow> 's qosHandler \<times> gerr option" where
  "applyJoin [] h errs = (h, errs)"
| "applyJoin (None # os) h errs = applyJoin os h errs"
| "applyJoin (Some f # os) h errs =
     (case f h of
        (h', None) \<Rightarrow> applyJoin os h' errs
      | (h', Some e) \<Rightarrow> applyJoin os h' (errorsJoin [errs, Some e]))"

definition New_qos :: "'s handler option \<Rightarrow> 's qosOption option list \<Rightarrow> gerr + 's qosHandler" where
  "New_qos nxt opts =
     (case nxt of
        None \<Rightarrow> Inl ErrInvalidInput_qos
      | Some nx \<Rightarrow>
          (let opts' = opts @ [Some validateQueueConstraints, Some validatePriority, Some validateTieBreaker];
               h = \<lparr>hNext = nx, hQueue = None, hPriority = UnknownType, hTieBreaker = None,
                    hMaxQueueBytes = 0, hMaxMessageBytes = 0, hLowExpires = DefaultLowExpires,
                    hMediumExpires = DefaultMediumExpires, hHighExpires = DefaultHighExpires,
                    hCriticalExpires = DefaultCriticalExpires\<rparr>
           in case applyJoin opts' h None of
                (h', Some errs) \<Rightarrow> Inl errs
              | (h', None) \<Rightarrow> Inr h'))"

subsection \<open>Life cycle\<close>

text \<open>\<open>Start\<close> makes the channel \<open>ch\<close> and starts \<open>serviceQOS\<close> on it, unless one is running.\<close>

definition Start_qos :: "nat \<Rightarrow> 's qosHandler \<Rightarrow> 's qosHandler \<times> nat option" where
  "Start_qos ch h = (if hQueue h = None then (h\<lparr>hQueue := Some ch\<rparr>, Some ch) else (h, None))"

text \<open>\<open>Stop\<close> returns the channel it closes.\<close>

definition Stop_qos :: "'s qosHandler \<Rightarrow> 's qosHandler \<times> nat option" where
  "Stop_qos h = (case hQueue h of Some ch \<Rightarrow> (h\<lparr>hQueue := None\<rparr>, Some ch) | None \<Rightarrow> (h, None))"

text \<open>\<open>HandleWrp\<close> returns the channel the message is sent on.\<close>

definition HandleWrp_qos :: "message \<Rightarrow> 's qosHandler \<Rightarrow> gerr option \<times> (nat \<times> message) option" where
  "HandleWrp_qos msg h =
     (case hQueue h of None \<Rightarrow> (Some ErrQOSHasShutdown, None) | Some ch \<Rightarrow> (None, Some (ch, msg)))"

subsection \<open>The service goroutine\<close>

text \<open>
  The queue \<open>serviceQOS\<close> builds. It copies the two size limits and the tie breaker and nothing
  else; a nil tie breaker, which \<open>New\<close> excludes, would panic at the first comparison.
\<close>

definition serviceQOS_pq :: "'s qosHandler \<Rightarrow> priorityQueue option" where
  "serviceQOS_pq h =
     (case hTieBreaker h of
        None \<Rightarrow> None
      | Some tb \<Rightarrow> Some \<lparr>pqQueue = [], pqPriority = UnknownType, pqTieBreaker = tb,
          pqMaxQueueBytes = hMaxQueueBytes h, pqMaxMessageBytes = hMaxMessageBytes h, pqSizeBytes = 0,
          pqLowExpires = 0, pqMediumExpires = 0, pqHighExpires = 0, pqCriticalExpires = 0\<rparr>)"

text \<open>
  The state of the goroutine: the queue, the delivery that \<open>ready\<close> and \<open>failedMsg\<close> belong to (none
  when they are nil), the messages handed to \<open>next.HandleWrp\<close> so far, and whether it has returned.
\<close>

record service =
  sQueue :: priorityQueue
  sReady :: "message option"
  sSent :: "message list"
  sStopped :: bool

text \<open>
  One iteration of the loop takes a message from the channel, takes the \<open>ready\<close> signal of the
  current delivery (with the outcome of \<open>next.HandleWrp\<close>), or sees the channel closed. The two
  times are the clock readings of \<open>Enqueue\<close>.
\<close>

datatype svcEvent = Received message time time | Ready bool time time | Closed

definition wrpHandler :: "message \<Rightarrow> service \<Rightarrow> service" where
  "wrpHandler msg s = s\<lparr>sReady := Some msg, sSent := sSent s @ [msg]\<rparr>"

definition dispatchTop :: "service \<Rightarrow> service" where
  "dispatchTop s =
     (case Dequeue (sQueue s) of
        (None, pq) \<Rightarrow> s\<lparr>sQueue := pq\<rparr>
      | (Some m, pq) \<Rightarrow> wrpHandler m (s\<lparr>sQueue := pq\<rparr>))"

fun serviceQOS :: "(int \<Rightarrow> QOSLevel) \<Rightarrow> index_sort \<Rightarrow> svcEvent \<Rightarrow> service \<Rightarrow> service option" where
  "serviceQOS level srt (Received msg now now') s =
     (if sStopped s then None
      else Some (dispatchTop (s\<lparr>sQueue := snd (Enqueue level srt now now' msg (sQueue s))\<rparr>)))"
| "serviceQOS level srt (Ready failed now now') s =
     (if sStopped s then None
      else case sReady s of
        None \<Rightarrow> None
      | Some msg \<Rightarrow>
          (let pq = (if failed then snd (Enqueue level srt now now' msg (sQueue s)) else sQueue s)
           in Some (dispatchTop (s\<lparr>sQueue := pq, sReady := None\<rparr>))))"
| "serviceQOS level srt Closed s = (if sStopped s then None else Some (s\<lparr>sStopped := True\<rparr>))"

definition serviceQOS_init :: "priorityQueue \<Rightarrow> service" where
  "serviceQOS_init pq = \<lparr>sQueue = pq, sReady = None, sSent = [], sStopped = False\<rparr>"

inductive svc_reachable ::
  "(int \<Rightarrow> QOSLevel) \<Rightarrow> index_sort \<Rightarrow> priorityQueue \<Rightarrow> svcEvent list \<Rightarrow> service \<Rightarrow> bool"
  for level srt pq where
  start: "svc_reachable level srt pq [] (serviceQOS_init pq)"
| step: "svc_reachable level srt pq es s \<Longrightarrow> serviceQOS level srt e s = Some s' \<Longrightarrow>
         svc_reachable level srt pq (es @ [e]) s'"

inductive_cases svc_reachableE: "svc_reachable level srt pq es s"

text \<open>A run of the loop over a list of events, from a given state.\<close>

fun serviceRun :: "(int \<Rightarrow> QOSLevel) \<Rightarrow> index_sort \<Rightarrow> svcEvent list \<Rightarrow> service \<Rightarrow> service option" where
  "serviceRun level srt [] s = Some s"
| "serviceRun level srt (e # es) s =
     (case serviceQOS level srt e s of None \<Rightarrow> None | Some s' \<Rightarrow> serviceRun level srt es s')"

text \<open>The messages that enter the queue along a run, as \<open>clampMessage\<close> lets them in.\<close>

fun received :: "svcEvent list \<Rightarrow> message list" where
  "received [] = []"
| "received (Received msg _ _ # es) = msg # received es"
| "received (_ # es) = received es"

subsection \<open>Configuration facts\<close>

lemma applyJoin_append:
  "applyJoin (xs @ ys) h errs = (case applyJoin xs h errs of (h', errs') \<Rightarrow> applyJoin ys h' errs')"
  by (induction xs h errs rule: applyJoin.induct) (auto split: prod.splits option.splits)

text \<open>Once an error has been joined, the loop ends with an error.\<close>

lemma applyJoin_Some: "snd (applyJoin os h (Some e)) \<noteq> None"
proof (induction os h "Some e" arbitrary: e rule: applyJoin.induct)
  case (3 f os h)
  then show ?case
    by (cases "f h") (auto split: option.splits simp: errorsJoin_def map_filter_simps)
qed auto

lemma applyJoin_None_step:
  assumes "applyJoin (Some f # os) h None = (h', None)"
  shows "snd (f h) = None \<and> applyJoin os (fst (f h)) None = (h', None)"
proof (cases "f h")
  case (Pair h1 e1)
  show ?thesis
  proof (cases e1)
    case None
    with Pair assms show ?thesis by simp
  next
    case (Some e)
    with Pair assms have "applyJoin os h1 (Some (Joined [e])) = (h', None)"
      by (simp add: errorsJoin_def map_filter_simps)
    with applyJoin_Some[of os h1 "Joined [e]"] show ?thesis by simp
  qed
qed

lemma New_qos_validated:
  assumes "New_qos nxt opts = Inr h"
  shows "hMaxMessageBytes h \<le> hMaxQueueBytes h \<and> UnknownType < hPriority h \<and> hPriority h < lastType
         \<and> hTieBreaker h \<noteq> None"
proof -
  obtain nx where nx: "nxt = Some nx" using assms by (auto simp: New_qos_def split: option.splits)
  let ?vs = "[Some validateQueueConstraints, Some validatePriority, Some validateTieBreaker]"
  obtain h0 where run: "applyJoin (opts @ ?vs) h0 None = (h, None)"
    using assms nx by (auto simp: New_qos_def Let_def split: prod.splits option.splits)
  obtain h1 e1 where "applyJoin opts h0 None = (h1, e1)" by fastforce
  with run have vs: "applyJoin ?vs h1 e1 = (h, None)" by (simp add: applyJoin_append)
  have e1: "e1 = None"
  proof (cases e1)
    case (Some e)
    with vs have "snd (applyJoin ?vs h1 (Some e)) = None" by (simp only: snd_conv)
    then show ?thesis using applyJoin_Some by blast
  qed
  from applyJoin_None_step[OF vs[unfolded e1]] have
    a: "snd (validateQueueConstraints h1) = None" and
    b: "applyJoin [Some validatePriority, Some validateTieBreaker] h1 None = (h, None)"
    by (auto simp: validateQueueConstraints_def)
  from applyJoin_None_step[OF b] have
    c: "snd (validatePriority h1) = None" and d: "applyJoin [Some validateTieBreaker] h1 None = (h, None)"
    by (auto simp: validatePriority_def)
  from applyJoin_None_step[OF d] have e: "snd (validateTieBreaker h1) = None" and "h = h1"
    by (auto simp: validateTieBreaker_def split: if_splits)
  have "hTieBreaker h1 \<noteq> None" using e by (simp add: validateTieBreaker_def split: if_splits)
  with a c \<open>h = h1\<close> show ?thesis
    by (simp add: validateQueueConstraints_def validatePriority_def split: if_splits)
qed

subsection \<open>The queue as the service sees it\<close>

text \<open>
  The service relies on three laws of its queue: enqueueing adds the message, dequeueing an empty
  queue changes nothing, and dequeueing a non-empty queue takes one message out. A message is
  known by its envelope, since a payload may be cut on the way.
\<close>

locale message_queue =
  fixes enq :: "'m \<Rightarrow> 'q \<Rightarrow> 'q" and deq :: "'q \<Rightarrow> 'm option \<times> 'q"
    and inv :: "'q \<Rightarrow> bool" and key :: "'m \<Rightarrow> 'k" and content :: "'q \<Rightarrow> 'k multiset"
  assumes inv_enq: "inv q \<Longrightarrow> inv (enq m q)"
    and content_enq: "inv q \<Longrightarrow> content (enq m q) = add_mset (key m) (content q)"
    and deq_empty: "inv q \<Longrightarrow> content q = {#} \<Longrightarrow> deq q = (None, q)"
    and deq_content: "inv q \<Longrightarrow> content q \<noteq> {#} \<Longrightarrow>
       \<exists>m q'. deq q = (Some m, q') \<and> content q = add_mset (key m) (content q') \<and> inv q'"
begin

lemma enq_then_deq:
  assumes "inv q" and "content q = {#}"
  shows "\<exists>m' q'. deq (enq m q) = (Some m', q') \<and> key m' = key m \<and> content q' = {#} \<and> inv q'"
proof -
  have c: "content (enq m q) = {# key m #}" using assms by (simp add: content_enq)
  then obtain m' q' where "deq (enq m q) = (Some m', q')"
    "content (enq m q) = add_mset (key m') (content q')" "inv q'"
    using deq_content[OF inv_enq[OF assms(1)], of m] by auto
  with c show ?thesis by (auto simp: add_mset_eq_single)
qed

end

definition queueContent :: "priorityQueue \<Rightarrow> message multiset" where
  "queueContent pq = image_mset (envelope \<circ> iMsg) (mset (pqQueue pq))"

lemma queueContent_empty [simp]: "queueContent pq = {#} \<longleftrightarrow> pqQueue pq = []"
  by (simp add: queueContent_def)

lemma Enqueue_message_queue:
  assumes "sort_func srt"
  shows "message_queue (\<lambda>m pq. snd (Enqueue level srt now now' m pq)) Dequeue pq_inv envelope queueContent"
proof
  fix pq m assume inv: "pq_inv pq"
  show "pq_inv (snd (Enqueue level srt now now' m pq))" using assms inv by (rule Enqueue_pq_inv)
  let ?pq = "heapPush level now (fst (clampMessage pq m)) pq"
  have "disposed (pqQueue ?pq) (pqQueue (trim srt now' ?pq))"
    using trim_disposed[OF assms] heapPush_pq_inv[OF inv] by (simp add: pq_inv_def)
  from disposed_envelope[OF this] have "queueContent (trim srt now' ?pq) = queueContent ?pq"
    unfolding queueContent_def by (metis mset_map)
  then show "queueContent (snd (Enqueue level srt now now' m pq)) = add_mset (envelope m) (queueContent pq)"
    by (simp add: Enqueue_snd queueContent_def heapPush_mset newItem_def)
next
  fix pq assume "pq_inv pq" "queueContent pq = {#}"
  then show "Dequeue pq = (None, pq)" by (simp add: Dequeue_def)
next
  fix pq assume "pq_inv pq" "queueContent pq \<noteq> {#}"
  then have "pqQueue pq \<noteq> []" by simp
  from Dequeue_spec[OF \<open>pq_inv pq\<close> this] obtain itm pq' where "Dequeue pq = (Some (iMsg itm), pq')"
    "mset (pqQueue pq) = add_mset itm (mset (pqQueue pq'))" "pq_inv pq'" by metis
  then show "\<exists>m q'. Dequeue pq = (Some m, q') \<and> queueContent pq = add_mset (envelope m) (queueContent q') \<and> pq_inv q'"
    by (auto simp: queueContent_def)
qed

interpretation qosq: message_queue "\<lambda>m pq. snd (Enqueue level insertion_sort now now' m pq)"
    Dequeue pq_inv envelope queueContent for level now now'
  by (rule Enqueue_message_queue) (rule isort.sort_func_axioms)

subsection \<open>The service loop\<close>

definition svc_idle :: "service \<Rightarrow> bool" where
  "svc_idle s \<longleftrightarrow> pq_inv (sQueue s) \<and> pqQueue (sQueue s) = []"

lemma dispatch_enqueued:
  assumes "sort_func srt" and "svc_idle s"
  shows "\<exists>m' pq. dispatchTop (s\<lparr>sQueue := snd (Enqueue level srt now now' m (sQueue s)), sReady := r\<rparr>) =
              s\<lparr>sQueue := pq, sReady := Some m', sSent := sSent s @ [m']\<rparr>
            \<and> envelope m' = envelope m \<and> pqQueue pq = [] \<and> pq_inv pq"
proof -
  from message_queue.enq_then_deq[OF Enqueue_message_queue[OF assms(1)], of "sQueue s" level now now' m]
  obtain m' pq where "Dequeue (snd (Enqueue level srt now now' m (sQueue s))) = (Some m', pq)"
    "envelope m' = envelope m" "pqQueue pq = []" "pq_inv pq"
    using assms(2) by (auto simp: svc_idle_def)
  then show ?thesis by (auto simp: dispatchTop_def wrpHandler_def)
qed

lemma dispatch_idle: "svc_idle s \<Longrightarrow> dispatchTop s = s"
  by (simp add: dispatchTop_def svc_idle_def Dequeue_def)

text \<open>What one iteration does to an idle queue, by event.\<close>

lemma serviceQOS_Received:
  assumes "sort_func srt" "svc_idle s" "serviceQOS level srt (Received m now now') s = Some s'"
  shows "\<exists>m' pq. s' = s\<lparr>sQueue := pq, sReady := Some m', sSent := sSent s @ [m']\<rparr>
           \<and> envelope m' = envelope m \<and> svc_idle s'"
proof -
  from dispatch_enqueued[OF assms(1,2), where level = level and now = now and now' = now' and m = m
      and r = "sReady s"]
  obtain m' pq where d: "dispatchTop (s\<lparr>sQueue := snd (Enqueue level srt now now' m (sQueue s))\<rparr>) =
      s\<lparr>sQueue := pq, sReady := Some m', sSent := sSent s @ [m']\<rparr>"
    and e: "envelope m' = envelope m" "pqQueue pq = []" "pq_inv pq" by auto
  have "s' = s\<lparr>sQueue := pq, sReady := Some m', sSent := sSent s @ [m']\<rparr>"
    using assms(3) d by (simp split: if_splits)
  with e show ?thesis by (auto simp: svc_idle_def)
qed

lemma serviceQOS_Ready_failed:
  assumes "sort_func srt" "svc_idle s" "serviceQOS level srt (Ready True now now') s = Some s'"
  shows "\<exists>m m' pq. sReady s = Some m \<and> s' = s\<lparr>sQueue := pq, sReady := Some m', sSent := sSent s @ [m']\<rparr>
           \<and> envelope m' = envelope m \<and> svc_idle s'"
proof -
  obtain m where m: "sReady s = Some m" using assms(3) by (auto split: if_splits option.splits)
  from dispatch_enqueued[OF assms(1,2), where level = level and now = now and now' = now' and m = m
      and r = None]
  obtain m' pq where d: "dispatchTop (s\<lparr>sQueue := snd (Enqueue level srt now now' m (sQueue s)), sReady := None\<rparr>) =
      s\<lparr>sQueue := pq, sReady := Some m', sSent := sSent s @ [m']\<rparr>"
    and e: "envelope m' = envelope m" "pqQueue pq = []" "pq_inv pq" by blast
  have "s' = s\<lparr>sQueue := pq, sReady := Some m', sSent := sSent s @ [m']\<rparr>"
    using assms(3) m d by (simp add: Let_def split: if_splits)
  with m e show ?thesis by (auto simp: svc_idle_def)
qed

lemma serviceQOS_Ready_ok:
  assumes "svc_idle s" "serviceQOS level srt (Ready False now now') s = Some s'"
  shows "s' = s\<lparr>sReady := None\<rparr> \<and> svc_idle s'"
proof -
  have "svc_idle (s\<lparr>sReady := None\<rparr>)" using assms(1) by (simp add: svc_idle_def)
  with assms show ?thesis by (auto simp: dispatch_idle Let_def split: if_splits option.splits)
qed

lemma svc_reachable_idle:
  assumes "svc_reachable level srt pq es s" and "sort_func srt" and "pq_inv pq" and "pqQueue pq = []"
  shows "svc_idle s"
  using assms(1)
proof (induction rule: svc_reachable.induct)
  case start
  then show ?case using assms by (simp add: svc_idle_def serviceQOS_init_def)
next
  case (step es s e s')
  show ?case
  proof (cases e)
    case (Received m now now')
    with step serviceQOS_Received[OF assms(2)] show ?thesis by blast
  next
    case (Ready failed now now')
    show ?thesis
    proof (cases failed)
      case True
      with Ready step serviceQOS_Ready_failed[OF assms(2), of s level now now' s'] show ?thesis by auto
    next
      case False
      with Ready step serviceQOS_Ready_ok[of s level srt now now' s'] show ?thesis by auto
    qed
  next
    case Closed
    with step show ?thesis by (auto simp: svc_idle_def split: if_splits)
  qed
qed

lemma serviceQOS_pq_idle:
  assumes "serviceQOS_pq h = Some pq"
    and "hTieBreaker h = Some PriorityNewestMsg \<or> hTieBreaker h = Some PriorityOldestMsg"
  shows "pq_inv pq \<and> pqQueue pq = []"
  using assms by (auto simp: serviceQOS_pq_def pq_inv_def stubbed_def is_heap_def)

fun isReceived :: "svcEvent \<Rightarrow> bool" where
  "isReceived (Received _ _ _) = True"
| "isReceived _ = False"

fun isFailed :: "svcEvent \<Rightarrow> bool" where
  "isFailed (Ready failed _ _) = failed"
| "isFailed _ = False"

lemma svcEvent_cases:
  obtains (R) m now now' where "e = Received m now now'" | (F) now now' where "e = Ready True now now'"
    | (K) now now' where "e = Ready False now now'" | (C) "e = Closed"
proof (cases e)
  case (Ready failed now now')
  then show ?thesis using that(2,3) by (cases failed) auto
qed (use that in auto)

lemma received_append [simp]: "received (es @ es') = received es @ received es'"
  by (induction es rule: received.induct) auto

lemma received_in_sent:
  assumes "svc_reachable level srt pq es s" and "sort_func srt" and "pq_inv pq" and "pqQueue pq = []"
  shows "map envelope (received es) = map envelope (sSent s) \<or> list_ex isFailed es"
    and "envelope ` set (received es) = envelope ` set (sSent s)
         \<and> (\<forall>m. sReady s = Some m \<longrightarrow> m \<in> set (sSent s))"
  using assms(1)
proof (induction rule: svc_reachable.induct)
  case start
  {
    case 1
    then show ?case by (simp add: serviceQOS_init_def)
  next
    case 2
    then show ?case by (simp add: serviceQOS_init_def)
  }
next
  case (step es s e s')
  have idle: "svc_idle s" using svc_reachable_idle[OF step(1) assms(2-4)] .
  {
    case 1
    show ?case
    proof (cases e rule: svcEvent_cases)
      case R
      with serviceQOS_Received[OF assms(2) idle] step.hyps(2) step.IH(1) show ?thesis by fastforce
    next
      case K
      with serviceQOS_Ready_ok[OF idle] step.hyps(2) step.IH(1) show ?thesis by fastforce
    qed (use step in \<open>auto split: if_splits\<close>)
  next
    case 2
    show ?case
    proof (cases e rule: svcEvent_cases)
      case R
      with serviceQOS_Received[OF assms(2) idle] step.hyps(2) step.IH(2) show ?thesis by fastforce
    next
      case F
      with step.hyps(2) obtain m m' pq where "sReady s = Some m" "envelope m' = envelope m"
        "s' = s\<lparr>sQueue := pq, sReady := Some m', sSent := sSent s @ [m']\<rparr>"
        using serviceQOS_Ready_failed[OF assms(2) idle] by metis
      with F step.IH(2) show ?thesis by auto
    next
      case K
      with serviceQOS_Ready_ok[OF idle] step.hyps(2) step.IH(2) show ?thesis by fastforce
    qed (use step in \<open>auto split: if_splits\<close>)
  }
qed

text \<open>Between two arrivals the loop only ever hands over the delivery it is waiting for.\<close>

lemma serviceRun_retries:
  assumes "sort_func srt" and "svc_idle s" and "sReady s = None \<or> envelope (the (sReady s)) = e"
    and "list_all (\<lambda>ev. \<not> isReceived ev) es" and "serviceRun level srt es s = Some s'"
  shows "\<exists>ms. sSent s' = sSent s @ ms \<and> set (map envelope ms) \<subseteq> {e}"
  using assms(2-5)
proof (induction es arbitrary: s)
  case Nil
  then show ?case by simp
next
  case (Cons ev es)
  then obtain s1 where s1: "serviceQOS level srt ev s = Some s1" "serviceRun level srt es s1 = Some s'"
    by (auto split: option.splits)
  show ?case
  proof (cases ev rule: svcEvent_cases)
    case R
    with Cons.prems(3) show ?thesis by simp
  next
    case F
    with s1 obtain m m' pq where m: "sReady s = Some m" "envelope m' = envelope m"
      "s1 = s\<lparr>sQueue := pq, sReady := Some m', sSent := sSent s @ [m']\<rparr>" "svc_idle s1"
      using serviceQOS_Ready_failed[OF assms(1) Cons.prems(1)] by metis
    with Cons.IH[of s1] Cons.prems s1 obtain ms where "sSent s' = sSent s1 @ ms" "set (map envelope ms) \<subseteq> {e}"
      by auto
    with m Cons.prems(2) show ?thesis by (intro exI[of _ "m' # ms"]) auto
  next
    case K
    with s1 have "s1 = s\<lparr>sReady := None\<rparr>" "svc_idle s1"
      using serviceQOS_Ready_ok[OF Cons.prems(1)] by auto
    with Cons.IH[of s1] Cons.prems s1 show ?thesis by auto
  next
    case C
    with s1 have "sSent s1 = sSent s" "svc_idle s1" "sReady s1 = sReady s"
      using Cons.prems(1) by (auto simp: svc_idle_def split: if_splits)
    with Cons.IH[of s1] Cons.prems s1 show ?thesis by auto
  qed
qed

subsection \<open>Examples\<close>

definition exampleOpts :: "message list qosOption option list" where
  "exampleOpts = [Some (MaxQueueBytes 0), None, Some (MaxMessageBytes 3), Some (Priority NewestType)]"

definition exampleService :: "svcEvent list \<Rightarrow> service option" where
  "exampleService es = serviceRun (\<lambda>_. QOSLow) insertion_sort es (serviceQOS_init (emptyQueue PriorityNewestMsg 9 0))"

lemma serviceRun_reachable:
  assumes "svc_reachable level srt pq es s" and "serviceRun level srt es' s = Some s'"
  shows "svc_reachable level srt pq (es @ es') s'"
  using assms
proof (induction es' arbitrary: es s)
  case Nil
  then show ?case by simp
next
  case (Cons e es')
  then obtain s1 where "serviceQOS level srt e s = Some s1" "serviceRun level srt es' s1 = Some s'"
    by (auto split: option.splits)
  with Cons.IH[of "es @ [e]" s1] Cons.prems(1) show ?case by (simp add: svc_reachable.step)
qed

subsection \<open>Properties\<close>

text \<open>
  A handler that \<open>New\<close> returns is safe to start: its message limit is within its queue limit, its
  priority type is one of the two that order messages, its tie breaker is set, and the queue that
  \<open>serviceQOS\<close> builds from it exists; an error joined by any option or validator makes \<open>New\<close> fail.
\<close>

theorem New_qos_safe:
  assumes "New_qos nxt opts = Inr h"
  shows "hMaxMessageBytes h \<le> hMaxQueueBytes h \<and> UnknownType < hPriority h \<and> hPriority h < lastType
         \<and> (\<exists>pq. serviceQOS_pq h = Some pq \<and> pqMaxQueueBytes pq = hMaxQueueBytes h
               \<and> pqMaxMessageBytes pq = hMaxMessageBytes h)"
  using New_qos_validated[OF assms] by (auto simp: serviceQOS_pq_def)

theorem New_qos_safe_witness:
  "\<exists>h. New_qos (Some (record_handler None)) exampleOpts = Inr h \<and> hMaxMessageBytes h \<le> hMaxQueueBytes h"
proof -
  obtain h where h: "New_qos (Some (record_handler None)) exampleOpts = Inr h"
    by (simp add: New_qos_def exampleOpts_def MaxQueueBytes_def MaxMessageBytes_def Priority_def priority_def
        priority_defs validateQueueConstraints_def validatePriority_def validateTieBreaker_def
        DefaultMaxQueueBytes_def Let_def)
  from New_qos_safe[OF this] h show ?thesis by blast
qed

text \<open>
  C11: In every state the service loop can reach, every message it received has been handed to the
  next handler and nothing else has; a message is never dropped silently, its payload apart.
\<close>

theorem service_hands_over_every_message:
  assumes "svc_reachable level srt pq es s" and "sort_func srt" and "pq_inv pq" and "pqQueue pq = []"
  shows "envelope ` set (received es) = envelope ` set (sSent s)"
  using received_in_sent(2)[OF assms] by blast

theorem service_hands_over_every_message_witness:
  "\<exists>s. exampleService [Received empty_message 1 2, Ready True 3 4] = Some s
     \<and> envelope ` set (received [Received empty_message 1 2, Ready True 3 4]) = envelope ` set (sSent s)"
proof -
  let ?es = "[Received empty_message 1 2, Ready True 3 4]" and ?pq = "emptyQueue PriorityNewestMsg 9 0"
  obtain s where s: "exampleService ?es = Some s"
    by (simp add: exampleService_def serviceQOS_init_def dispatchTop_def wrpHandler_def Enqueue_def
        clampMessage_def trim_def heapPush_def Push_def newItem_def Dequeue_def heapPop_def Pop_def
        emptyQueue_def qosExpires_def heap_up.simps heap_pop_def heap_down.simps swap_def empty_message_def Let_def)
  then have "svc_reachable (\<lambda>_. QOSLow) insertion_sort ?pq ([] @ ?es) s"
    unfolding exampleService_def by (rule serviceRun_reachable[OF svc_reachable.start])
  from service_hands_over_every_message[OF this isort.sort_func_axioms] s show ?thesis
    using pq_inv_emptyQueue[of PriorityNewestMsg 9 0] by (auto simp: emptyQueue_def)
qed



text \<open>
  A message that arrives while a delivery is in flight supersedes it: until the next arrival
  only the newcomer is handed over again, so a failure of the superseded delivery is never retried.
\<close>

theorem superseded_delivery_not_retried:
  assumes "sort_func srt" and "svc_idle s" and "sReady s = Some m1"
    and "serviceQOS level srt (Received m2 now now') s = Some s1"
    and "list_all (\<lambda>ev. \<not> isReceived ev) es" and "serviceRun level srt es s1 = Some s2"
  shows "\<exists>ms. sSent s2 = sSent s @ ms \<and> set (map envelope ms) = {envelope m2}"
proof -
  from serviceQOS_Received[OF assms(1,2,4)] obtain m' pq where
    s1: "s1 = s\<lparr>sQueue := pq, sReady := Some m', sSent := sSent s @ [m']\<rparr>" "envelope m' = envelope m2" "svc_idle s1"
    by blast
  then obtain ms where "sSent s2 = sSent s1 @ ms" "set (map envelope ms) \<subseteq> {envelope m2}"
    using serviceRun_retries[OF assms(1) s1(3) _ assms(5,6)] by auto
  with s1 show ?thesis by (intro exI[of _ "m' # ms"]) auto
qed

theorem superseded_delivery_not_retried_witness:
  "\<exists>s1 s2 ms.
     serviceQOS (\<lambda>_. QOSLow) insertion_sort (Received (empty_message\<lparr>mSource := ''b''\<rparr>) 5 6)
       (wrpHandler (empty_message\<lparr>mSource := ''a''\<rparr>) (serviceQOS_init (emptyQueue PriorityNewestMsg 9 0))) = Some s1
     \<and> serviceRun (\<lambda>_. QOSLow) insertion_sort [Closed] s1 = Some s2
     \<and> sSent s2 = [empty_message\<lparr>mSource := ''a''\<rparr>] @ ms \<and> set (map envelope ms) = {envelope (empty_message\<lparr>mSource := ''b''\<rparr>)}"
proof -
  let ?a = "empty_message\<lparr>mSource := ''a''\<rparr>" and ?b = "empty_message\<lparr>mSource := ''b''\<rparr>"
  let ?s = "wrpHandler ?a (serviceQOS_init (emptyQueue PriorityNewestMsg 9 0))"
  have idle: "svc_idle ?s"
    using pq_inv_emptyQueue[of PriorityNewestMsg 9 0]
    by (simp add: svc_idle_def wrpHandler_def serviceQOS_init_def emptyQueue_def)
  obtain s1 where s1: "serviceQOS (\<lambda>_. QOSLow) insertion_sort (Received ?b 5 6) ?s = Some s1"
    by (simp add: wrpHandler_def serviceQOS_init_def)
  obtain s2 where s2: "serviceRun (\<lambda>_. QOSLow) insertion_sort [Closed] s1 = Some s2"
    using serviceQOS_Received[OF isort.sort_func_axioms idle s1] by (auto simp: wrpHandler_def serviceQOS_init_def)
  have r: "sReady ?s = Some ?a" "sSent ?s = [?a]" by (simp_all add: wrpHandler_def serviceQOS_init_def)
  from superseded_delivery_not_retried[OF isort.sort_func_axioms idle r(1) s1 _ s2] r(2) s1 s2
  show ?thesis by auto
qed

text \<open>
  Once \<open>Stop\<close> has run, \<open>HandleWrp\<close> answers \<open>ErrQOSHasShutdown\<close> and sends nothing; a second \<open>Stop\<close>
  closes nothing; and \<open>Start\<close> makes a channel exactly when none is open, after which \<open>HandleWrp\<close> sends on it.
\<close>

theorem qos_lifecycle:
  "HandleWrp_qos msg (fst (Stop_qos h)) = (Some ErrQOSHasShutdown, None)
   \<and> snd (Stop_qos (fst (Stop_qos h))) = None
   \<and> (snd (Start_qos ch h) = (if hQueue h = None then Some ch else None))
   \<and> HandleWrp_qos msg (fst (Start_qos ch h)) =
       (None, Some ((case hQueue h of None \<Rightarrow> ch | Some c \<Rightarrow> c), msg))"
  by (auto simp: HandleWrp_qos_def Stop_qos_def Start_qos_def split: option.splits)

end
