(* ===== verification/Handlers.thy ===== *)
theory Handlers
  imports Wrp
begin

text \<open>
  The stateless WRP handlers of the agent: \<open>internal/wrphandlers/auth\<close>, \<open>missing\<close>, \<open>logging\<close> and
  \<open>xmidt_agent_crud\<close>, and the log level service of \<open>internal/loglevel\<close> that the last one drives.
  \<open>MessageType.RequiresTransaction\<close> and \<open>MessageType.String\<close> (wrp-go), the zap logger and level, the JSON decoder,
  \<open>time.ParseDuration\<close> and the text of a foreign error are arguments. The locale \<open>responder\<close> states the
  contract that the answering handlers share.
\<close>

subsection \<open>auth\<close>

definition ErrInvalidInput_auth :: gerr where "ErrInvalidInput_auth = Sentinel ''auth.ErrInvalidInput''"
definition ErrUnauthorized :: gerr where "ErrUnauthorized = Sentinel ''auth.ErrUnauthorized''"

definition statusCode_auth :: int where "statusCode_auth = 403"
definition wildcard :: string where "wildcard = ''*''"

record 's authHandler =
  aNext :: "'s handler"
  aEgress :: "'s handler"
  aSource :: string
  aPartners :: "string list"

definition New_auth ::
  "'s handler option \<Rightarrow> 's handler option \<Rightarrow> string \<Rightarrow> string list \<Rightarrow> gerr + 's authHandler" where
  "New_auth nxt egress source partners =
     (let ps = filter (\<lambda>p. p \<noteq> []) (map TrimSpace partners) in
      case (nxt, egress) of
        (Some n, Some e) \<Rightarrow>
          if source = [] \<or> ps = [] then Inl ErrInvalidInput_auth
          else Inr \<lparr>aNext = n, aEgress = e, aSource = source, aPartners = ps\<rparr>
      | _ \<Rightarrow> Inl ErrInvalidInput_auth)"

text \<open>The two nested loops of \<open>HandleWrp\<close> that look for a match.\<close>

definition partnerMatch :: "string list \<Rightarrow> string list \<Rightarrow> bool" where
  "partnerMatch partners ids =
     list_ex (\<lambda>allowed. list_ex (\<lambda>got. allowed = TrimSpace got \<or> allowed = wildcard) ids) partners"

definition authPayload :: "string list \<Rightarrow> string list \<Rightarrow> bytes" where
  "authPayload got want =
     (let sep = [CHR 0x27, CHR 0x2C, CHR 0x27] in
      bytes_of (''{statusCode: '' @ show_int statusCode_auth @ '', message:'' @ [CHR 0x22] @ ''Partner(s) ''
        @ [CHR 0x27] @ Join got sep @ [CHR 0x27] @ '' not allowed.  Allowed: '' @ [CHR 0x27] @ Join want sep
        @ [CHR 0x27, CHR 0x22] @ ''}''))"

definition HandleWrp_auth :: "(MessageType \<Rightarrow> bool) \<Rightarrow> 's authHandler \<Rightarrow> 's handler" where
  "HandleWrp_auth reqTx h msg s =
     (if partnerMatch (aPartners h) (mPartnerIDs msg) then aNext h msg s
      else if \<not> reqTx (mType msg) then (Some ErrUnauthorized, s)
      else (case aEgress h (reply (aSource h) statusCode_auth (authPayload (mPartnerIDs msg) (aPartners h)) msg) s of
              (sendErr, s') \<Rightarrow> (errorsJoin [Some ErrUnauthorized, sendErr], s')))"

subsection \<open>missing\<close>

definition ErrInvalidInput_missing :: gerr where
  "ErrInvalidInput_missing = Sentinel ''missing.ErrInvalidInput''"

definition statusCode_missing :: int where "statusCode_missing = 531"

record 's missingHandler =
  msNext :: "'s handler"
  msEgress :: "'s handler"
  msSource :: string

definition New_missing ::
  "'s handler option \<Rightarrow> 's handler option \<Rightarrow> string \<Rightarrow> gerr + 's missingHandler" where
  "New_missing nxt egress source =
     (case (nxt, egress) of
        (Some n, Some e) \<Rightarrow>
          if source = [] then Inl ErrInvalidInput_missing
          else Inr \<lparr>msNext = n, msEgress = e, msSource = source\<rparr>
      | _ \<Rightarrow> Inl ErrInvalidInput_missing)"

definition missingPayload :: bytes where
  "missingPayload = bytes_of (''{statusCode: '' @ show_int statusCode_missing @ ''}'')"

definition HandleWrp_missing :: "(MessageType \<Rightarrow> bool) \<Rightarrow> 's missingHandler \<Rightarrow> 's handler" where
  "HandleWrp_missing reqTx h msg s =
     (case msNext h msg s of
        (None, s') \<Rightarrow> (None, s')
      | (Some e, s') \<Rightarrow>
          if \<not> reqTx (mType msg) then (Some e, s')
          else if \<not> notHandled (Some e) then (Some e, s')
          else (case msEgress h (reply (msSource h) statusCode_missing missingPayload msg) s' of
                  (sendErr, s'') \<Rightarrow> (errorsJoin [None, sendErr], s'')))"

subsection \<open>logging\<close>

definition ErrInvalidInput_logging :: gerr where
  "ErrInvalidInput_logging = Sentinel ''logging.ErrInvalidInput''"

datatype logField = FString string string | FStrings string "string list" | FInt string int

type_synonym 's logger = "int \<Rightarrow> string \<Rightarrow> logField list \<Rightarrow> 's \<Rightarrow> 's"

text \<open>A zap level is a small integer; \<open>DebugLevel\<close> is \<open>-1\<close>.\<close>

definition DebugLevel :: int where "DebugLevel = -1"

record 's loggingHandler =
  lNext :: "'s handler"
  lLogger :: "'s logger"
  lLevel :: int

definition New_logging ::
  "'s handler option \<Rightarrow> 's logger option \<Rightarrow> int list \<Rightarrow> gerr + 's loggingHandler" where
  "New_logging nxt lg level =
     (case (nxt, lg) of
        (Some n, Some l) \<Rightarrow> Inr \<lparr>lNext = n, lLogger = l, lLevel = hd (level @ [DebugLevel])\<rparr>
      | _ \<Rightarrow> Inl ErrInvalidInput_logging)"

definition logFields :: "(MessageType \<Rightarrow> string) \<Rightarrow> message \<Rightarrow> logField list" where
  "logFields typeString msg =
     [FString ''type'' (typeString (mType msg)), FString ''source'' (mSource msg),
      FString ''dest'' (mDestination msg), FStrings ''partnerids'' (mPartnerIDs msg),
      FInt ''payload_size'' (int (length (mPayload msg)))]
     @ (if mTransactionUUID msg \<noteq> [] then [FString ''transaction_uuid'' (mTransactionUUID msg)] else [])"

definition HandleWrp_logging :: "(MessageType \<Rightarrow> string) \<Rightarrow> 's loggingHandler \<Rightarrow> 's handler" where
  "HandleWrp_logging typeString h msg s =
     lNext h msg (lLogger h (lLevel h) ''Handling message'' (logFields typeString msg) s)"

subsection \<open>loglevel\<close>

text \<open>
  The service shares one atomic level; each change starts a timer whose goroutine puts the
  original level back. The pending timers are kept as the list of their durations, and \<open>timerFires\<close>
  is the body of one such goroutine.
\<close>

record 'l logLevelService =
  llLevel :: 'l
  llOrig :: string
  llTimers :: "duration list"

definition New_loglevel :: "('l \<Rightarrow> gerr + string) \<Rightarrow> 'l \<Rightarrow> gerr + 'l logLevelService" where
  "New_loglevel marshal level =
     (case marshal level of
        Inl e \<Rightarrow> Inl e
      | Inr orig \<Rightarrow> Inr \<lparr>llLevel = level, llOrig = orig, llTimers = []\<rparr>)"

definition SetLevel ::
  "(string \<Rightarrow> gerr + 'l) \<Rightarrow> string \<Rightarrow> duration \<Rightarrow> 'l logLevelService \<Rightarrow> gerr option \<times> 'l logLevelService" where
  "SetLevel unmarshal level d l =
     (case unmarshal (ToLower level) of
        Inl e \<Rightarrow> (Some e, l)
      | Inr lv \<Rightarrow> (None, l\<lparr>llLevel := lv, llTimers := llTimers l @ [d]\<rparr>))"

definition timerFires :: "(string \<Rightarrow> gerr + 'l) \<Rightarrow> nat \<Rightarrow> 'l logLevelService \<Rightarrow> 'l logLevelService option" where
  "timerFires unmarshal i l =
     (if i < length (llTimers l)
      then let l' = l\<lparr>llTimers := take i (llTimers l) @ drop (Suc i) (llTimers l)\<rparr>
           in Some (case unmarshal (llOrig l) of Inl _ \<Rightarrow> l' | Inr lv \<Rightarrow> l'\<lparr>llLevel := lv\<rparr>)
      else None)"

subsection \<open>\<open>xmidt_agent_crud\<close>\<close>

definition DefaultLogLevelChangeDuration :: duration where
  "DefaultLogLevelChangeDuration = 30 * Minute"

record 's crudHandler =
  cEgress :: "'s handler"
  cSource :: string
  cSetLevel :: "string \<Rightarrow> duration \<Rightarrow> 's \<Rightarrow> gerr option \<times> 's"

definition New_crud ::
  "'s handler \<Rightarrow> string \<Rightarrow> (string \<Rightarrow> duration \<Rightarrow> 's \<Rightarrow> gerr option \<times> 's) \<Rightarrow> 's crudHandler" where
  "New_crud egress source logLevel = \<lparr>cEgress = egress, cSource = source, cSetLevel = logLevel\<rparr>"

text \<open>Reading an absent key of a Go map gives the zero value.\<close>

definition lookup0 :: "(string \<rightharpoonup> string) \<Rightarrow> string \<Rightarrow> string" where
  "lookup0 m k = (case m k of None \<Rightarrow> [] | Some v \<Rightarrow> v)"

definition changeLogLevel ::
  "(string \<Rightarrow> gerr + duration) \<Rightarrow> 's crudHandler \<Rightarrow> (string \<rightharpoonup> string) \<Rightarrow> 's \<Rightarrow> gerr option \<times> 's" where
  "changeLogLevel parseDuration h payload s =
     (let d = (case parseDuration (lookup0 payload ''duration'') of
                 Inl _ \<Rightarrow> DefaultLogLevelChangeDuration | Inr d \<Rightarrow> d)
      in cSetLevel h (lookup0 payload ''loglevel'') d s)"

definition update_crud ::
  "(string \<Rightarrow> gerr + duration) \<Rightarrow> 's crudHandler \<Rightarrow> string \<Rightarrow> (string \<rightharpoonup> string) \<Rightarrow> 's
   \<Rightarrow> (int \<times> gerr option) \<times> 's" where
  "update_crud parseDuration h path payload s =
     (if path = ''loglevel''
      then (case changeLogLevel parseDuration h payload s of
              (Some e, s') \<Rightarrow> ((400, Some e), s')
            | (None, s') \<Rightarrow> ((200, None), s'))
      else ((400, None), s))"

definition crudPayload :: "int \<Rightarrow> string \<Rightarrow> bytes" where
  "crudPayload code text =
     bytes_of (''{statusCode: '' @ show_int code @ '', message: '' @ [CHR 0x22] @ text @ [CHR 0x22] @ ''}'')"

definition HandleWrp_crud ::
  "(bytes \<Rightarrow> gerr + (string \<rightharpoonup> string)) \<Rightarrow> (string \<Rightarrow> gerr + duration) \<Rightarrow> (gerr \<Rightarrow> string)
   \<Rightarrow> 's crudHandler \<Rightarrow> 's handler" where
  "HandleWrp_crud unmarshal parseDuration errText h msg s =
     (case unmarshal (mPayload msg) of
        Inl e \<Rightarrow> cEgress h (reply (cSource h) 500 (crudPayload 500 (errText e)) msg) s
      | Inr payload \<Rightarrow>
          (case (if mType msg = UpdateMessageType
                 then (case update_crud parseDuration h (mPath msg) payload s of
                         ((code, err), s') \<Rightarrow>
                           (code, crudPayload code (case err of None \<Rightarrow> [] | Some e \<Rightarrow> errText e), s'))
                 else (400, crudPayload 400 [], s)) of
             (code, response, s') \<Rightarrow> cEgress h (reply (cSource h) code response msg) s'))"

subsection \<open>The answering contract\<close>

text \<open>
  A handler with an egress either leaves the egress alone or, after its own work on the state,
  sends exactly one message through it, a reply to the request from the configured source.
\<close>

locale responder =
  fixes hw :: "'s handler \<Rightarrow> 's handler" and source :: string
    and work :: "message \<Rightarrow> 's \<Rightarrow> 's" and answers :: "message \<Rightarrow> 's \<Rightarrow> bool"
  assumes answered: "answers msg s \<Longrightarrow>
      \<exists>code payload. \<forall>egress. snd (hw egress msg s) = snd (egress (reply source code payload msg) (work msg s))"
    and silent: "\<not> answers msg s \<Longrightarrow> hw egress msg s = hw egress' msg s"
begin

text \<open>
  Seen through an outbox that the egress appends to and that the handler's own work leaves
  alone, an answered request adds one reply.
\<close>

lemma one_reply:
  assumes "answers msg s" and egress: "\<And>m t. outbox (snd (egress m t)) = outbox t @ [m]"
    and quiet: "outbox (work msg s) = outbox s"
  shows "\<exists>r. is_reply source msg r \<and> outbox (snd (hw egress msg s)) = outbox s @ [r]"
  using answered[OF assms(1)] egress quiet by fastforce

end

definition authAnswers :: "(MessageType \<Rightarrow> bool) \<Rightarrow> 's authHandler \<Rightarrow> message \<Rightarrow> 's \<Rightarrow> bool" where
  "authAnswers reqTx h msg s \<longleftrightarrow> \<not> partnerMatch (aPartners h) (mPartnerIDs msg) \<and> reqTx (mType msg)"

interpretation auth: responder "\<lambda>egress. HandleWrp_auth reqTx (h\<lparr>aEgress := egress\<rparr>)" "aSource h"
    "\<lambda>msg s. s" "authAnswers reqTx h" for reqTx h
proof
  fix msg s assume "authAnswers reqTx h msg s"
  then have "snd (HandleWrp_auth reqTx (h\<lparr>aEgress := egress\<rparr>) msg s) =
      snd (egress (reply (aSource h) statusCode_auth (authPayload (mPartnerIDs msg) (aPartners h)) msg) s)" for egress
    by (simp add: HandleWrp_auth_def authAnswers_def split: prod.splits)
  then show "\<exists>code payload. \<forall>egress. snd (HandleWrp_auth reqTx (h\<lparr>aEgress := egress\<rparr>) msg s) =
      snd (egress (reply (aSource h) code payload msg) s)" by blast
qed (auto simp: HandleWrp_auth_def authAnswers_def)

definition missingAnswers :: "(MessageType \<Rightarrow> bool) \<Rightarrow> 's missingHandler \<Rightarrow> message \<Rightarrow> 's \<Rightarrow> bool" where
  "missingAnswers reqTx h msg s \<longleftrightarrow> reqTx (mType msg) \<and> notHandled (fst (msNext h msg s))"

interpretation missing: responder "\<lambda>egress. HandleWrp_missing reqTx (h\<lparr>msEgress := egress\<rparr>)" "msSource h"
    "\<lambda>msg s. snd (msNext h msg s)" "missingAnswers reqTx h" for reqTx h
proof
  fix msg s assume "missingAnswers reqTx h msg s"
  then have "snd (HandleWrp_missing reqTx (h\<lparr>msEgress := egress\<rparr>) msg s) =
      snd (egress (reply (msSource h) statusCode_missing missingPayload msg) (snd (msNext h msg s)))" for egress
    by (auto simp: HandleWrp_missing_def missingAnswers_def split: prod.splits option.splits)
  then show "\<exists>code payload. \<forall>egress. snd (HandleWrp_missing reqTx (h\<lparr>msEgress := egress\<rparr>) msg s) =
      snd (egress (reply (msSource h) code payload msg) (snd (msNext h msg s)))" by blast
next
  fix msg s egress egress' assume "\<not> missingAnswers reqTx h msg s"
  then show "HandleWrp_missing reqTx (h\<lparr>msEgress := egress\<rparr>) msg s =
      HandleWrp_missing reqTx (h\<lparr>msEgress := egress'\<rparr>) msg s"
    by (cases "msNext h msg s") (auto simp: HandleWrp_missing_def missingAnswers_def split: option.splits)
qed

text \<open>The CRUD handler answers every request; its own work is the log level change.\<close>

definition crudWork ::
  "(bytes \<Rightarrow> gerr + (string \<rightharpoonup> string)) \<Rightarrow> (string \<Rightarrow> gerr + duration) \<Rightarrow> 's crudHandler \<Rightarrow> message \<Rightarrow> 's \<Rightarrow> 's" where
  "crudWork unmarshal parseDuration h msg s =
     (case unmarshal (mPayload msg) of
        Inl _ \<Rightarrow> s
      | Inr payload \<Rightarrow>
          if mType msg = UpdateMessageType \<and> mPath msg = ''loglevel''
          then snd (changeLogLevel parseDuration h payload s) else s)"

lemma HandleWrp_crud_replies:
  "\<exists>code payload. \<forall>egress. HandleWrp_crud um pd et (h\<lparr>cEgress := egress\<rparr>) msg s =
     egress (reply (cSource h) code payload msg) (crudWork um pd h msg s)"
proof (cases "um (mPayload msg)")
  case (Inl e)
  then show ?thesis by (auto simp: HandleWrp_crud_def crudWork_def)
next
  case (Inr payload)
  have "changeLogLevel pd (h\<lparr>cEgress := egress\<rparr>) payload s = changeLogLevel pd h payload s" for egress
    by (simp add: changeLogLevel_def)
  with Inr show ?thesis
    by (cases "changeLogLevel pd h payload s")
       (fastforce simp: HandleWrp_crud_def crudWork_def update_crud_def split: option.splits)
qed

interpretation crud: responder "\<lambda>egress. HandleWrp_crud um pd et (h\<lparr>cEgress := egress\<rparr>)" "cSource h"
    "crudWork um pd h" "\<lambda>msg s. True" for um pd et h
proof
  fix msg s
  show "\<exists>code payload. \<forall>egress. snd (HandleWrp_crud um pd et (h\<lparr>cEgress := egress\<rparr>) msg s) =
      snd (egress (reply (cSource h) code payload msg) (crudWork um pd h msg s))"
    using HandleWrp_crud_replies[of um pd et h msg s] by metis
qed simp

subsection \<open>Properties\<close>

lemma partnerMatch_iff:
  "partnerMatch partners ids \<longleftrightarrow>
     (\<exists>id\<in>set ids. TrimSpace id \<in> set partners) \<or> (wildcard \<in> set partners \<and> ids \<noteq> [])"
  by (cases ids) (auto simp: partnerMatch_def list_ex_iff)

text \<open>
  C20: A handler built by \<open>auth.New\<close> passes a message on exactly when one of its partner ids, trimmed, is
  an allowed partner, or the wildcard is allowed and the message has some partner id. Every other
  message leaves the next handler untouched and comes back as \<open>ErrUnauthorized\<close>; if its type needs
  a transaction, the egress has been given one 403 reply.
\<close>

theorem HandleWrp_auth_gate:
  assumes "New_auth (Some nxt) (Some egress) source partners = Inr h"
  shows "if (\<exists>id\<in>set (mPartnerIDs msg). TrimSpace id \<noteq> [] \<and> TrimSpace id \<in> TrimSpace ` set partners)
            \<or> (wildcard \<in> TrimSpace ` set partners \<and> mPartnerIDs msg \<noteq> [])
         then HandleWrp_auth reqTx h msg s = nxt msg s
         else errorsIs (fst (HandleWrp_auth reqTx h msg s)) ''auth.ErrUnauthorized''
            \<and> snd (HandleWrp_auth reqTx h msg s) =
                (if reqTx (mType msg)
                 then snd (egress (reply source 403 (authPayload (mPartnerIDs msg) (aPartners h)) msg) s) else s)"
proof -
  have h: "aNext h = nxt" "aEgress h = egress" "aSource h = source"
    "set (aPartners h) = TrimSpace ` set partners - {[]}"
    using assms by (auto simp: New_auth_def Let_def split: if_splits)
  have "partnerMatch (aPartners h) (mPartnerIDs msg) \<longleftrightarrow>
      (\<exists>id\<in>set (mPartnerIDs msg). TrimSpace id \<noteq> [] \<and> TrimSpace id \<in> TrimSpace ` set partners)
      \<or> (wildcard \<in> TrimSpace ` set partners \<and> mPartnerIDs msg \<noteq> [])"
    unfolding partnerMatch_iff h(4) by (auto simp: wildcard_def)
  then show ?thesis
    by (auto simp: HandleWrp_auth_def h statusCode_auth_def errorsIs_Join ErrUnauthorized_def split: prod.splits)
qed

theorem HandleWrp_auth_gate_witness:
  "\<exists>h. New_auth (Some (record_handler None)) (Some (record_handler None)) ''mac:1'' ['' comcast ''] = Inr h
     \<and> snd (HandleWrp_auth (\<lambda>_. True) h (empty_message\<lparr>mPartnerIDs := [''comcast'']\<rparr>) []) =
         [empty_message\<lparr>mPartnerIDs := [''comcast'']\<rparr>]"
proof -
  obtain h where h: "New_auth (Some (record_handler None)) (Some (record_handler None)) ''mac:1'' ['' comcast ''] = Inr h"
    by (simp add: New_auth_def TrimSpace_def is_space_def)
  show ?thesis
    using HandleWrp_auth_gate[OF h, of "empty_message\<lparr>mPartnerIDs := [''comcast'']\<rparr>" "\<lambda>_. True" "[]"] h
    by (simp add: TrimSpace_def is_space_def record_handler_def)
qed

text \<open>
  The missing-handler fallback consumes \<open>ErrNotHandled\<close> for requests that need a transaction: the
  caller sees that error only if the egress itself returns it, and one 531 reply is addressed to the requester.
  In every other case the result and the effect are those of the next handler.
\<close>

theorem HandleWrp_missing_consumes:
  "if reqTx (mType msg) \<and> notHandled (fst (msNext h msg s))
   then is_reply (msSource h) msg (reply (msSource h) 531 missingPayload msg)
      \<and> snd (HandleWrp_missing reqTx h msg s) =
          snd (msEgress h (reply (msSource h) 531 missingPayload msg) (snd (msNext h msg s)))
      \<and> (notHandled (fst (HandleWrp_missing reqTx h msg s)) \<longleftrightarrow>
          notHandled (fst (msEgress h (reply (msSource h) 531 missingPayload msg) (snd (msNext h msg s)))))
   else HandleWrp_missing reqTx h msg s = msNext h msg s"
  by (auto simp: HandleWrp_missing_def statusCode_missing_def split: prod.splits option.splits)

theorem HandleWrp_missing_consumes_witness:
  "HandleWrp_missing (\<lambda>_. True)
     \<lparr>msNext = \<lambda>m l. (Some ErrNotHandled, l), msEgress = record_handler None, msSource = ''mac:1''\<rparr>
     (empty_message\<lparr>mSource := ''dns:talaria''\<rparr>) [] =
   (None, [reply ''mac:1'' 531 missingPayload (empty_message\<lparr>mSource := ''dns:talaria''\<rparr>)])
   \<and> \<not> notHandled (fst (HandleWrp_missing (\<lambda>_. True)
     \<lparr>msNext = \<lambda>m l. (Some ErrNotHandled, l), msEgress = record_handler None, msSource = ''mac:1''\<rparr>
     (empty_message\<lparr>mSource := ''dns:talaria''\<rparr>) []))"
  using HandleWrp_missing_consumes[of "\<lambda>_. True" "empty_message\<lparr>mSource := ''dns:talaria''\<rparr>"
      "\<lparr>msNext = \<lambda>m l. (Some ErrNotHandled, l), msEgress = record_handler None, msSource = ''mac:1''\<rparr>" "[]"]
  by (simp add: HandleWrp_missing_def record_handler_def statusCode_missing_def errorsJoin_def map_filter_simps)

text \<open>
  The CRUD handler sends exactly one reply to every request, from its own source to the
  requester, through any egress that appends to an outbox the log level change leaves alone.
\<close>

theorem HandleWrp_crud_one_reply:
  assumes "\<And>m t. outbox (snd (cEgress h m t)) = outbox t @ [m]"
    and "\<And>lv d t. outbox (snd (cSetLevel h lv d t)) = outbox t"
  shows "\<exists>r. is_reply (cSource h) msg r \<and> outbox (snd (HandleWrp_crud um pd et h msg s)) = outbox s @ [r]"
proof -
  have "outbox (crudWork um pd h msg s) = outbox s"
    using assms(2) by (auto simp: crudWork_def changeLogLevel_def Let_def split: sum.splits)
  with crud.one_reply[of outbox "cEgress h" um pd h msg s et] assms(1) show ?thesis by simp
qed

theorem HandleWrp_crud_one_reply_witness:
  "\<exists>r. is_reply ''mac:1/xmidt_agent'' empty_message r \<and>
     snd (HandleWrp_crud (\<lambda>_. Inl (Plain ''eof'')) (\<lambda>_. Inr 0) (\<lambda>_. ''eof'')
       (New_crud (record_handler None) ''mac:1/xmidt_agent'' (\<lambda>_ _ l. (None, l))) empty_message []) = [r]"
  using HandleWrp_crud_one_reply[of "\<lambda>l. l" "New_crud (record_handler None) ''mac:1/xmidt_agent'' (\<lambda>_ _ l. (None, l))"
      empty_message "\<lambda>_. Inl (Plain ''eof'')" "\<lambda>_. Inr 0" "\<lambda>_. ''eof''" "[]"]
  by (simp add: New_crud_def record_handler_def)

text \<open>
  The outcome of a CRUD request. An undecodable payload is answered 500; a request that is not an update of
  \<open>loglevel\<close> is answered 400 and changes nothing; an update of \<open>loglevel\<close> sets the level for
  the given duration, 30 minutes when it does not parse, and is answered 200 exactly when that succeeds.
\<close>

theorem HandleWrp_crud_status:
  "\<exists>code payload. HandleWrp_crud um pd et h msg s = cEgress h (reply (cSource h) code payload msg) (crudWork um pd h msg s)
     \<and> (case um (mPayload msg) of
          Inl e \<Rightarrow> code = 500
        | Inr m \<Rightarrow>
            if mType msg = UpdateMessageType \<and> mPath msg = ''loglevel''
            then (let d = (case pd (lookup0 m ''duration'') of Inl _ \<Rightarrow> 1800 * Second | Inr d \<Rightarrow> d);
                      r = cSetLevel h (lookup0 m ''loglevel'') d s
                  in crudWork um pd h msg s = snd r \<and> code = (if fst r = None then 200 else 400))
            else code = 400 \<and> crudWork um pd h msg s = s)"
proof (cases "um (mPayload msg)")
  case (Inl e)
  then show ?thesis by (auto simp: HandleWrp_crud_def crudWork_def)
next
  case (Inr m)
  have d: "1800 * Second = DefaultLogLevelChangeDuration"
    by (simp add: DefaultLogLevelChangeDuration_def Minute_def)
  show ?thesis
    unfolding d
    by (cases "changeLogLevel pd h m s")
       (auto simp: HandleWrp_crud_def crudWork_def update_crud_def Inr Let_def changeLogLevel_def split: option.splits)
qed

text \<open>
  The logging handler hands the message on unchanged and returns what the next handler returns;
  its level is the first one given, debug by default.
\<close>

theorem HandleWrp_logging_transparent:
  assumes "New_logging (Some nxt) (Some lg) levels = Inr h"
  shows "HandleWrp_logging ts h msg s =
     nxt msg (lg (case levels of [] \<Rightarrow> DebugLevel | l # _ \<Rightarrow> l) ''Handling message'' (logFields ts msg) s)"
  using assms by (auto simp: New_logging_def HandleWrp_logging_def split: list.splits)

theorem HandleWrp_logging_transparent_witness:
  "\<exists>h. New_logging (Some (record_handler None)) (Some (\<lambda>_ _ _ s. s)) [] = Inr h
     \<and> HandleWrp_logging (\<lambda>_. []) h empty_message [] = (None, [empty_message])"
proof -
  obtain h where h: "New_logging (Some (record_handler None)) (Some (\<lambda>_ _ _ s. s)) [] = Inr h"
    by (simp add: New_logging_def)
  from HandleWrp_logging_transparent[OF h, of "\<lambda>_. []" empty_message "[]"] h show ?thesis
    by (auto simp: record_handler_def)
qed

text \<open>
  Log level changes and their timers. A run of the service is a list of level changes and timer
  expiries.
\<close>

fun levelRun ::
  "(string \<Rightarrow> gerr + 'l) \<Rightarrow> (string \<times> duration + nat) list \<Rightarrow> 'l logLevelService \<Rightarrow> 'l logLevelService option" where
  "levelRun um [] l = Some l"
| "levelRun um (Inl (level, d) # es) l = levelRun um es (snd (SetLevel um level d l))"
| "levelRun um (Inr i # es) l = (case timerFires um i l of None \<Rightarrow> None | Some l' \<Rightarrow> levelRun um es l')"

definition level_inv :: "(string \<Rightarrow> gerr + 'l) \<Rightarrow> 'l \<Rightarrow> 'l logLevelService \<Rightarrow> bool" where
  "level_inv um orig l \<longleftrightarrow> um (llOrig l) = Inr orig \<and> (llTimers l = [] \<longrightarrow> llLevel l = orig)"

lemma level_inv_step:
  assumes "level_inv um orig l"
  shows "level_inv um orig (snd (SetLevel um level d l))"
    and "timerFires um i l = Some l' \<Longrightarrow> level_inv um orig l'"
  using assms by (auto simp: level_inv_def SetLevel_def timerFires_def Let_def split: sum.splits if_splits)

lemma level_inv_run: "level_inv um orig l \<Longrightarrow> levelRun um es l = Some l' \<Longrightarrow> level_inv um orig l'"
  by (induction um es l rule: levelRun.induct) (auto split: option.splits dest: level_inv_step)

text \<open>
  Whatever changes are made to the log level and in whatever order their timers fire, once no timer is
  pending the level is the one the service was created with, given that the textual form of
  that level reads back.
\<close>

theorem loglevel_restored:
  assumes "New_loglevel marshal orig = Inr l" and "\<And>t. marshal orig = Inr t \<Longrightarrow> um t = Inr orig"
    and "levelRun um es l = Some l'" and "llTimers l' = []"
  shows "llLevel l' = orig"
proof -
  have "level_inv um orig l"
    using assms(1,2) by (auto simp: New_loglevel_def level_inv_def split: sum.splits)
  from level_inv_run[OF this assms(3)] assms(4) show ?thesis by (simp add: level_inv_def)
qed

theorem loglevel_restored_witness:
  "llLevel (the (levelRun (\<lambda>t. if t = ''info'' then Inr 0 else Inr (5 :: int))
      [Inl (''DEBUG'', 1), Inl (''error'', 2), Inr 1, Inr 0]
      \<lparr>llLevel = 0, llOrig = ''info'', llTimers = []\<rparr>)) = 0"
proof -
  let ?um = "\<lambda>t. if t = ''info'' then Inr 0 else Inr (5 :: int)"
  let ?l = "\<lparr>llLevel = 0, llOrig = ''info'', llTimers = []\<rparr>"
  have n: "New_loglevel (\<lambda>_. Inr ''info'') 0 = Inr ?l" by (simp add: New_loglevel_def)
  obtain l' where l': "levelRun ?um [Inl (''DEBUG'', 1), Inl (''error'', 2), Inr 1, Inr 0] ?l = Some l'" "llTimers l' = []"
    by (simp add: SetLevel_def timerFires_def ToLower_def lower_char_def)
  from loglevel_restored[OF n _ l'] l'(1) show ?thesis by simp
qed

text \<open>
  A timer restores the level however recent the last change is: a change made while an earlier timer is
  pending is undone when that earlier timer fires, before its own duration has passed.
\<close>

theorem earlier_timer_undoes_later_change:
  assumes "um (llOrig l) = Inr orig" and "fst (SetLevel um lv1 d1 l) = None"
    and "fst (SetLevel um lv2 d2 (snd (SetLevel um lv1 d1 l))) = None"
  shows "\<exists>l'. timerFires um (length (llTimers l)) (snd (SetLevel um lv2 d2 (snd (SetLevel um lv1 d1 l)))) = Some l'
           \<and> llLevel l' = orig \<and> llTimers l' = llTimers l @ [d2]"
  using assms by (auto simp: SetLevel_def timerFires_def Let_def split: sum.splits)

theorem earlier_timer_undoes_later_change_witness:
  "\<exists>l'. timerFires (\<lambda>t. Inr (length t)) 0
      (snd (SetLevel (\<lambda>t. Inr (length t)) ''error'' 9 (snd (SetLevel (\<lambda>t. Inr (length t)) ''debug'' 1
        \<lparr>llLevel = 4, llOrig = ''info'', llTimers = []\<rparr>)))) = Some l' \<and> llLevel l' = 4 \<and> llTimers l' = [9]"
  using earlier_timer_undoes_later_change[of "\<lambda>t. Inr (length t)" "\<lparr>llLevel = 4, llOrig = ''info'', llTimers = []\<rparr>" 4
      "''debug''" 1 "''error''" 9]
  by (simp add: SetLevel_def)

end
