(* ===== verification/PubSub.thy ===== *)
theory PubSub
  imports Handlers
begin

text \<open>
  \<open>internal/pubsub/pubsub.go\<close> and \<open>options.go\<close>. The listener lists come from the package \<open>eventor\<close> and
  locators and normalisation from \<open>wrp-go\<close>; both are records of operations that the definitions
  take as arguments, with the laws of \<open>eventor\<close> stated by \<open>eventorLaws\<close>. Publishing starts a goroutine per
  listener and then selects on three channels: it is a step function over the events of that
  protocol, so that every interleaving is a list of events.
\<close>

subsection \<open>The packages pubsub calls\<close>

record locator =
  locScheme :: string
  locAuthority :: string
  locID :: string
  locService :: string

record 'o wrpLib =
  ParseLocator :: "string \<Rightarrow> locator \<times> gerr option"
  SchemeEvent :: string
  NormifyWith :: "'o list \<Rightarrow> message \<Rightarrow> gerr + message"
  ValidateDestination :: 'o
  ValidateSource :: 'o
  ReplaceAnySelfLocator :: "string \<Rightarrow> 'o"
  ClampQualityOfService :: 'o

record ('e, 's) eventor =
  evNew :: 'e
  evAdd :: "'s handler \<Rightarrow> 'e \<Rightarrow> 'e \<times> nat"
  evCancel :: "nat \<Rightarrow> 'e \<Rightarrow> 'e"
  evListeners :: "'e \<Rightarrow> (nat \<times> 's handler) list"

definition eventorLaws :: "('e, 's) eventor \<Rightarrow> bool" where
  "eventorLaws ev \<longleftrightarrow>
     evListeners ev (evNew ev) = []
     \<and> (\<forall>h e. snd (evAdd ev h e) \<notin> fst ` set (evListeners ev e)
          \<and> mset (evListeners ev (fst (evAdd ev h e))) =
              add_mset (snd (evAdd ev h e), h) (mset (evListeners ev e)))
     \<and> (\<forall>i e. evListeners ev (evCancel ev i e) = filter (\<lambda>(j, _). j \<noteq> i) (evListeners ev e))"

subsection \<open>State, routes and subscriptions\<close>

definition ErrInvalidInput_pubsub :: gerr where "ErrInvalidInput_pubsub = Sentinel ''pubsub.ErrInvalidInput''"
definition ErrTimeout :: gerr where "ErrTimeout = Sentinel ''pubsub.ErrTimeout''"

record ('e, 'o) PubSub =
  psSelf :: string
  psRequired :: "'o list"
  psDesiredOpts :: "'o list"
  psDesired :: "'o list"
  psRoutes :: "string \<rightharpoonup> 'e"
  psPublishTimeout :: duration

text \<open>A \<open>CancelFunc\<close> closes over the listener list of one route and the listener.\<close>

type_synonym cancelFunc = "string \<times> nat"

definition serviceRoute :: "string \<Rightarrow> string" where "serviceRoute service = ''service:'' @ service"
definition egressRoute :: string where "egressRoute = ''egress:*''"
definition eventRoute :: "string \<Rightarrow> string" where "eventRoute event = ''event:'' @ event"

definition validateString :: "string \<Rightarrow> string \<Rightarrow> gerr option" where
  "validateString s typ =
     (if s = [] then Some (Wrapped (typ @ '' may not be empty'') ErrInvalidInput_pubsub)
      else if CHR 0x2F \<in> set s
      then Some (Wrapped (typ @ '' may not contain any of the following: /'') ErrInvalidInput_pubsub)
      else None)"

definition subscribe ::
  "('e, 's) eventor \<Rightarrow> string \<Rightarrow> 's handler option \<Rightarrow> ('e, 'o) PubSub \<Rightarrow> gerr + (cancelFunc \<times> ('e, 'o) PubSub)" where
  "subscribe ev route h ps =
     (case h of
        None \<Rightarrow> Inl (Wrapped ''handler may not be nil'' ErrInvalidInput_pubsub)
      | Some lst \<Rightarrow>
          (let e = (case psRoutes ps route of None \<Rightarrow> evNew ev | Some e \<Rightarrow> e)
           in case evAdd ev lst e of (e', i) \<Rightarrow> Inr ((route, i), ps\<lparr>psRoutes := (psRoutes ps)(route \<mapsto> e')\<rparr>)))"

definition cancelSub :: "('e, 's) eventor \<Rightarrow> cancelFunc \<Rightarrow> ('e, 'o) PubSub \<Rightarrow> ('e, 'o) PubSub" where
  "cancelSub ev c ps =
     (case c of (route, i) \<Rightarrow>
        (case psRoutes ps route of
           None \<Rightarrow> ps
         | Some e \<Rightarrow> ps\<lparr>psRoutes := (psRoutes ps)(route \<mapsto> evCancel ev i e)\<rparr>))"

definition SubscribeEgress ::
  "('e, 's) eventor \<Rightarrow> 's handler option \<Rightarrow> ('e, 'o) PubSub \<Rightarrow> gerr + (cancelFunc \<times> ('e, 'o) PubSub)" where
  "SubscribeEgress ev h ps = subscribe ev egressRoute h ps"

definition SubscribeService ::
  "('e, 's) eventor \<Rightarrow> string \<Rightarrow> 's handler option \<Rightarrow> ('e, 'o) PubSub \<Rightarrow> gerr + (cancelFunc \<times> ('e, 'o) PubSub)" where
  "SubscribeService ev service h ps =
     (case validateString service ''service'' of
        Some e \<Rightarrow> Inl e | None \<Rightarrow> subscribe ev (serviceRoute service) h ps)"

definition SubscribeEvent ::
  "('e, 's) eventor \<Rightarrow> string \<Rightarrow> 's handler option \<Rightarrow> ('e, 'o) PubSub \<Rightarrow> gerr + (cancelFunc \<times> ('e, 'o) PubSub)" where
  "SubscribeEvent ev event h ps =
     (case validateString event ''event'' of
        Some e \<Rightarrow> Inl e | None \<Rightarrow> subscribe ev (eventRoute event) h ps)"

subsection \<open>Options and the constructor\<close>

text \<open>
  An option works on the \<open>PubSub\<close> and on the store of the caller's \<open>CancelFunc\<close> variables, which
  the optional pointer arguments name (\<open>None\<close> is a nil pointer).
\<close>

type_synonym ('e, 'o) psOption = "(('e, 'o) PubSub \<times> (nat \<rightharpoonup> cancelFunc)) goption"

definition Normify :: "'o list \<Rightarrow> ('e, 'o) psOption" where
  "Normify opts = (\<lambda>(ps, vars). Inr (ps\<lparr>psDesiredOpts := psDesiredOpts ps @ opts\<rparr>, vars))"

definition storeCancel :: "nat option list \<Rightarrow> cancelFunc \<Rightarrow> (nat \<rightharpoonup> cancelFunc) \<Rightarrow> (nat \<rightharpoonup> cancelFunc)" where
  "storeCancel cancel c vars = (case cancel of Some p # _ \<Rightarrow> vars(p \<mapsto> c) | _ \<Rightarrow> vars)"

definition subscribeOption ::
  "(('e, 'o) PubSub \<Rightarrow> gerr + (cancelFunc \<times> ('e, 'o) PubSub)) \<Rightarrow> nat option list \<Rightarrow> ('e, 'o) psOption" where
  "subscribeOption sub cancel = (\<lambda>(ps, vars).
     case sub ps of Inl e \<Rightarrow> Inl e | Inr (c, ps') \<Rightarrow> Inr (ps', storeCancel cancel c vars))"

definition WithEgressHandler ::
  "('e, 's) eventor \<Rightarrow> 's handler option \<Rightarrow> nat option list \<Rightarrow> ('e, 'o) psOption" where
  "WithEgressHandler ev h cancel = subscribeOption (SubscribeEgress ev h) cancel"

definition WithServiceHandler ::
  "('e, 's) eventor \<Rightarrow> string \<Rightarrow> 's handler option \<Rightarrow> nat option list \<Rightarrow> ('e, 'o) psOption" where
  "WithServiceHandler ev service h cancel = subscribeOption (SubscribeService ev service h) cancel"

definition WithEventHandler ::
  "('e, 's) eventor \<Rightarrow> string \<Rightarrow> 's handler option \<Rightarrow> nat option list \<Rightarrow> ('e, 'o) psOption" where
  "WithEventHandler ev event h cancel = subscribeOption (SubscribeEvent ev event h) cancel"

definition WithPublishTimeout :: "duration \<Rightarrow> ('e, 'o) psOption" where
  "WithPublishTimeout timeout = (\<lambda>(ps, vars).
     if timeout < 0 then Inl (Wrapped ''timeout must be zero or larger'' ErrInvalidInput_pubsub)
     else Inr (ps\<lparr>psPublishTimeout := timeout\<rparr>, vars))"

definition New_pubsub ::
  "'o wrpLib \<Rightarrow> string \<Rightarrow> ('e, 'o) psOption option list \<Rightarrow> (nat \<rightharpoonup> cancelFunc)
   \<Rightarrow> gerr + (('e, 'o) PubSub \<times> (nat \<rightharpoonup> cancelFunc))" where
  "New_pubsub wl self opts vars =
     (if self = [] then Inl (Wrapped ''self may not be empty'' ErrInvalidInput_pubsub)
      else case applyOpts opts
             (\<lparr>psSelf = self,
               psRequired = [ValidateDestination wl, ValidateSource wl, ReplaceAnySelfLocator wl self,
                             ClampQualityOfService wl],
               psDesiredOpts = [], psDesired = [], psRoutes = Map.empty, psPublishTimeout = 0\<rparr>, vars) of
             Inl e \<Rightarrow> Inl e
           | Inr (ps, vars') \<Rightarrow> Inr (ps\<lparr>psDesired := psDesiredOpts ps\<rparr>, vars'))"

subsection \<open>Publishing\<close>

definition normalize :: "'o wrpLib \<Rightarrow> ('e, 'o) PubSub \<Rightarrow> message \<Rightarrow> gerr + (message \<times> locator)" where
  "normalize wl ps msg =
     (case NormifyWith wl (psRequired ps) msg of
        Inl e \<Rightarrow> Inl e
      | Inr msg' \<Rightarrow>
          (let dst = fst (ParseLocator wl (mDestination msg'));
               src = fst (ParseLocator wl (mSource msg'))
           in if locID src = psSelf ps
              then (case NormifyWith wl (psDesired ps) msg' of Inl e \<Rightarrow> Inl e | Inr msg'' \<Rightarrow> Inr (msg'', dst))
              else Inr (msg', dst)))"

definition routesFor :: "'o wrpLib \<Rightarrow> ('e, 'o) PubSub \<Rightarrow> locator \<Rightarrow> string list" where
  "routesFor wl ps dest =
     (if locID dest = psSelf ps then [serviceRoute (locService dest), serviceRoute ''*'']
      else if locScheme dest = SchemeEvent wl
      then [eventRoute (locAuthority dest), eventRoute ''*'', egressRoute]
      else [egressRoute])"

text \<open>The listeners that \<open>Visit\<close> reaches, route after route; one goroutine is started for each.\<close>

definition listenersOn :: "('e, 's) eventor \<Rightarrow> ('e, 'o) PubSub \<Rightarrow> string \<Rightarrow> 's handler list" where
  "listenersOn ev ps route =
     (case psRoutes ps route of None \<Rightarrow> [] | Some e \<Rightarrow> map snd (evListeners ev e))"

definition visited :: "('e, 's) eventor \<Rightarrow> ('e, 'o) PubSub \<Rightarrow> string list \<Rightarrow> 's handler list" where
  "visited ev ps routes = concat (map (listenersOn ev ps) routes)"

text \<open>
  A goroutine runs its listener, then is finished or tries to send on the one-place channel
  \<open>handled\<close>. The publisher takes one of its three cases once; after that the channel \<open>stop\<close> is closed.
\<close>

datatype gostat = Running | Sending | Finished

record 's publication =
  pubGo :: "gostat list"
  pubErrs :: "gerr option option list"
  pubHandled :: bool
  pubResult :: "gerr option option"
  pubWorld :: 's

datatype pubEvent = Run nat | Send nat | Quit nat | TakeHandled | TakeDone | TakeTimeout

definition publication_init :: "'s handler list \<Rightarrow> 's \<Rightarrow> 's publication" where
  "publication_init hs s =
     \<lparr>pubGo = map (\<lambda>_. Running) hs, pubErrs = map (\<lambda>_. None) hs, pubHandled = False,
      pubResult = None, pubWorld = s\<rparr>"

definition allFinished :: "'s publication \<Rightarrow> bool" where
  "allFinished p = list_all (\<lambda>g. g = Finished) (pubGo p)"

fun publishStep :: "'s handler list \<Rightarrow> message \<Rightarrow> pubEvent \<Rightarrow> 's publication \<Rightarrow> 's publication option" where
  "publishStep hs msg (Run i) p =
     (if i < length (pubGo p) \<and> pubGo p ! i = Running
      then case (hs ! i) msg (pubWorld p) of
             (err, w) \<Rightarrow> Some (p\<lparr>pubWorld := w, pubErrs := (pubErrs p)[i := Some err],
                             pubGo := (pubGo p)[i := (if notHandled err then Finished else Sending)]\<rparr>)
      else None)"
| "publishStep hs msg (Send i) p =
     (if i < length (pubGo p) \<and> pubGo p ! i = Sending \<and> \<not> pubHandled p
      then Some (p\<lparr>pubHandled := True, pubGo := (pubGo p)[i := Finished]\<rparr>) else None)"
| "publishStep hs msg (Quit i) p =
     (if i < length (pubGo p) \<and> pubGo p ! i = Sending \<and> pubResult p \<noteq> None
      then Some (p\<lparr>pubGo := (pubGo p)[i := Finished]\<rparr>) else None)"
| "publishStep hs msg TakeHandled p =
     (if pubResult p = None \<and> pubHandled p
      then Some (p\<lparr>pubHandled := False, pubResult := Some None\<rparr>) else None)"
| "publishStep hs msg TakeDone p =
     (if pubResult p = None \<and> allFinished p
      then Some (p\<lparr>pubResult := Some (Some ErrNotHandled)\<rparr>) else None)"
| "publishStep hs msg TakeTimeout p =
     (if pubResult p = None then Some (p\<lparr>pubResult := Some (Some ErrTimeout)\<rparr>) else None)"

inductive published :: "'s handler list \<Rightarrow> message \<Rightarrow> 's \<Rightarrow> 's publication \<Rightarrow> bool" for hs msg s where
  start: "published hs msg s (publication_init hs s)"
| step: "published hs msg s p \<Longrightarrow> publishStep hs msg e p = Some p' \<Longrightarrow> published hs msg s p'"

fun publishRun :: "'s handler list \<Rightarrow> message \<Rightarrow> pubEvent list \<Rightarrow> 's publication \<Rightarrow> 's publication option" where
  "publishRun hs msg [] p = Some p"
| "publishRun hs msg (e # es) p =
     (case publishStep hs msg e p of None \<Rightarrow> None | Some p' \<Rightarrow> publishRun hs msg es p')"

text \<open>
  \<open>HandleWrp\<close> along a schedule: an event list that brings the publisher to a result. A schedule
  that does not is no run of the function.
\<close>

definition HandleWrp_pubsub ::
  "'o wrpLib \<Rightarrow> ('e, 's) eventor \<Rightarrow> ('e, 'o) PubSub \<Rightarrow> pubEvent list \<Rightarrow> message \<Rightarrow> 's \<Rightarrow> (gerr option \<times> 's) option" where
  "HandleWrp_pubsub wl ev ps sched msg s =
     (case normalize wl ps msg of
        Inl e \<Rightarrow> Some (errorsJoin [Some e, Some ErrNotHandled], s)
      | Inr (m, dest) \<Rightarrow>
          (let hs = visited ev ps (routesFor wl ps dest)
           in case publishRun hs m sched (publication_init hs s) of
                None \<Rightarrow> None
              | Some p \<Rightarrow> map_option (\<lambda>r. (r, pubWorld p)) (pubResult p)))"

subsection \<open>Routes\<close>

lemma route_simps [simp]:
  "serviceRoute a = serviceRoute b \<longleftrightarrow> a = b" "eventRoute a = eventRoute b \<longleftrightarrow> a = b"
  "serviceRoute a \<noteq> eventRoute b" "eventRoute b \<noteq> serviceRoute a" "serviceRoute a \<noteq> egressRoute"
  "egressRoute \<noteq> serviceRoute a" "eventRoute a \<noteq> egressRoute" "egressRoute \<noteq> eventRoute a"
  by (simp_all add: serviceRoute_def eventRoute_def egressRoute_def)

subsection \<open>The subscription table\<close>

text \<open>
  What pubsub promises its clients: a table of listeners by route, to which subscribing adds one
  entry and from which cancelling removes that entry and nothing else.
\<close>

locale subscription_table =
  fixes table :: "'t \<Rightarrow> string \<Rightarrow> (nat \<times> 'h) multiset"
    and sub :: "string \<Rightarrow> 'h \<Rightarrow> 't \<Rightarrow> (string \<times> nat) \<times> 't"
    and cancel :: "string \<times> nat \<Rightarrow> 't \<Rightarrow> 't"
  assumes sub_fresh: "fst (fst (sub r h t)) = r \<and> snd (fst (sub r h t)) \<notin> fst ` set_mset (table t r)"
    and sub_table: "table (snd (sub r h t)) r' =
        (if r' = r then add_mset (snd (fst (sub r h t)), h) (table t r) else table t r')"
    and cancel_table: "table (cancel (r, i) t) r' =
        (if r' = r then filter_mset (\<lambda>x. fst x \<noteq> i) (table t r) else table t r')"
begin

lemma cancel_idem: "table (cancel c (cancel c t)) r = table (cancel c t) r"
  by (cases c) (auto simp: cancel_table filter_filter_mset)

lemma filter_other:
  assumes "i \<notin> fst ` set_mset M"
  shows "filter_mset (\<lambda>x. fst x \<noteq> i) M = M"
  using assms by (induction M) auto

lemma cancel_undoes: "table (cancel (fst (sub r h t)) (snd (sub r h t))) r' = table t r'"
proof (cases "r' = r")
  case True
  with sub_fresh[of r h t] filter_other show ?thesis
    by (cases "fst (sub r h t)") (auto simp: cancel_table sub_table)
next
  case False
  with sub_fresh[of r h t] show ?thesis
    by (cases "fst (sub r h t)") (auto simp: cancel_table sub_table)
qed

text \<open>A listener added later survives the cancellation of an earlier one.\<close>

lemma cancel_keeps_later:
  assumes "sub r h t = (c, t1)" and "sub r' h' t1 = (c', t2)"
  shows "(snd c', h') \<in># table (cancel c t2) r'"
proof (cases "r' = r")
  case True
  have "c = (r, snd c)" using sub_fresh[of r h t] assms(1) by (metis fst_conv prod.collapse)
  moreover have "snd c \<noteq> snd c'"
  proof -
    have "(snd c, h) \<in># table t1 r" using sub_table[of r h t r] assms(1) by simp
    then have "snd c \<in> fst ` set_mset (table t1 r)" by (force simp: image_iff)
    moreover have "snd c' \<notin> fst ` set_mset (table t1 r)" using sub_fresh[of r' h' t1] assms(2) True by simp
    ultimately show ?thesis by metis
  qed
  ultimately show ?thesis
    using sub_table[of r' h' t1 r'] assms(2) True cancel_table[of r "snd c" t2 r'] by auto
next
  case False
  have "fst c = r" using sub_fresh[of r h t] assms(1) by simp
  with False show ?thesis
    using sub_table[of r' h' t1 r'] assms(2) cancel_table[of r "snd c" t2 r'] by (cases c) auto
qed

end

definition subTable :: "('e, 's) eventor \<Rightarrow> ('e, 'o) PubSub \<Rightarrow> string \<Rightarrow> (nat \<times> 's handler) multiset" where
  "subTable ev ps route = (case psRoutes ps route of None \<Rightarrow> {#} | Some e \<Rightarrow> mset (evListeners ev e))"

definition subscribeOk ::
  "('e, 's) eventor \<Rightarrow> string \<Rightarrow> 's handler \<Rightarrow> ('e, 'o) PubSub \<Rightarrow> cancelFunc \<times> ('e, 'o) PubSub" where
  "subscribeOk ev route h ps =
     (let (e', i) = evAdd ev h (case psRoutes ps route of None \<Rightarrow> evNew ev | Some e \<Rightarrow> e)
      in ((route, i), ps\<lparr>psRoutes := (psRoutes ps)(route \<mapsto> e')\<rparr>))"

lemma subscribe_Some: "subscribe ev route (Some h) ps = Inr (subscribeOk ev route h ps)"
  by (simp add: subscribe_def subscribeOk_def Let_def split: prod.splits)

lemma listenersOn_table: "mset (listenersOn ev ps route) = image_mset snd (subTable ev ps route)"
  by (simp add: listenersOn_def subTable_def split: option.splits)

lemma pubsub_table:
  fixes ev :: "('e, 's) eventor"
  assumes laws: "eventorLaws ev"
  shows "subscription_table (subTable ev :: ('e, 'o) PubSub \<Rightarrow> _) (subscribeOk ev) (cancelSub ev)"
proof
  fix r and h :: "'s handler" and t :: "('e, 'o) PubSub" and r' i
  define e where "e = (case psRoutes t r of None \<Rightarrow> evNew ev | Some e \<Rightarrow> e)"
  obtain e' k where add: "evAdd ev h e = (e', k)" by fastforce
  have tab: "subTable ev t r = mset (evListeners ev e)"
    using laws by (auto simp: subTable_def e_def eventorLaws_def split: option.splits)
  have new: "k \<notin> fst ` set (evListeners ev e)" "mset (evListeners ev e') = add_mset (k, h) (mset (evListeners ev e))"
    using laws add by (metis eventorLaws_def fst_conv snd_conv)+
  have ok: "subscribeOk ev r h t = ((r, k), t\<lparr>psRoutes := (psRoutes t)(r \<mapsto> e')\<rparr>)"
    using add by (simp add: subscribeOk_def e_def)
  show "fst (fst (subscribeOk ev r h t)) = r \<and> snd (fst (subscribeOk ev r h t)) \<notin> fst ` set_mset (subTable ev t r)"
    using ok tab new(1) by simp
  show "subTable ev (snd (subscribeOk ev r h t)) r' =
      (if r' = r then add_mset (snd (fst (subscribeOk ev r h t)), h) (subTable ev t r) else subTable ev t r')"
    using ok tab new(2) by (simp add: subTable_def)
  show "subTable ev (cancelSub ev (r, i) t) r' =
      (if r' = r then filter_mset (\<lambda>x. fst x \<noteq> i) (subTable ev t r) else subTable ev t r')"
    using laws by (auto simp: eventorLaws_def cancelSub_def subTable_def case_prod_unfold split: option.splits)
qed

text \<open>A list with a counter is an eventor.\<close>

definition listEventor :: "(nat \<times> (nat \<times> 's handler) list, 's) eventor" where
  "listEventor =
     \<lparr>evNew = (0, []), evAdd = (\<lambda>h (n, ls). ((Suc n, filter (\<lambda>(j, _). j < n) ls @ [(n, h)]), n)),
      evCancel = (\<lambda>i (n, ls). (n, filter (\<lambda>(j, _). j \<noteq> i) ls)),
      evListeners = (\<lambda>(n, ls). filter (\<lambda>(j, _). j < n) ls)\<rparr>"

lemma listEventor_laws: "eventorLaws listEventor"
  unfolding eventorLaws_def listEventor_def
  by (auto simp: case_prod_unfold intro: filter_mset_cong filter_cong)

interpretation lsub: subscription_table "subTable listEventor" "subscribeOk listEventor" "cancelSub listEventor"
  by (rule pubsub_table[OF listEventor_laws])

subsection \<open>The publication protocol\<close>

definition handledBy :: "'s publication \<Rightarrow> nat \<Rightarrow> bool" where
  "handledBy p i \<longleftrightarrow> i < length (pubErrs p) \<and> (\<exists>err. pubErrs p ! i = Some err \<and> \<not> notHandled err)"

definition pub_inv :: "nat \<Rightarrow> 's publication \<Rightarrow> bool" where
  "pub_inv n p \<longleftrightarrow>
     length (pubGo p) = n \<and> length (pubErrs p) = n
     \<and> (\<forall>i<n. pubErrs p ! i = None \<longleftrightarrow> pubGo p ! i = Running)
     \<and> (\<forall>i<n. pubGo p ! i = Sending \<longrightarrow> handledBy p i)
     \<and> (pubHandled p \<or> pubResult p = Some None \<longrightarrow> (\<exists>i. handledBy p i))
     \<and> (pubResult p = Some (Some ErrNotHandled) \<longrightarrow> (\<forall>i<n. pubErrs p ! i \<noteq> None))
     \<and> (\<forall>e. pubResult p = Some (Some e) \<longrightarrow> e = ErrNotHandled \<or> e = ErrTimeout)"

lemma ErrTimeout_neq [simp]: "ErrTimeout \<noteq> ErrNotHandled" "ErrNotHandled \<noteq> ErrTimeout"
  by (simp_all add: ErrTimeout_def ErrNotHandled_def)

lemma pub_invD:
  assumes "pub_inv n p"
  shows "length (pubGo p) = n" "length (pubErrs p) = n"
    "i < n \<Longrightarrow> pubErrs p ! i = None \<longleftrightarrow> pubGo p ! i = Running"
    "i < n \<Longrightarrow> pubGo p ! i = Sending \<Longrightarrow> handledBy p i"
    "pubHandled p \<or> pubResult p = Some None \<Longrightarrow> \<exists>i. handledBy p i"
    "pubResult p = Some (Some ErrNotHandled) \<Longrightarrow> i < n \<Longrightarrow> pubErrs p ! i \<noteq> None"
    "pubResult p = Some (Some e) \<Longrightarrow> e = ErrNotHandled \<or> e = ErrTimeout"
  using assms unfolding pub_inv_def by blast+

lemma pub_inv_init: "pub_inv (length hs) (publication_init hs s)"
  by (auto simp: pub_inv_def publication_init_def)

lemma handledBy_keep:
  assumes "handledBy p j" and "pubErrs p ! i = None" and "i < length (pubErrs p)"
  shows "handledBy (p\<lparr>pubWorld := w, pubErrs := (pubErrs p)[i := x], pubGo := g\<rparr>) j"
  using assms by (auto simp: handledBy_def nth_list_update)

lemma pub_inv_Run:
  assumes inv: "pub_inv n p" and step: "publishStep hs msg (Run i) p = Some p'"
  shows "pub_inv n p'"
proof -
  obtain err w where call: "(hs ! i) msg (pubWorld p) = (err, w)" by fastforce
  have i: "i < n" "pubGo p ! i = Running" and none: "pubErrs p ! i = None"
    using inv step by (auto simp: pub_inv_def split: if_splits)
  have p': "p' = p\<lparr>pubWorld := w, pubErrs := (pubErrs p)[i := Some err],
                     pubGo := (pubGo p)[i := (if notHandled err then Finished else Sending)]\<rparr>"
    using step call by (simp split: if_splits)
  have keep: "handledBy p j \<Longrightarrow> handledBy p' j" for j
    using inv i none unfolding p' by (intro handledBy_keep) (auto simp: pub_inv_def)
  have self: "\<not> notHandled err \<Longrightarrow> handledBy p' i"
    using inv i unfolding p' by (auto simp: handledBy_def pub_inv_def)
  show ?thesis
    unfolding pub_inv_def
  proof (intro conjI)
    show "\<forall>j<n. pubErrs p' ! j = None \<longleftrightarrow> pubGo p' ! j = Running"
      using inv i unfolding p' by (auto simp: pub_inv_def nth_list_update)
    show "\<forall>j<n. pubGo p' ! j = Sending \<longrightarrow> handledBy p' j"
    proof (intro allI impI)
      fix j assume "j < n" "pubGo p' ! j = Sending"
      then show "handledBy p' j"
        using inv i keep self by (cases "j = i") (auto simp: p' pub_inv_def nth_list_update split: if_splits)
    qed
    have "pubHandled p' = pubHandled p" "pubResult p' = pubResult p" by (simp_all add: p')
    then show "pubHandled p' \<or> pubResult p' = Some None \<longrightarrow> (\<exists>j. handledBy p' j)"
      using pub_invD(5)[OF inv] keep by auto
  qed (use inv i in \<open>auto simp: p' pub_inv_def nth_list_update\<close>)
qed

lemma handledBy_upd [simp]:
  "handledBy (p\<lparr>pubGo := g\<rparr>) = handledBy p" "handledBy (p\<lparr>pubHandled := b\<rparr>) = handledBy p"
  "handledBy (p\<lparr>pubResult := r\<rparr>) = handledBy p" 
  by (simp_all add: handledBy_def fun_eq_iff)

lemma pub_inv_step:
  assumes inv: "pub_inv n p" and step: "publishStep hs msg e p = Some p'"
  shows "pub_inv n p'"
proof (cases e)
  case (Run i)
  with pub_inv_Run[OF inv] step show ?thesis by blast
next
  case (Send i)
  with inv step have "handledBy p i" by (auto simp: pub_inv_def split: if_splits)
  then have "\<exists>i. handledBy p i" by blast
  then show ?thesis using inv step Send by (auto simp: pub_inv_def nth_list_update split: if_splits)
next
  case (Quit i)
  then show ?thesis using inv step by (auto simp: pub_inv_def nth_list_update split: if_splits)
next
  case TakeDone
  then show ?thesis using inv step by (auto simp: pub_inv_def allFinished_def list_all_length split: if_splits)
qed (use inv step in \<open>auto simp: pub_inv_def split: if_splits\<close>)

lemma published_inv: "published hs msg s p \<Longrightarrow> pub_inv (length hs) p"
  by (induction rule: published.induct) (auto intro: pub_inv_init pub_inv_step)

lemma publishRun_published:
  "published hs msg s p \<Longrightarrow> publishRun hs msg es p = Some p' \<Longrightarrow> published hs msg s p'"
  by (induction es arbitrary: p) (auto split: option.splits intro: published.step)

text \<open>Progress: the goroutines that are not finished, and the steps that finish them.\<close>

definition unfinished :: "'s publication \<Rightarrow> nat" where
  "unfinished p = length (filter (\<lambda>g. g \<noteq> Finished) (pubGo p))"

lemma filter_update_less:
  assumes "i < length gs" and "gs ! i \<noteq> Finished"
  shows "length (filter (\<lambda>g. g \<noteq> Finished) (gs[i := Finished])) < length (filter (\<lambda>g. g \<noteq> Finished) gs)"
  using assms by (induction gs arbitrary: i) (auto split: nat.splits)

text \<open>After the publisher has its result, a goroutine that is waiting to send can leave.\<close>

lemma finish_one:
  assumes "pub_inv n p" and "pubResult p \<noteq> None" and "\<not> allFinished p"
  shows "\<exists>es p'. publishRun hs msg es p = Some p' \<and> pubResult p' = pubResult p \<and> unfinished p' < unfinished p"
proof -
  obtain i where i: "i < length (pubGo p)" "pubGo p ! i \<noteq> Finished"
    using assms(3) by (auto simp: allFinished_def list_all_length)
  show ?thesis
  proof (cases "pubGo p ! i = Sending")
    case True
    with i assms(2) have "publishRun hs msg [Quit i] p = Some (p\<lparr>pubGo := (pubGo p)[i := Finished]\<rparr>)" by simp
    with filter_update_less[OF i] show ?thesis
      by (intro exI[of _ "[Quit i]"] exI[of _ "p\<lparr>pubGo := (pubGo p)[i := Finished]\<rparr>"]) (simp add: unfinished_def)
  next
    case False
    then have run: "pubGo p ! i = Running" using i(2) by (cases "pubGo p ! i") auto
    obtain err w where call: "(hs ! i) msg (pubWorld p) = (err, w)" by fastforce
    let ?q = "p\<lparr>pubWorld := w, pubErrs := (pubErrs p)[i := Some err], pubGo := (pubGo p)[i := Finished]\<rparr>"
    have "publishRun hs msg (if notHandled err then [Run i] else [Run i, Quit i]) p = Some ?q"
      using i(1) run call assms(2) by simp
    moreover have "unfinished ?q < unfinished p" using filter_update_less[OF i] by (simp add: unfinished_def)
    ultimately show ?thesis by (intro exI conjI) auto
  qed
qed

lemma publishRun_append:
  "publishRun hs msg (es @ es') p = (case publishRun hs msg es p of None \<Rightarrow> None | Some p' \<Rightarrow> publishRun hs msg es' p')"
  by (induction es arbitrary: p) (auto split: option.splits)

lemma publishRun_inv: "pub_inv n p \<Longrightarrow> publishRun hs msg es p = Some p' \<Longrightarrow> pub_inv n p'"
  by (induction es arbitrary: p) (auto split: option.splits intro: pub_inv_step)

lemma finish_all:
  assumes "pub_inv n p" and "pubResult p \<noteq> None"
  shows "\<exists>es p'. publishRun hs msg es p = Some p' \<and> pubResult p' = pubResult p \<and> allFinished p'"
  using assms
proof (induction "unfinished p" arbitrary: p rule: less_induct)
  case less
  show ?case
  proof (cases "allFinished p")
    case True
    then show ?thesis by (intro exI[of _ "[]"]) auto
  next
    case False
    from finish_one[OF less.prems this] obtain es p1 where p1: "publishRun hs msg es p = Some p1"
      "pubResult p1 = pubResult p" "unfinished p1 < unfinished p" by blast
    from less.hyps[OF p1(3) publishRun_inv[OF less.prems(1) p1(1)]] p1(2) less.prems(2) obtain es' p2 where
      "publishRun hs msg es' p1 = Some p2" "pubResult p2 = pubResult p1" "allFinished p2" by auto
    with p1 show ?thesis by (intro exI[of _ "es @ es'"] exI[of _ p2]) (simp add: publishRun_append)
  qed
qed

subsection \<open>Properties\<close>



text \<open>
  The result can contradict what happened: the channel of handled messages is buffered, so the
  only listener may consume the message and finish before the publisher looks, and the publisher
  may then take the done case and report \<open>ErrNotHandled\<close>.
\<close>

theorem publish_handled_yet_ErrNotHandled:
  assumes "h msg s = (None, s')"
  shows "\<exists>p. publishRun [h] msg [Run 0, Send 0, TakeDone] (publication_init [h] s) = Some p
           \<and> pubResult p = Some (Some ErrNotHandled) \<and> pubErrs p = [Some None] \<and> pubWorld p = s'"
  using assms by (simp add: publication_init_def allFinished_def)

theorem publish_handled_yet_ErrNotHandled_witness:
  "\<exists>p. publishRun [record_handler None] empty_message [Run 0, Send 0, TakeDone] (publication_init [record_handler None] []) = Some p
     \<and> pubResult p = Some (Some ErrNotHandled) \<and> pubErrs p = [Some None] \<and> pubWorld p = [empty_message]"
  by (rule publish_handled_yet_ErrNotHandled) (simp add: record_handler_def)

text \<open>
  C27: Publishing leaks no goroutine: from every reachable state in which the publisher has its result,
  some continuation ends every goroutine and keeps that result.
\<close>

theorem publish_no_leak:
  assumes "published hs msg s p" and "pubResult p = Some r"
  shows "\<exists>es p'. publishRun hs msg es p = Some p' \<and> allFinished p' \<and> pubResult p' = Some r"
  using finish_all[OF published_inv[OF assms(1)], of hs msg] assms(2) by auto

theorem publish_no_leak_witness:
  "\<exists>es p'. publishRun [record_handler None, record_handler None] empty_message es
      ((publication_init [record_handler None, record_handler None] [])\<lparr>pubResult := Some (Some ErrTimeout)\<rparr>) = Some p'
      \<and> allFinished p' \<and> pubResult p' = Some (Some ErrTimeout)"
proof -
  let ?hs = "[record_handler None, record_handler None]"
  let ?p = "(publication_init ?hs [])\<lparr>pubResult := Some (Some ErrTimeout)\<rparr>"
  have "publishRun ?hs empty_message [TakeTimeout] (publication_init ?hs []) = Some ?p"
    by (simp add: publication_init_def)
  then have "published ?hs empty_message [] ?p" by (rule publishRun_published[OF published.start])
  from publish_no_leak[OF this] show ?thesis by simp
qed

text \<open>
  A message is offered to the right listeners: those of its service and of the service wildcard when it is
  addressed to this device, those of its event, of the event wildcard and of egress when it is an
  event for elsewhere, and the egress listeners alone otherwise.
\<close>

theorem visited_listeners:
  "visited ev ps (routesFor wl ps dest) =
     (if locID dest = psSelf ps
      then listenersOn ev ps (''service:'' @ locService dest) @ listenersOn ev ps ''service:*''
      else (if locScheme dest = SchemeEvent wl
            then listenersOn ev ps (''event:'' @ locAuthority dest) @ listenersOn ev ps ''event:*'' else [])
           @ listenersOn ev ps ''egress:*'')"
  by (simp add: visited_def routesFor_def serviceRoute_def eventRoute_def egressRoute_def)

text \<open>
  Subscribing to a service with a valid name adds the handler to the listeners of that service's route and
  leaves every other route alone; its \<open>CancelFunc\<close> restores the listeners of every route, and
  calling it twice is calling it once.
\<close>

theorem SubscribeService_cancel:
  fixes ps :: "('e, 'o) PubSub"
  assumes "eventorLaws ev" and "validateString service ''service'' = None"
  shows "\<exists>c ps'. SubscribeService ev service (Some h) ps = Inr (c, ps')
     \<and> (\<forall>r. mset (listenersOn ev ps' r) =
          (if r = serviceRoute service then {#h#} else {#}) + mset (listenersOn ev ps r))
     \<and> (\<forall>r. mset (listenersOn ev (cancelSub ev c ps') r) = mset (listenersOn ev ps r))
     \<and> (\<forall>r. mset (listenersOn ev (cancelSub ev c (cancelSub ev c ps')) r) =
             mset (listenersOn ev (cancelSub ev c ps') r))"
proof -
  obtain c ps' where ok: "subscribeOk ev (serviceRoute service) h ps = (c, ps')" by fastforce
  note t = pubsub_table[OF assms(1), where 'o = 'o]
  have "SubscribeService ev service (Some h) ps = Inr (c, ps')"
    using assms(2) ok by (simp add: SubscribeService_def subscribe_Some)
  moreover have "\<forall>r. subTable ev ps' r = (if r = serviceRoute service
      then add_mset (snd c, h) (subTable ev ps (serviceRoute service)) else subTable ev ps r)"
    using subscription_table.sub_table[OF t, of "serviceRoute service" h ps] ok by simp
  moreover have "\<forall>r. subTable ev (cancelSub ev c ps') r = subTable ev ps r"
    using subscription_table.cancel_undoes[OF t, of "serviceRoute service" h ps] ok by simp
  moreover have "\<forall>r. subTable ev (cancelSub ev c (cancelSub ev c ps')) r = subTable ev (cancelSub ev c ps') r"
    using subscription_table.cancel_idem[OF t] by blast
  ultimately show ?thesis by (auto simp: listenersOn_table)
qed

definition emptyPubSub :: "string \<Rightarrow> (nat \<times> (nat \<times> message list handler) list, nat) PubSub" where
  "emptyPubSub self = \<lparr>psSelf = self, psRequired = [], psDesiredOpts = [], psDesired = [], psRoutes = Map.empty,
     psPublishTimeout = 0\<rparr>"

theorem SubscribeService_cancel_witness:
  "\<exists>c ps'. SubscribeService listEventor ''config'' (Some (record_handler None)) (emptyPubSub ''mac:1'') = Inr (c, ps')
     \<and> mset (listenersOn listEventor ps' ''service:config'') = {#record_handler None#}
     \<and> mset (listenersOn listEventor (cancelSub listEventor c ps') ''service:config'') = {#}"
proof -
  have "validateString ''config'' ''service'' = None" by (simp add: validateString_def)
  from SubscribeService_cancel[OF listEventor_laws this, of "record_handler None" "emptyPubSub ''mac:1''"]
  obtain c ps' where c: "SubscribeService listEventor ''config'' (Some (record_handler None)) (emptyPubSub ''mac:1'') = Inr (c, ps')"
    "\<forall>r. mset (listenersOn listEventor ps' r) = (if r = serviceRoute ''config'' then {#record_handler None#} else {#})
        + mset (listenersOn listEventor (emptyPubSub ''mac:1'') r)"
    "\<forall>r. mset (listenersOn listEventor (cancelSub listEventor c ps') r) = mset (listenersOn listEventor (emptyPubSub ''mac:1'') r)"
    by blast
  have "listenersOn listEventor (emptyPubSub ''mac:1'') r = []" for r
    by (simp add: listenersOn_def emptyPubSub_def)
  with c show ?thesis by (intro exI[of _ c] exI[of _ ps'] conjI) (simp_all add: serviceRoute_def)
qed

text \<open>
  Subscriptions are validated: a service or event name that is empty or contains a slash, or a nil handler, is
  refused with \<open>ErrInvalidInput\<close>, and everything else is accepted.
\<close>

theorem subscribe_validation:
  "((\<exists>e. SubscribeService ev name h ps = Inl e) \<longleftrightarrow> name = [] \<or> CHR 0x2F \<in> set name \<or> h = None)
   \<and> ((\<exists>e. SubscribeEvent ev name h ps = Inl e) \<longleftrightarrow> name = [] \<or> CHR 0x2F \<in> set name \<or> h = None)
   \<and> ((\<exists>e. SubscribeEgress ev h ps = Inl e) \<longleftrightarrow> h = None)
   \<and> (\<forall>e. SubscribeService ev name h ps = Inl e \<or> SubscribeEvent ev name h ps = Inl e
        \<or> SubscribeEgress ev h ps = Inl e \<longrightarrow> errIs e ''pubsub.ErrInvalidInput'')"
proof (cases h)
  case None
  then show ?thesis
    by (auto simp: SubscribeService_def SubscribeEvent_def SubscribeEgress_def subscribe_def
       validateString_def ErrInvalidInput_pubsub_def)
next
  case (Some a)
  then show ?thesis
    by (auto simp: SubscribeService_def SubscribeEvent_def SubscribeEgress_def subscribe_Some
       validateString_def ErrInvalidInput_pubsub_def)
qed

theorem subscribe_validation_witness:
  "\<exists>e. SubscribeService listEventor ''a/b'' (Some (record_handler None)) (emptyPubSub ''mac:1'') = Inl e
     \<and> errIs e ''pubsub.ErrInvalidInput''"
  using subscribe_validation[of listEventor "''a/b''" "Some (record_handler None)" "emptyPubSub ''mac:1''"] by auto

end
