(* ===== verification/MockTr181.thy ===== *)
theory MockTr181
  imports Handlers
begin

text \<open>
  \<open>internal/wrphandlers/mocktr181/handler.go\<close> and \<open>options.go\<close>: the mock TR-181 data model. The handler is
  passed by value but its parameter slice is shared, so the parameters are state; \<open>set\<close>
  collects pointers into the slice, which are indices here. The JSON codec and the file read are
  arguments, attribute maps are the type parameter \<open>'a\<close> (\<open>None\<close> is nil).
\<close>

definition ErrInvalidInput_mock :: gerr where "ErrInvalidInput_mock = Sentinel ''mocktr181.ErrInvalidInput''"
definition ErrInvalidFileInput :: gerr where "ErrInvalidFileInput = Sentinel ''mocktr181.ErrInvalidFileInput''"
definition ErrUnableToReadFile :: gerr where "ErrUnableToReadFile = Sentinel ''mocktr181.ErrUnableToReadFile''"
definition ErrInvalidResponsePayload :: gerr where
  "ErrInvalidResponsePayload = Sentinel ''mocktr181.ErrInvalidResponsePayload''"

record 'a MockParameter =
  mpName :: string
  mpValue :: string
  mpAccess :: string
  mpDataType :: int
  mpAttributes :: "'a option"
  mpDelay :: int

record 'a Parameter =
  pName :: string
  pValue :: string
  pDataType :: int
  pAttributes :: "'a option"
  pMessage :: string
  pCount :: int

record 'a Tr181Payload =
  tCommand :: string
  tNames :: "string list"
  tParameters :: "'a Parameter list"
  tStatusCode :: int

record 's mockHandler =
  mkEgress :: "'s handler option"
  mkSource :: string
  mkFilePath :: string
  mkEnabled :: bool

subsection \<open>Construction\<close>

definition FilePath :: "string \<Rightarrow> 's mockHandler goption" where
  "FilePath path h =
     (if path = [] then Inl (Wrapped ''empty mock file location'' ErrInvalidFileInput)
      else Inr (h\<lparr>mkFilePath := path\<rparr>))"

definition Enabled_opt :: "bool \<Rightarrow> 's mockHandler goption" where
  "Enabled_opt enabled h = Inr (h\<lparr>mkEnabled := enabled\<rparr>)"

text \<open>\<open>readFile\<close> opens and reads the file, \<open>unmarshal\<close> decodes its contents.\<close>

definition loadFile ::
  "(string \<Rightarrow> gerr + bytes) \<Rightarrow> (bytes \<Rightarrow> gerr + 'a MockParameter list) \<Rightarrow> 's mockHandler \<Rightarrow> gerr + 'a MockParameter list" where
  "loadFile readFile unmarshal h =
     (case readFile (mkFilePath h) of
        Inl e \<Rightarrow> Inl (Joined [ErrUnableToReadFile, e])
      | Inr b \<Rightarrow> (case unmarshal b of Inl e \<Rightarrow> Inl (Joined [ErrInvalidFileInput, e]) | Inr ps \<Rightarrow> Inr ps))"

definition New_mock ::
  "(string \<Rightarrow> gerr + bytes) \<Rightarrow> (bytes \<Rightarrow> gerr + 'a MockParameter list) \<Rightarrow> 's handler option \<Rightarrow> string
   \<Rightarrow> 's mockHandler goption option list \<Rightarrow> gerr + ('s mockHandler \<times> 'a MockParameter list)" where
  "New_mock readFile unmarshal egress source opts =
     (case applyOpts opts \<lparr>mkEgress = egress, mkSource = source, mkFilePath = [], mkEnabled = False\<rparr> of
        Inl e \<Rightarrow> Inl e
      | Inr h \<Rightarrow>
          (case loadFile readFile unmarshal h of
             Inl e \<Rightarrow> Inl (Joined [ErrUnableToReadFile, e])
           | Inr ps \<Rightarrow>
               if mkEgress h = None \<or> mkSource h = [] then Inl ErrInvalidInput_mock else Inr (h, ps)))"

subsection \<open>GET\<close>

text \<open>The body of the inner loop, for one requested name and one parameter of the data model.\<close>

definition readable :: "'a MockParameter \<Rightarrow> bool" where "readable mp = Contains (mpAccess mp) ''r''"
definition writable :: "'a MockParameter \<Rightarrow> bool" where "writable mp = Contains (mpAccess mp) ''w''"

definition getResult :: "'a MockParameter \<Rightarrow> 'a Parameter" where
  "getResult mp = \<lparr>pName = mpName mp, pValue = mpValue mp, pDataType = mpDataType mp,
     pAttributes = mpAttributes mp, pMessage = ''Success'', pCount = 1\<rparr>"

type_synonym 'a getAcc = "bool \<times> string list \<times> 'a Parameter list"

fun get_params :: "string \<Rightarrow> 'a MockParameter list \<Rightarrow> 'a getAcc \<Rightarrow> 'a getAcc" where
  "get_params name [] acc = acc"
| "get_params name (mp # mps) (found, failed, ok) =
     (if name = [] then get_params name mps (found, failed, ok)
      else if \<not> HasPrefix (mpName mp) name then get_params name mps (found, failed, ok)
      else if readable mp then get_params name mps (True, failed, ok @ [getResult mp])
      else if last name = CHR 0x2E then get_params name mps (found, failed, ok)
      else get_params name mps (found, failed @ [mpName mp], ok))"

fun get_names :: "'a MockParameter list \<Rightarrow> string list \<Rightarrow> string list \<times> 'a Parameter list \<Rightarrow> string list \<times> 'a Parameter list" where
  "get_names mps [] acc = acc"
| "get_names mps (name # names) (failed, ok) =
     (case get_params name mps (False, failed, ok) of
        (found, failed', ok') \<Rightarrow>
          get_names mps names (if found then failed' else failed' @ [name], ok'))"

text \<open>The verb \<open>%s\<close> on a string slice prints the elements between brackets, separated by spaces.\<close>

definition showNames :: "string list \<Rightarrow> string" where "showNames ns = ''['' @ Join ns '' '' @ '']''"

definition messageParam :: "string \<Rightarrow> string \<Rightarrow> 'a Parameter" where
  "messageParam name text =
     \<lparr>pName = name, pValue = [], pDataType = 0, pAttributes = None, pMessage = text, pCount = 0\<rparr>"

definition getReply :: "'a MockParameter list \<Rightarrow> 'a Tr181Payload \<Rightarrow> 'a Tr181Payload" where
  "getReply mps t =
     (case get_names mps (tNames t) ([], []) of
        (failed, ok) \<Rightarrow>
          \<lparr>tCommand = tCommand t, tNames = tNames t,
           tParameters = (if failed \<noteq> [] then [messageParam [] (''Invalid parameter names: '' @ showNames failed)] else ok),
           tStatusCode = (if failed \<noteq> [] then 520 else 200)\<rparr>)"

definition get_mock ::
  "('a Tr181Payload \<Rightarrow> gerr + bytes) \<Rightarrow> 'a MockParameter list \<Rightarrow> 'a Tr181Payload \<Rightarrow> int \<times> bytes \<times> gerr option" where
  "get_mock marshal mps t =
     (let result = getReply mps t in
      case marshal result of
        Inl e \<Rightarrow> (500, [], Some (Joined [ErrInvalidResponsePayload, e]))
      | Inr payload \<Rightarrow> (tStatusCode result, payload, None))"

subsection \<open>SET\<close>

type_synonym 'a setAcc = "bool \<times> nat list \<times> 'a Parameter list"

fun set_scan :: "'a Parameter \<Rightarrow> nat \<Rightarrow> 'a MockParameter list \<Rightarrow> 'a setAcc \<Rightarrow> 'a setAcc" where
  "set_scan p i [] acc = acc"
| "set_scan p i (mp # mps) (found, wr, failed) =
     (if mpName mp \<noteq> pName p then set_scan p (Suc i) mps (found, wr, failed)
      else if writable mp then set_scan p (Suc i) mps (True, wr @ [i], failed)
      else set_scan p (Suc i) mps (found, wr, failed @ [messageParam (mpName mp) ''Parameter is not writable'']))"

fun set_check :: "'a MockParameter list \<Rightarrow> 'a Parameter list \<Rightarrow> nat list \<times> 'a Parameter list \<Rightarrow> nat list \<times> 'a Parameter list" where
  "set_check mps [] acc = acc"
| "set_check mps (p # ps) (wr, failed) =
     (case set_scan p 0 mps (False, wr, failed) of
        (found, wr', failed') \<Rightarrow>
          set_check mps ps (wr', if found then failed' else failed' @ [messageParam (pName p) ''Invalid parameter name'']))"

definition assign :: "'a Parameter \<Rightarrow> 'a MockParameter \<Rightarrow> 'a MockParameter" where
  "assign p mp = mp\<lparr>mpValue := pValue p, mpDataType := pDataType p, mpAttributes := pAttributes p\<rparr>"

definition setResult :: "'a MockParameter \<Rightarrow> 'a Parameter" where
  "setResult mp = \<lparr>pName = mpName mp, pValue = mpValue mp, pDataType = mpDataType mp,
     pAttributes = mpAttributes mp, pMessage = ''Success'', pCount = 0\<rparr>"

fun set_one :: "'a Parameter \<Rightarrow> nat list \<Rightarrow> 'a MockParameter list \<times> 'a Parameter list
    \<Rightarrow> 'a MockParameter list \<times> 'a Parameter list" where
  "set_one p [] acc = acc"
| "set_one p (i # wr) (mps, out) =
     (if mpName (mps ! i) \<noteq> pName p then set_one p wr (mps, out)
      else let mp = assign p (mps ! i) in set_one p wr (mps[i := mp], out @ [setResult mp]))"

fun set_apply :: "'a Parameter list \<Rightarrow> nat list \<Rightarrow> 'a MockParameter list \<times> 'a Parameter list
    \<Rightarrow> 'a MockParameter list \<times> 'a Parameter list" where
  "set_apply [] wr acc = acc"
| "set_apply (p # ps) wr acc = set_apply ps wr (set_one p wr acc)"

definition setReply :: "'a MockParameter list \<Rightarrow> 'a Tr181Payload \<Rightarrow> 'a Tr181Payload \<times> 'a MockParameter list" where
  "setReply mps t =
     (case set_check mps (tParameters t) ([], []) of
        (wr, failed) \<Rightarrow>
          (case set_apply (tParameters t) (if failed \<noteq> [] then [] else wr)
                  (mps, if failed \<noteq> [] then failed else []) of
             (mps', out) \<Rightarrow>
               (\<lparr>tCommand = tCommand t, tNames = tNames t, tParameters = out,
                 tStatusCode = (if failed \<noteq> [] then 520 else 202)\<rparr>, mps')))"

definition set_mock ::
  "('a Tr181Payload \<Rightarrow> gerr + bytes) \<Rightarrow> 'a MockParameter list \<Rightarrow> 'a Tr181Payload
   \<Rightarrow> (int \<times> bytes \<times> gerr option) \<times> 'a MockParameter list" where
  "set_mock marshal mps t =
     (case setReply mps t of
        (result, mps') \<Rightarrow>
          (case marshal result of
             Inl e \<Rightarrow> ((500, [], Some (Joined [ErrInvalidResponsePayload, e])), mps')
           | Inr payload \<Rightarrow> ((tStatusCode result, payload, None), mps')))"

subsection \<open>The handler\<close>

definition invalidInputPayload :: bytes where
  "invalidInputPayload = bytes_of (''{'' @ [CHR 0x22] @ ''message'' @ [CHR 0x22] @ '': '' @ [CHR 0x22, CHR 0x22]
     @ ''Invalid Input Command'' @ [CHR 0x22, CHR 0x22] @ '', '' @ [CHR 0x22] @ ''statusCode'' @ [CHR 0x22]
     @ '': '' @ show_int 520 @ ''}'')"

definition unsupportedPayload :: "string \<Rightarrow> bytes" where
  "unsupportedPayload c = bytes_of (''{'' @ [CHR 0x22] @ ''message'' @ [CHR 0x22] @ '': '' @ [CHR 0x22] @ ''command ''
     @ [CHR 0x27] @ c @ [CHR 0x27] @ '' is not supported'' @ [CHR 0x22] @ '', '' @ [CHR 0x22] @ ''statusCode'' @ [CHR 0x22]
     @ '': '' @ show_int 520 @ ''}'')"

text \<open>
  The JSON codec of the payloads. Decoding the JSON null into a pointer sets the pointer to nil,
  which is \<open>None\<close>; reading a field through it panics, and a panic is the result \<open>None\<close> below.
\<close>

record 'a tr181Codec =
  cdUnmarshal :: "bytes \<Rightarrow> gerr + 'a Tr181Payload option"
  cdMarshal :: "'a Tr181Payload \<Rightarrow> gerr + bytes"

definition proccessCommand ::
  "'a tr181Codec \<Rightarrow> bytes \<Rightarrow> 'a MockParameter list \<Rightarrow> ((int \<times> bytes \<times> gerr option) \<times> 'a MockParameter list) option" where
  "proccessCommand cd payload mps =
     (if payload = [] then Some ((520, invalidInputPayload, None), mps)
      else case cdUnmarshal cd payload of
        Inl e \<Rightarrow> Some ((520, [], Some e), mps)
      | Inr None \<Rightarrow> None
      | Inr (Some t) \<Rightarrow>
          if tCommand t = ''GET'' then Some (get_mock (cdMarshal cd) mps t, mps)
          else if tCommand t = ''SET'' then Some (set_mock (cdMarshal cd) mps t)
          else Some ((520, unsupportedPayload (tCommand t), None), mps))"

text \<open>The egress of a handler that \<open>New\<close> returned is not nil.\<close>

definition HandleWrp_mock ::
  "'a tr181Codec \<Rightarrow> 's mockHandler \<Rightarrow> message \<Rightarrow> 'a MockParameter list \<times> 's
   \<Rightarrow> (gerr option \<times> ('a MockParameter list \<times> 's)) option" where
  "HandleWrp_mock cd h msg st =
     (case st of (mps, s) \<Rightarrow>
        (case proccessCommand cd (mPayload msg) mps of
           None \<Rightarrow> None
         | Some ((code, response, Some e), mps') \<Rightarrow> Some (errorsJoin [Some e, Some ErrNotHandled], (mps', s))
         | Some ((code, response, None), mps') \<Rightarrow>
             (case the (mkEgress h) (reply (mkSource h) code response msg) s of
                (Some e, s') \<Rightarrow> Some (errorsJoin [Some e, Some ErrNotHandled], (mps', s'))
              | (None, s') \<Rightarrow> Some (None, (mps', s')))))"

subsection \<open>GET in closed form\<close>

definition hits :: "string \<Rightarrow> 'a MockParameter \<Rightarrow> bool" where
  "hits name mp \<longleftrightarrow> name \<noteq> [] \<and> HasPrefix (mpName mp) name"

lemma get_params_eq:
  "get_params name mps (found, failed, ok) =
     (found \<or> (\<exists>mp\<in>set mps. hits name mp \<and> readable mp),
      failed @ map mpName (filter (\<lambda>mp. hits name mp \<and> \<not> readable mp \<and> last name \<noteq> CHR 0x2E) mps),
      ok @ map getResult (filter (\<lambda>mp. hits name mp \<and> readable mp) mps))"
  by (induction mps arbitrary: found failed ok) (auto simp: hits_def)

text \<open>
  The names a request fails on: the unreadable parameters that a plain name (not a wildcard)
  reaches, and the name itself when it reaches nothing readable.
\<close>

definition failedBy :: "'a MockParameter list \<Rightarrow> string \<Rightarrow> string list" where
  "failedBy mps name =
     map mpName (filter (\<lambda>mp. hits name mp \<and> \<not> readable mp \<and> last name \<noteq> CHR 0x2E) mps)
     @ (if \<exists>mp\<in>set mps. hits name mp \<and> readable mp then [] else [name])"

lemma get_names_eq:
  "get_names mps names (failed, ok) =
     (failed @ concat (map (failedBy mps) names),
      ok @ concat (map (\<lambda>name. map getResult (filter (\<lambda>mp. hits name mp \<and> readable mp) mps)) names))"
  by (induction names arbitrary: failed ok) (auto simp: get_params_eq failedBy_def)

lemma failedBy_Nil:
  "failedBy mps name = [] \<longleftrightarrow>
     (\<exists>mp\<in>set mps. hits name mp \<and> readable mp)
     \<and> (last name = CHR 0x2E \<or> (\<forall>mp\<in>set mps. hits name mp \<longrightarrow> readable mp))"
  by (auto simp: failedBy_def filter_empty_conv)

subsection \<open>SET in closed form\<close>

definition indices :: "('b \<Rightarrow> bool) \<Rightarrow> nat \<Rightarrow> 'b list \<Rightarrow> nat list" where
  "indices P i xs = filter (\<lambda>k. P (xs ! (k - i))) [i..<i + length xs]"

lemma indices_simps [simp]:
  "indices P i [] = []"
  "indices P i (x # xs) = (if P x then [i] else []) @ indices P (Suc i) xs"
proof -
  have "filter (\<lambda>k. P ((x # xs) ! (k - i))) [Suc i..<Suc (i + length xs)] =
        filter (\<lambda>k. P (xs ! (k - Suc i))) [Suc i..<Suc (i + length xs)]"
  proof (rule filter_cong)
    fix k assume "k \<in> set [Suc i..<Suc (i + length xs)]"
    then have "k - i = Suc (k - Suc i)" by auto
    then show "P ((x # xs) ! (k - i)) = P (xs ! (k - Suc i))" by simp
  qed simp
  then show "indices P i (x # xs) = (if P x then [i] else []) @ indices P (Suc i) xs"
    by (simp add: indices_def upt_conv_Cons del: upt_Suc)
qed (simp add: indices_def)

lemma set_indices: "k \<in> set (indices P 0 xs) \<longleftrightarrow> k < length xs \<and> P (xs ! k)"
  by (auto simp: indices_def)

lemma set_scan_eq:
  "set_scan p i mps (found, wr, failed) =
     (found \<or> (\<exists>mp\<in>set mps. mpName mp = pName p \<and> writable mp),
      wr @ indices (\<lambda>mp. mpName mp = pName p \<and> writable mp) i mps,
      failed @ map (\<lambda>mp. messageParam (mpName mp) ''Parameter is not writable'')
                 (filter (\<lambda>mp. mpName mp = pName p \<and> \<not> writable mp) mps))"
  by (induction mps arbitrary: i found wr failed) auto

definition setFailures :: "'a MockParameter list \<Rightarrow> 'a Parameter \<Rightarrow> 'a Parameter list" where
  "setFailures mps p =
     map (\<lambda>mp. messageParam (mpName mp) ''Parameter is not writable'')
       (filter (\<lambda>mp. mpName mp = pName p \<and> \<not> writable mp) mps)
     @ (if \<exists>mp\<in>set mps. mpName mp = pName p \<and> writable mp then []
        else [messageParam (pName p) ''Invalid parameter name''])"

lemma set_check_eq:
  "set_check mps ps (wr, failed) =
     (wr @ concat (map (\<lambda>p. indices (\<lambda>mp. mpName mp = pName p \<and> writable mp) 0 mps) ps),
      failed @ concat (map (setFailures mps) ps))"
  by (induction ps arbitrary: wr failed) (auto simp: set_scan_eq setFailures_def)

text \<open>A parameter can be set when it exists and every entry of that name is writable.\<close>

definition settable :: "'a MockParameter list \<Rightarrow> 'a Parameter \<Rightarrow> bool" where
  "settable mps p \<longleftrightarrow>
     (\<exists>mp\<in>set mps. mpName mp = pName p) \<and> (\<forall>mp\<in>set mps. mpName mp = pName p \<longrightarrow> writable mp)"

lemma setFailures_Nil: "setFailures mps p = [] \<longleftrightarrow> settable mps p"
  by (auto simp: setFailures_def settable_def filter_empty_conv)

lemma assign_simps [simp]:
  "mpName (assign p mp) = mpName mp" "mpAccess (assign p mp) = mpAccess mp" "mpValue (assign p mp) = pValue p"
  "mpDataType (assign p mp) = pDataType p" "mpAttributes (assign p mp) = pAttributes p"
  "assign p (assign p mp) = assign p mp" "mpDelay (assign p mp) = mpDelay mp"
  by (simp_all add: assign_def)

lemma set_one_nth:
  assumes "set wr \<subseteq> {..<length mps}"
  shows "length (fst (set_one p wr (mps, out))) = length mps \<and>
         (\<forall>j<length mps. fst (set_one p wr (mps, out)) ! j =
            (if j \<in> set wr \<and> mpName (mps ! j) = pName p then assign p (mps ! j) else mps ! j))"
  using assms
proof (induction wr arbitrary: mps out)
  case Nil
  then show ?case by simp
next
  case (Cons i wr)
  have "set wr \<subseteq> {..<length (mps[i := assign p (mps ! i)])}" using Cons.prems by simp
  with Cons.IH[of mps out] Cons.IH[of "mps[i := assign p (mps ! i)]"] Cons.prems show ?case
    by (auto simp: Let_def nth_list_update)
qed

definition setSpec :: "'a Parameter list \<Rightarrow> 'a MockParameter \<Rightarrow> 'a MockParameter" where
  "setSpec ps mp = fold (\<lambda>p mp. if mpName mp = pName p then assign p mp else mp) ps mp"

lemma setSpec_simps [simp]:
  "mpName (setSpec ps mp) = mpName mp" "mpAccess (setSpec ps mp) = mpAccess mp" "mpDelay (setSpec ps mp) = mpDelay mp"
  by (induction ps arbitrary: mp) (simp_all add: setSpec_def)

lemma set_apply_nth:
  assumes "set wr \<subseteq> {..<length mps}"
    and "\<And>j. j < length mps \<Longrightarrow> mpName (mps ! j) \<in> pName ` set ps \<Longrightarrow> j \<in> set wr"
  shows "fst (set_apply ps wr (mps, out)) = map (setSpec ps) mps"
  using assms
proof (induction ps arbitrary: mps out)
  case Nil
  then show ?case by (simp add: setSpec_def)
next
  case (Cons p ps)
  obtain mps' out' where one: "set_one p wr (mps, out) = (mps', out')" by fastforce
  from set_one_nth[OF Cons.prems(1), of p out] one have
    len: "length mps' = length mps" and
    nth: "\<And>j. j < length mps \<Longrightarrow> mps' ! j =
       (if j \<in> set wr \<and> mpName (mps ! j) = pName p then assign p (mps ! j) else mps ! j)" by auto
  have nth': "mps' ! j = (if mpName (mps ! j) = pName p then assign p (mps ! j) else mps ! j)" if "j < length mps" for j
    using nth[OF that] Cons.prems(2)[OF that] by auto
  have "fst (set_apply ps wr (mps', out')) = map (setSpec ps) mps'"
  proof (rule Cons.IH)
    show "set wr \<subseteq> {..<length mps'}" using Cons.prems(1) len by simp
    show "j \<in> set wr" if "j < length mps'" "mpName (mps' ! j) \<in> pName ` set ps" for j
      using that len nth' Cons.prems(2)[of j] by (auto split: if_splits)
  qed
  moreover have "map (setSpec ps) mps' = map (setSpec (p # ps)) mps"
    by (rule nth_equalityI) (auto simp: len nth' setSpec_def)
  ultimately show ?case using one by simp
qed

lemma set_apply_nil: "set_apply ps [] acc = acc"
proof -
  have "set_one p [] acc = acc" for p by simp
  then show ?thesis by (induction ps) auto
qed

lemma setReply_state:
  "snd (setReply mps t) =
     (if list_all (settable mps) (tParameters t) then map (setSpec (tParameters t)) mps else mps)"
  and setReply_status: "tStatusCode (fst (setReply mps t)) =
     (if list_all (settable mps) (tParameters t) then 202 else 520)"
proof -
  let ?ps = "tParameters t"
  let ?wr = "concat (map (\<lambda>p. indices (\<lambda>mp. mpName mp = pName p \<and> writable mp) 0 mps) ?ps)"
  have f: "concat (map (setFailures mps) ?ps) = [] \<longleftrightarrow> list_all (settable mps) ?ps"
    by (simp add: list_all_iff setFailures_Nil)
  have ok: "fst (set_apply ?ps ?wr (mps, out)) = map (setSpec ?ps) mps" if "list_all (settable mps) ?ps" for out
  proof (rule set_apply_nth)
    show "set ?wr \<subseteq> {..<length mps}" by (auto simp: set_indices)
    show "j \<in> set ?wr" if "j < length mps" "mpName (mps ! j) \<in> pName ` set ?ps" for j
      using that \<open>list_all (settable mps) ?ps\<close> by (auto simp: set_indices settable_def list_all_iff)
  qed
  show "snd (setReply mps t) = (if list_all (settable mps) ?ps then map (setSpec ?ps) mps else mps)"
    using f ok[of "[]"] by (auto simp: setReply_def set_check_eq set_apply_nil split: prod.splits)
  show "tStatusCode (fst (setReply mps t)) = (if list_all (settable mps) ?ps then 202 else 520)"
    using f by (auto simp: setReply_def set_check_eq split: prod.splits)
qed

subsection \<open>Properties\<close>

text \<open>
  A GET is answered 200 exactly when every requested name reaches a readable parameter and no plain name
  reaches an unreadable one; the reply then lists the readable parameters reached, name by
  name in model order, and otherwise carries a single message and no values.
\<close>

theorem getReply_spec:
  "if \<forall>name\<in>set (tNames t). (\<exists>mp\<in>set mps. hits name mp \<and> readable mp)
        \<and> (last name = CHR 0x2E \<or> (\<forall>mp\<in>set mps. hits name mp \<longrightarrow> readable mp))
   then tStatusCode (getReply mps t) = 200 \<and> tParameters (getReply mps t) =
          concat (map (\<lambda>name. map getResult (filter (\<lambda>mp. hits name mp \<and> readable mp) mps)) (tNames t))
   else tStatusCode (getReply mps t) = 520 \<and> (\<exists>text. tParameters (getReply mps t) = [messageParam [] text])"
proof -
  have "concat (map (failedBy mps) (tNames t)) = [] \<longleftrightarrow>
      (\<forall>name\<in>set (tNames t). (\<exists>mp\<in>set mps. hits name mp \<and> readable mp)
        \<and> (last name = CHR 0x2E \<or> (\<forall>mp\<in>set mps. hits name mp \<longrightarrow> readable mp)))"
    by (simp add: failedBy_Nil)
  then show ?thesis by (auto simp: getReply_def get_names_eq)
qed

definition exampleModel :: "unit MockParameter list" where
  "exampleModel =
     [\<lparr>mpName = ''Device.A'', mpValue = ''1'', mpAccess = ''rw'', mpDataType = 0, mpAttributes = None, mpDelay = 0\<rparr>,
      \<lparr>mpName = ''Device.B'', mpValue = ''2'', mpAccess = ''r'', mpDataType = 0, mpAttributes = None, mpDelay = 0\<rparr>]"

definition exampleRequest :: "string list \<Rightarrow> string list \<Rightarrow> unit Tr181Payload" where
  "exampleRequest names sets =
     \<lparr>tCommand = ''GET'', tNames = names, tParameters = map (\<lambda>n. (messageParam n [])\<lparr>pValue := ''9''\<rparr>) sets, tStatusCode = 0\<rparr>"

theorem getReply_spec_witness:
  "tStatusCode (getReply exampleModel (exampleRequest [''Device.''] [])) = 200
   \<and> length (tParameters (getReply exampleModel (exampleRequest [''Device.''] []))) = 2"
  using getReply_spec[of "exampleRequest [''Device.''] []" exampleModel]
  by (simp add: exampleModel_def exampleRequest_def hits_def readable_def HasPrefix_def)

text \<open>
  A SET is all or nothing. If every parameter named is known and every entry of its name is
  writable, the status is 202 and each entry takes the last value, type and attributes requested
  for its name while every other entry stays; otherwise the status is 520 and nothing changes.
\<close>

theorem setReply_atomic:
  "if list_all (settable mps) (tParameters t)
   then tStatusCode (fst (setReply mps t)) = 202 \<and> snd (setReply mps t) = map (setSpec (tParameters t)) mps
   else tStatusCode (fst (setReply mps t)) = 520 \<and> snd (setReply mps t) = mps"
  by (simp add: setReply_state setReply_status)

text \<open>
  Set, then get: after an accepted SET whose last entry for a name is \<open>p\<close>, a GET of exactly that name,
  when its entries are readable and no longer name extends it, returns the value, type and attributes of \<open>p\<close>.
\<close>

theorem set_get_roundtrip:
  assumes "list_all (settable mps) (ps @ [p])" and "pName p \<noteq> []"
    and "\<forall>mp\<in>set mps. HasPrefix (mpName mp) (pName p) \<longrightarrow> mpName mp = pName p \<and> readable mp"
    and "tParameters t = ps @ [p]" and "tNames t' = [pName p]"
  shows "tStatusCode (getReply (snd (setReply mps t)) t') = 200
       \<and> tParameters (getReply (snd (setReply mps t)) t') \<noteq> []
       \<and> (\<forall>r\<in>set (tParameters (getReply (snd (setReply mps t)) t')).
            pName r = pName p \<and> pValue r = pValue p \<and> pDataType r = pDataType p \<and> pAttributes r = pAttributes p)"
proof -
  let ?mps = "map (setSpec (ps @ [p])) mps"
  have st: "snd (setReply mps t) = ?mps" using assms(1,4) by (simp add: setReply_state)
  have hit: "hits (pName p) (setSpec (ps @ [p]) mp) \<longleftrightarrow> HasPrefix (mpName mp) (pName p)" for mp
    using assms(2) by (simp add: hits_def)
  have rd: "readable (setSpec (ps @ [p]) mp) = readable mp" for mp by (simp add: readable_def)
  obtain mp where mp: "mp \<in> set mps" "mpName mp = pName p" using assms(1) by (auto simp: settable_def)
  have pre: "HasPrefix (mpName mp) (pName p)" using mp by (simp add: HasPrefix_def)
  have all: "failedBy ?mps (pName p) = []"
    unfolding failedBy_Nil using mp pre assms(3) by (auto simp: hit rd)
  have val: "pName (getResult (setSpec (ps @ [p]) x)) = pName p
      \<and> pValue (getResult (setSpec (ps @ [p]) x)) = pValue p
      \<and> pDataType (getResult (setSpec (ps @ [p]) x)) = pDataType p
      \<and> pAttributes (getResult (setSpec (ps @ [p]) x)) = pAttributes p" if "mpName x = pName p" for x
  proof -
    have "setSpec (ps @ [p]) x = assign p (setSpec ps x)"
      using that setSpec_simps(1)[of ps x] by (simp add: setSpec_def)
    with that show ?thesis by (simp add: getResult_def)
  qed
  have rep: "getReply ?mps t' = \<lparr>tCommand = tCommand t', tNames = tNames t',
      tParameters = map getResult (filter (\<lambda>mp. hits (pName p) mp \<and> readable mp) ?mps), tStatusCode = 200\<rparr>"
    using all assms(5) by (simp add: getReply_def get_names_eq)
  show ?thesis
    unfolding st rep using mp pre assms(3) val by (auto simp: filter_empty_conv hit rd)
qed

theorem set_get_roundtrip_witness:
  "pValue (tParameters (getReply (snd (setReply exampleModel (exampleRequest [] [''Device.A''])))
       (exampleRequest [''Device.A''] [])) ! 0) = ''9''"
proof -
  let ?X = "tParameters (getReply (snd (setReply exampleModel (exampleRequest [] [''Device.A'']))) (exampleRequest [''Device.A''] []))"
  have X: "?X \<noteq> []" "\<forall>r\<in>set ?X. pValue r = ''9''"
    using set_get_roundtrip[of exampleModel "[]" "(messageParam ''Device.A'' [])\<lparr>pValue := ''9''\<rparr>"
        "exampleRequest [] [''Device.A'']" "exampleRequest [''Device.A''] []"]
    by (simp_all add: exampleModel_def exampleRequest_def settable_def writable_def readable_def messageParam_def HasPrefix_def)
  then show ?thesis by simp
qed

text \<open>
  The mock handler panics exactly on a non-empty payload that decodes to the JSON null, since the decoder then leaves
  the payload pointer nil.
\<close>

theorem HandleWrp_mock_panics:
  "HandleWrp_mock cd h msg st = None \<longleftrightarrow> mPayload msg \<noteq> [] \<and> cdUnmarshal cd (mPayload msg) = Inr None"
proof -
  have "HandleWrp_mock cd h msg st = None \<longleftrightarrow> proccessCommand cd (mPayload msg) (fst st) = None"
    by (auto simp: HandleWrp_mock_def split: option.splits prod.splits)
  also have "\<dots> \<longleftrightarrow> mPayload msg \<noteq> [] \<and> cdUnmarshal cd (mPayload msg) = Inr None"
    by (auto simp: proccessCommand_def split: sum.splits option.splits) (metis surj_pair)+
  finally show ?thesis .
qed

text \<open>
  The mock handler either sends one reply to the requester through its egress or returns an error that is
  \<open>ErrNotHandled\<close>, so that the missing handler can answer; an egress failure is also reported as not handled.
\<close>

theorem HandleWrp_mock_replies_or_unhandled:
  assumes "mkEgress h = Some egress" and "HandleWrp_mock cd h msg (mps, s) = Some (err, (mps', s'))"
  shows "(\<exists>code response. (err = None \<longleftrightarrow> fst (egress (reply (mkSource h) code response msg) s) = None)
            \<and> s' = snd (egress (reply (mkSource h) code response msg) s) \<and> (err \<noteq> None \<longrightarrow> notHandled err))
       \<or> (notHandled err \<and> s' = s)"
  using assms
  by (auto simp: HandleWrp_mock_def split: option.splits prod.splits) (metis fst_conv snd_conv option.distinct(1))+

end
