(* ===== verification/Frame.thy ===== *)
theory Frame
  imports Prelude
begin

unbundle bit_operations_syntax

text \<open>
  \<open>internal/nhooyr.io/websocket/frame.go\<close>: the frame header codec and the masking routine. A buffered reader
  is the list of the bytes still to come, after which reading fails; a writer is a function that
  takes bytes and may fail. Payload lengths are the signed value of a 64-bit word, the mask key
  is a 32-bit word in little endian order.
\<close>

subsection \<open>encoding/binary\<close>

fun le_word :: "bytes \<Rightarrow> 'a::len word" where
  "le_word [] = 0"
| "le_word (b # bs) = ucast b OR push_bit 8 (le_word bs)"

fun le_put :: "nat \<Rightarrow> 'a::len word \<Rightarrow> bytes" where
  "le_put 0 w = []"
| "le_put (Suc n) w = ucast w # le_put n (drop_bit 8 w)"

definition be_word :: "bytes \<Rightarrow> 'a::len word" where "be_word bs = le_word (rev bs)"
definition be_put :: "nat \<Rightarrow> 'a::len word \<Rightarrow> bytes" where "be_put n w = rev (le_put n w)"

subsection \<open>Readers and writers\<close>

definition EOF :: gerr where "EOF = Sentinel ''io.EOF''"
definition ErrUnexpectedEOF :: gerr where "ErrUnexpectedEOF = Sentinel ''io.ErrUnexpectedEOF''"

fun ReadByte :: "bytes \<Rightarrow> gerr + (byte \<times> bytes)" where
  "ReadByte [] = Inl EOF"
| "ReadByte (b # r) = Inr (b, r)"

definition ReadFull :: "nat \<Rightarrow> bytes \<Rightarrow> gerr + (bytes \<times> bytes)" where
  "ReadFull n r =
     (if n \<le> length r then Inr (take n r, drop n r)
      else Inl (if r = [] then EOF else ErrUnexpectedEOF))"

type_synonym 'w writer = "bytes \<Rightarrow> 'w \<Rightarrow> gerr option \<times> 'w"

text \<open>A writer that keeps what it is given.\<close>

definition appendWriter :: "bytes writer" where "appendWriter b w = (None, w @ b)"

text \<open>Sequencing of writes with the early return on an error.\<close>

definition andThen :: "('w \<Rightarrow> gerr option \<times> 'w) \<Rightarrow> ('w \<Rightarrow> gerr option \<times> 'w) \<Rightarrow> 'w \<Rightarrow> gerr option \<times> 'w" where
  "andThen f g w = (case f w of (Some e, w') \<Rightarrow> (Some e, w') | (None, w') \<Rightarrow> g w')"

text \<open>\<open>errd.Wrap\<close>: the deferred call that wraps a non-nil error.\<close>

definition errdWrap :: "string \<Rightarrow> gerr option \<Rightarrow> gerr option" where
  "errdWrap text err = map_option (Wrapped text) err"

subsection \<open>Headers\<close>

type_synonym opcode = int

definition opContinuation :: opcode where "opContinuation = 0"
definition opText :: opcode where "opText = 1"
definition opBinary :: opcode where "opBinary = 2"
definition opClose :: opcode where "opClose = 8"
definition opPing :: opcode where "opPing = 9"
definition opPong :: opcode where "opPong = 10"

lemmas opcode_defs = opContinuation_def opText_def opBinary_def opClose_def opPing_def opPong_def

record header =
  fin :: bool
  rsv1 :: bool
  rsv2 :: bool
  rsv3 :: bool
  hopcode :: opcode
  payloadLength :: int
  masked :: bool
  maskKey :: "32 word"

definition readLength :: "byte \<Rightarrow> bytes \<Rightarrow> gerr + (int \<times> bytes)" where
  "readLength b r =
     (let payloadLength = b AND NOT 128 in
      if payloadLength < 126 then Inr (uint payloadLength, r)
      else if payloadLength = 126
      then (case ReadFull 2 r of Inl e \<Rightarrow> Inl e | Inr (buf, r') \<Rightarrow> Inr (uint (be_word buf :: 16 word), r'))
      else (case ReadFull 8 r of Inl e \<Rightarrow> Inl e | Inr (buf, r') \<Rightarrow> Inr (sint (be_word buf :: 64 word), r')))"

definition readFrameHeader_inner :: "bytes \<Rightarrow> gerr + (header \<times> bytes)" where
  "readFrameHeader_inner r =
     (case ReadByte r of
        Inl e \<Rightarrow> Inl e
      | Inr (b, r1) \<Rightarrow>
          (case ReadByte r1 of
             Inl e \<Rightarrow> Inl e
           | Inr (b', r2) \<Rightarrow>
               (case readLength b' r2 of
                  Inl e \<Rightarrow> Inl e
                | Inr (n, r3) \<Rightarrow>
                    (let h = \<lparr>fin = (b AND 128 \<noteq> 0), rsv1 = (b AND 64 \<noteq> 0), rsv2 = (b AND 32 \<noteq> 0),
                              rsv3 = (b AND 16 \<noteq> 0), hopcode = uint (b AND 15), payloadLength = n,
                              masked = (b' AND 128 \<noteq> 0), maskKey = 0\<rparr>
                     in if n < 0 then Inl (Plain (''received negative payload length: '' @ show_int n))
                        else if masked h
                        then (case ReadFull 4 r3 of
                                Inl e \<Rightarrow> Inl e
                              | Inr (buf, r4) \<Rightarrow> Inr (h\<lparr>maskKey := le_word buf\<rparr>, r4))
                        else Inr (h, r3)))))"

definition readFrameHeader :: "bytes \<Rightarrow> gerr + (header \<times> bytes)" where
  "readFrameHeader r =
     (case readFrameHeader_inner r of
        Inl e \<Rightarrow> Inl (Wrapped ''failed to read frame header'' e) | Inr x \<Rightarrow> Inr x)"

definition maxControlPayload :: int where "maxControlPayload = 125"

definition firstByte :: "header \<Rightarrow> byte" where
  "firstByte h = (if fin h then 128 else 0) OR (if rsv1 h then 64 else 0) OR (if rsv2 h then 32 else 0)
     OR (if rsv3 h then 16 else 0) OR word_of_int (hopcode h)"

definition lengthByte :: "header \<Rightarrow> byte" where
  "lengthByte h = (if masked h then 128 else 0) OR
     (if payloadLength h > 65535 then 127
      else if payloadLength h > 125 then 126
      else if payloadLength h \<ge> 0 then word_of_int (payloadLength h) else 0)"

definition extendedLength :: "header \<Rightarrow> bytes" where
  "extendedLength h =
     (if payloadLength h > 65535 then be_put 8 (word_of_int (payloadLength h) :: 64 word)
      else if payloadLength h > 125 then be_put 2 (word_of_int (payloadLength h) :: 16 word)
      else [])"

text \<open>An empty write does not happen: the two last writes are guarded as in the source.\<close>

definition writeFrameHeader :: "header \<Rightarrow> 'w writer \<Rightarrow> 'w \<Rightarrow> gerr option \<times> 'w" where
  "writeFrameHeader h write w =
     (case andThen (write [firstByte h])
            (andThen (write [lengthByte h])
              (andThen (if payloadLength h > 125 then write (extendedLength h) else Pair None)
                (if masked h then write (le_put 4 (maskKey h)) else Pair None))) w of
        (err, w') \<Rightarrow> (errdWrap ''failed to write frame header'' err, w'))"

subsection \<open>Masking\<close>

text \<open>
  The unrolled loops work in place on a slice that shrinks from the left; here a loop returns
  the bytes it has rewritten and the bytes that remain. \<open>xorWords n\<close> is the straight-line body that treats \<open>n\<close>
  consecutive 64-bit words.
\<close>

fun xorWords :: "nat \<Rightarrow> 64 word \<Rightarrow> bytes \<Rightarrow> bytes" where
  "xorWords 0 key64 b = []"
| "xorWords (Suc n) key64 b = le_put 8 (le_word (take 8 b) XOR key64) @ xorWords n key64 (drop 8 b)"

text \<open>\<open>for len(b) >= 8 * n\<close> over that body, for \<open>n\<close> at least 1.\<close>

function maskLoop :: "nat \<Rightarrow> 64 word \<Rightarrow> bytes \<Rightarrow> bytes \<times> bytes" where
  "maskLoop n key64 b =
     (if 0 < n \<and> 8 * n \<le> length b
      then (case maskLoop n key64 (drop (8 * n) b) of
              (out, rest) \<Rightarrow> (xorWords n key64 (take (8 * n) b) @ out, rest))
      else ([], b))"
  by pat_completeness auto
termination by (relation "measure (\<lambda>(n, key64, b). length b)") auto

function maskLoop4 :: "32 word \<Rightarrow> bytes \<Rightarrow> bytes \<times> bytes" where
  "maskLoop4 key b =
     (if 4 \<le> length b
      then (case maskLoop4 key (drop 4 b) of
              (out, rest) \<Rightarrow> (le_put 4 (le_word (take 4 b) XOR key) @ out, rest))
      else ([], b))"
  by pat_completeness auto
termination by (relation "measure (\<lambda>(key, b). length b)") auto

declare maskLoop.simps [simp del] maskLoop4.simps [simp del]

text \<open>\<open>bits.RotateLeft32(key, -8)\<close> rotates right by eight.\<close>

fun maskTail :: "32 word \<Rightarrow> bytes \<Rightarrow> bytes \<times> 32 word" where
  "maskTail key [] = ([], key)"
| "maskTail key (b # bs) =
     (case maskTail (word_rotr 8 key) bs of (out, key') \<Rightarrow> ((b XOR ucast key) # out, key'))"

definition maskWords :: "32 word \<Rightarrow> bytes \<Rightarrow> bytes \<times> bytes" where
  "maskWords key b =
     (if 8 \<le> length b
      then let key64 = push_bit 32 (ucast key) OR (ucast key :: 64 word);
               (o1, b1) = maskLoop 16 key64 b;
               (o2, b2) = maskLoop 8 key64 b1;
               (o3, b3) = maskLoop 4 key64 b2;
               (o4, b4) = maskLoop 2 key64 b3;
               (o5, b5) = maskLoop 1 key64 b4
           in (o1 @ o2 @ o3 @ o4 @ o5, b5)
      else ([], b))"

definition mask_frame :: "32 word \<Rightarrow> bytes \<Rightarrow> bytes \<times> 32 word" where
  "mask_frame key b =
     (let (o1, b1) = maskWords key b;
          (o2, b2) = maskLoop4 key b1;
          (o3, key') = maskTail key b2
      in (o1 @ o2 @ o3, key'))"

subsection \<open>Words and bytes\<close>

lemma length_le_put [simp]: "length (le_put n w) = n"
  by (induction n arbitrary: w) auto

lemma drop_bit_xor': "drop_bit n (v XOR w) = drop_bit n v XOR drop_bit n (w::'a::len word)"
  by (rule bit_word_eqI) (simp add: bit_simps)

lemma le_put_xor: "le_put n (v XOR w) = map2 (XOR) (le_put n v) (le_put n w)"
proof (induction n arbitrary: v w)
  case (Suc n)
  have "(ucast (v XOR w) :: 8 word) = ucast v XOR ucast w" by (rule bit_word_eqI) (simp add: bit_simps)
  with Suc show ?case by (simp add: drop_bit_xor')
qed simp

lemma bit_le_word: "bit (le_word bs :: 'a::len word) n \<longleftrightarrow>
   n < LENGTH('a) \<and> n div 8 < length bs \<and> bit (bs ! (n div 8)) (n mod 8)"
proof (induction bs arbitrary: n)
  case (Cons b bs)
  show ?case
  proof (cases "n < 8")
    case True
    then show ?thesis by (auto simp: bit_simps)
  next
    case False
    then have "n div 8 = Suc ((n - 8) div 8)" "n mod 8 = (n - 8) mod 8" "\<not> bit b n"
      using bit_imp_le_length[of b n] by (auto simp: le_div_geq le_mod_geq)
    with False show ?thesis using Cons.IH[of "n - 8"] by (auto simp: bit_simps)
  qed
qed simp

lemma nth_le_put: "i < n \<Longrightarrow> le_put n w ! i = ucast (drop_bit (8 * i) w)"
proof (induction n arbitrary: w i)
  case (Suc n)
  then show ?case by (cases i) (auto simp: add.commute)
qed simp

lemma le_put_word:
  assumes "8 * length bs \<le> LENGTH('a)"
  shows "le_put (length bs) (le_word bs :: 'a::len word) = bs"
proof (rule nth_equalityI)
  fix i assume i: "i < length (le_put (length bs) (le_word bs :: 'a word))"
  have "(ucast (drop_bit (8 * i) (le_word bs :: 'a word)) :: 8 word) = bs ! i"
  proof (rule bit_word_eqI)
    fix k assume "k < LENGTH(8)"
    then have k: "k < 8" by simp
    have "8 * i + k < LENGTH('a)" using assms i k by simp
    with k i show "bit (ucast (drop_bit (8 * i) (le_word bs :: 'a word)) :: 8 word) k = bit (bs ! i) k"
      by (simp add: bit_simps bit_le_word)
  qed
  with i show "le_put (length bs) (le_word bs :: 'a word) ! i = bs ! i" by (simp add: nth_le_put)
qed simp

lemma le_word_put:
  assumes "LENGTH('a) = 8 * n"
  shows "le_word (le_put n w) = (w :: 'a::len word)"
proof (rule bit_word_eqI)
  fix k assume "k < LENGTH('a)"
  with assms have "k div 8 < n" by simp
  moreover have "8 * (k div 8) + k mod 8 = k" by simp
  ultimately show "bit (le_word (le_put n w) :: 'a word) k = bit w k"
    using \<open>k < LENGTH('a)\<close> by (simp add: bit_le_word nth_le_put bit_simps)
qed

lemma le_xor_word:
  assumes "8 * length bs \<le> LENGTH('a)"
  shows "le_put (length bs) (le_word bs XOR (k :: 'a::len word)) = map2 (XOR) bs (le_put (length bs) k)"
  using le_put_word[OF assms] by (simp add: le_put_xor)

lemma rot4: "word_rotr 8 (word_rotr 8 (word_rotr 8 (word_rotr 8 (key :: 32 word)))) = key"
  by (rule bit_word_eqI) (simp add: bit_word_rotr_iff mod_simps)

lemma le_put_key: "le_put 4 (key :: 32 word) =
   [ucast key, ucast (word_rotr 8 key), ucast (word_rotr 8 (word_rotr 8 key)), ucast (word_rotr 8 (word_rotr 8 (word_rotr 8 key)))]"
proof -
  have a: "(ucast (drop_bit 8 key) :: 8 word) = ucast (word_rotr 8 key)"
    by (rule bit_word_eqI) (auto simp: bit_simps bit_word_rotr_iff add.commute)
  have b: "(ucast (drop_bit 16 key) :: 8 word) = ucast (word_rotr 8 (word_rotr 8 key))"
    by (rule bit_word_eqI) (auto simp: bit_simps bit_word_rotr_iff add.commute)
  have c: "(ucast (drop_bit 24 key) :: 8 word) = ucast (word_rotr 8 (word_rotr 8 (word_rotr 8 key)))"
    by (rule bit_word_eqI) (auto simp: bit_simps bit_word_rotr_iff add.commute)
  show ?thesis using a b c by (simp add: numeral_eq_Suc)
qed


subsection \<open>Masking word by word is masking byte by byte\<close>

lemma maskTail_append:
  "maskTail key (a @ b) =
     (case maskTail key a of (x, k) \<Rightarrow> (case maskTail k b of (y, k') \<Rightarrow> (x @ y, k')))"
  by (induction key a rule: maskTail.induct) (auto split: prod.splits)

lemma length_maskTail [simp]: "length (fst (maskTail key b)) = length b"
  by (induction key b rule: maskTail.induct) (auto split: prod.splits)

lemma length4_cases: "length b = 4 \<Longrightarrow> \<exists>w x y z. b = [w, x, y, z]"
  by (auto simp: numeral_eq_Suc length_Suc_conv)

lemma maskTail_4: "length b = 4 \<Longrightarrow> maskTail key b = (le_put 4 (le_word b XOR key), key)"
proof -
  assume len: "length b = 4"
  have "le_put 4 (le_word b XOR key) = map2 (XOR) b (le_put 4 key)"
    using le_xor_word[of b key] len by simp
  with length4_cases[OF len] show ?thesis by (auto simp: le_put_key rot4)
qed

lemma le_put_key64: "le_put 8 (push_bit 32 (ucast key) OR (ucast key :: 64 word)) = le_put 4 key @ le_put 4 (key :: 32 word)"
proof (rule nth_equalityI)
  fix i assume i: "i < length (le_put 8 (push_bit 32 (ucast key) OR (ucast key :: 64 word)))"
  show "le_put 8 (push_bit 32 (ucast key) OR (ucast key :: 64 word)) ! i = (le_put 4 key @ le_put 4 key) ! i"
  proof (rule bit_word_eqI)
    fix k assume "k < LENGTH(8)"
    then show "bit (le_put 8 (push_bit 32 (ucast key) OR (ucast key :: 64 word)) ! i) k = bit ((le_put 4 key @ le_put 4 key) ! i) k"
      using i bit_imp_le_length[of key "8 * i + k"] by (auto simp: nth_append nth_le_put bit_simps diff_mult_distrib2)
  qed
qed simp

lemma map2_append: "length xs = length us \<Longrightarrow> map2 f (xs @ ys) (us @ vs) = map2 f xs us @ map2 f ys vs"
  by simp

lemma maskTail_8:
  assumes "length b = 8"
  shows "maskTail key b = (le_put 8 (le_word b XOR (push_bit 32 (ucast key) OR (ucast key :: 64 word))), key)"
proof -
  let ?k = "push_bit 32 (ucast key) OR (ucast key :: 64 word)"
  obtain x y where b: "b = x @ y" "length x = 4" "length y = 4"
    by (metis append_take_drop_id assms length_drop length_take min.absorb2 numeral_Bit0 add_diff_cancel_left' le_add1)
  have "le_put 8 (le_word b XOR ?k) = map2 (XOR) b (le_put 4 key @ le_put 4 key)"
    using le_xor_word[of b ?k] assms by (simp add: le_put_key64)
  also have "\<dots> = map2 (XOR) x (le_put 4 key) @ map2 (XOR) y (le_put 4 key)" using b by simp
  also have "\<dots> = le_put 4 (le_word x XOR key) @ le_put 4 (le_word y XOR key)"
    using le_xor_word[of x key] le_xor_word[of y key] b by simp
  finally show ?thesis using maskTail_4[OF b(2), of key] maskTail_4[OF b(3), of key] b(1)
    by (simp add: maskTail_append)
qed

lemma maskTail_words:
  assumes "length b = 8 * n"
  shows "maskTail key b = (xorWords n (push_bit 32 (ucast key) OR ucast key) b, key)"
  using assms
proof (induction n arbitrary: b)
  case (Suc n)
  have "b = take 8 b @ drop 8 b" by simp
  moreover have "maskTail key (take 8 b) = (le_put 8 (le_word (take 8 b) XOR (push_bit 32 (ucast key) OR (ucast key :: 64 word))), key)"
    using Suc.prems by (intro maskTail_8) simp
  moreover have "maskTail key (drop 8 b) = (xorWords n (push_bit 32 (ucast key) OR ucast key) (drop 8 b), key)"
    using Suc.prems by (intro Suc.IH) simp
  ultimately show ?case using maskTail_append[of key "take 8 b" "drop 8 b"] by simp
qed simp

text \<open>What a loop has done: the bytes it consumed are masked with the key in its original rotation.\<close>

definition maskedPrefix :: "32 word \<Rightarrow> bytes \<Rightarrow> bytes \<times> bytes \<Rightarrow> bool" where
  "maskedPrefix key b = (\<lambda>(out, rest). \<exists>pre. b = pre @ rest \<and> maskTail key pre = (out, key))"

lemma maskedPrefix_trans:
  assumes "maskedPrefix key b (o1, b1)" and "maskedPrefix key b1 (o2, b2)"
  shows "maskedPrefix key b (o1 @ o2, b2)"
proof -
  obtain p1 p2 where "b = p1 @ b1" "maskTail key p1 = (o1, key)" "b1 = p2 @ b2" "maskTail key p2 = (o2, key)"
    using assms by (auto simp: maskedPrefix_def)
  then show ?thesis by (auto simp: maskedPrefix_def maskTail_append intro!: exI[of _ "p1 @ p2"])
qed

lemma maskedPrefix_refl [simp]: "maskedPrefix key b ([], b)"
  by (simp add: maskedPrefix_def)

lemma maskLoop_prefix: "maskedPrefix key b (maskLoop n (push_bit 32 (ucast key) OR ucast key) b)"
proof (induction "length b" arbitrary: b rule: less_induct)
  case less
  let ?k = "push_bit 32 (ucast key) OR ucast key"
  show ?case
  proof (cases "0 < n \<and> 8 * n \<le> length b")
    case True
    obtain out rest where rec: "maskLoop n ?k (drop (8 * n) b) = (out, rest)" by fastforce
    have "length (drop (8 * n) b) < length b" using True by auto
    from less[OF this] rec have "maskedPrefix key (drop (8 * n) b) (out, rest)" by simp
    moreover have "maskedPrefix key b (xorWords n ?k (take (8 * n) b), drop (8 * n) b)"
      using maskTail_words[of "take (8 * n) b" n key] True by (auto simp: maskedPrefix_def intro: exI[of _ "take (8 * n) b"])
    ultimately have "maskedPrefix key b (xorWords n ?k (take (8 * n) b) @ out, rest)" by (rule maskedPrefix_trans[rotated])
    with True rec show ?thesis by (simp add: maskLoop.simps[of n _ b])
  next
    case False
    then show ?thesis by (auto simp: maskLoop.simps[of n _ b])
  qed
qed

lemma maskLoop4_prefix: "maskedPrefix key b (maskLoop4 key b)"
proof (induction "length b" arbitrary: b rule: less_induct)
  case less
  show ?case
  proof (cases "4 \<le> length b")
    case True
    obtain out rest where rec: "maskLoop4 key (drop 4 b) = (out, rest)" by fastforce
    have "maskedPrefix key (drop 4 b) (out, rest)" using less[of "drop 4 b"] True rec by simp
    moreover have "maskedPrefix key b (le_put 4 (le_word (take 4 b) XOR key), drop 4 b)"
      using maskTail_4[of "take 4 b" key] True by (auto simp: maskedPrefix_def intro: exI[of _ "take 4 b"])
    ultimately have "maskedPrefix key b (le_put 4 (le_word (take 4 b) XOR key) @ out, rest)"
      by (rule maskedPrefix_trans[rotated])
    with True rec show ?thesis by (simp add: maskLoop4.simps[of _ b])
  next
    case False
    then show ?thesis by (simp add: maskLoop4.simps[of _ b])
  qed
qed

lemma maskWords_prefix: "maskedPrefix key b (maskWords key b)"
proof (cases "8 \<le> length b")
  case True
  let ?k = "push_bit 32 (ucast key) OR (ucast key :: 64 word)"
  obtain o1 b1 o2 b2 o3 b3 o4 b4 o5 b5 where
    l: "maskLoop 16 ?k b = (o1, b1)" "maskLoop 8 ?k b1 = (o2, b2)" "maskLoop 4 ?k b2 = (o3, b3)"
    "maskLoop 2 ?k b3 = (o4, b4)" "maskLoop 1 ?k b4 = (o5, b5)"
    by (metis surj_pair)
  have "maskedPrefix key b ((((o1 @ o2) @ o3) @ o4) @ o5, b5)"
    using maskLoop_prefix[of key] l by (metis maskedPrefix_trans)
  with True l show ?thesis by (simp add: maskWords_def Let_def)
next
  case False
  then show ?thesis by (simp add: maskWords_def)
qed

lemma mask_frame_eq: "mask_frame key b = maskTail key b"
proof -
  obtain o1 b1 o2 b2 where l: "maskWords key b = (o1, b1)" "maskLoop4 key b1 = (o2, b2)" by (metis surj_pair)
  from maskWords_prefix[of key b] maskLoop4_prefix[of key b1] l
  have "maskedPrefix key b (o1 @ o2, b2)" by (metis maskedPrefix_trans)
  then obtain pre where "b = pre @ b2" "maskTail key pre = (o1 @ o2, key)" by (auto simp: maskedPrefix_def)
  with l show ?thesis by (simp add: mask_frame_def maskTail_append split: prod.splits)
qed

lemma maskTail_involution: "fst (maskTail key (fst (maskTail key b))) = b"
proof (induction key b rule: maskTail.induct)
  case (2 key b bs)
  then show ?case by (auto split: prod.splits simp: xor.assoc)
qed simp

lemma le_put_rotr: "le_put 4 (word_rotr 8 (key :: 32 word)) = rotate1 (le_put 4 key)"
  by (simp add: le_put_key rot4)

lemma maskTail_key: "snd (maskTail key b) = word_rotr (8 * length b) key"
  by (induction key b rule: maskTail.induct)
     (auto split: prod.splits simp: word_rotr_word_rotr_eq add.commute intro: bit_word_eqI simp: bit_word_rotr_iff)

lemma maskTail_nth: "i < length b \<Longrightarrow> fst (maskTail key b) ! i = b ! i XOR le_put 4 key ! (i mod 4)"
proof (induction key b arbitrary: i rule: maskTail.induct)
  case (2 key b bs)
  show ?case
  proof (cases i)
    case 0
    then show ?thesis by (simp add: nth_le_put split: prod.splits)
  next
    case (Suc k)
    have "le_put 4 (word_rotr 8 key) ! (k mod 4) = le_put 4 key ! (Suc k mod 4)"
      by (simp add: le_put_rotr nth_rotate1 mod_Suc_eq)
    with 2 Suc show ?thesis by (auto split: prod.splits)
  qed
qed simp

lemma maskTail_bytes: "fst (maskTail key b) = map (\<lambda>i. b ! i XOR le_put 4 key ! (i mod 4)) [0..<length b]"
  by (rule nth_equalityI) (simp_all add: maskTail_nth)

subsection \<open>Header bytes\<close>

lemma ReadFull_append [simp]: "n = length b \<Longrightarrow> ReadFull n (b @ r) = Inr (b, r)"
  by (simp add: ReadFull_def)

lemma firstByte_decodes:
  assumes "0 \<le> hopcode h" and "hopcode h < 16"
  shows "(firstByte h AND 128 \<noteq> 0) = fin h" "(firstByte h AND 64 \<noteq> 0) = rsv1 h"
    "(firstByte h AND 32 \<noteq> 0) = rsv2 h" "(firstByte h AND 16 \<noteq> 0) = rsv3 h"
    "uint (firstByte h AND 15) = hopcode h"
proof -
  have "hopcode h \<in> set [0..15]" using assms by auto
  then have op: "hopcode h = 0 \<or> hopcode h = 1 \<or> hopcode h = 2 \<or> hopcode h = 3 \<or> hopcode h = 4 \<or> hopcode h = 5
     \<or> hopcode h = 6 \<or> hopcode h = 7 \<or> hopcode h = 8 \<or> hopcode h = 9 \<or> hopcode h = 10 \<or> hopcode h = 11
     \<or> hopcode h = 12 \<or> hopcode h = 13 \<or> hopcode h = 14 \<or> hopcode h = 15"
    by (simp add: upto.simps)
  show "(firstByte h AND 128 \<noteq> 0) = fin h" "(firstByte h AND 64 \<noteq> 0) = rsv1 h"
    "(firstByte h AND 32 \<noteq> 0) = rsv2 h" "(firstByte h AND 16 \<noteq> 0) = rsv3 h"
    "uint (firstByte h AND 15) = hopcode h"
    using op by (elim disjE; simp add: firstByte_def)+
qed

text \<open>A seven-bit value beside the mask flag.\<close>

lemma seven_bits:
  fixes x :: byte
  assumes "x < 128"
  shows "((if m then 128 else 0) OR x) AND NOT 128 = x" "((((if m then 128 else 0) OR x) AND 128) \<noteq> 0) = m"
proof -
  have "unat (take_bit 7 x) = unat x"
    using assms by (simp add: unsigned_take_bit_eq take_bit_nat_eq_self word_less_nat_alt)
  then have x: "take_bit 7 x = x" by (simp add: word_unat_eq_iff)
  have b: "bit (128 :: byte) n \<longleftrightarrow> n = 7" for n
    using bit_push_bit_iff[of 7 "1 :: byte" n] by (auto simp: bit_1_iff push_bit_eq_mult)
  have bi: "bit (128 :: int) n \<longleftrightarrow> n = 7" for n
    using bit_push_bit_iff[of 7 "1 :: int" n] by (auto simp: bit_1_iff push_bit_eq_mult)
  have nx: "bit x n \<Longrightarrow> n < 7" for n using x by (metis bit_take_bit_iff)
  show "((if m then 128 else 0) OR x) AND NOT 128 = x"
    by (rule bit_word_eqI) (use nx in \<open>auto simp: bit_simps b bi\<close>)
  have "bit (((if m then 128 else 0) OR x) AND 128) 7 = m" using nx[of 7] by (auto simp: bit_simps b)
  moreover have "\<not> bit (((if m then 128 else 0) OR x) AND 128) n" if "n \<noteq> 7" for n using that by (simp add: bit_simps b bi)
  ultimately show "((((if m then 128 else 0) OR x) AND 128) \<noteq> 0) = m"
    by (metis bit_0_eq bot_apply bot_bool_def bit_eq_iff)
qed

lemma be_word_put: "LENGTH('a) = 8 * n \<Longrightarrow> be_word (be_put n w) = (w :: 'a::len word)"
  by (simp add: be_word_def be_put_def le_word_put)

lemma length_be_put [simp]: "length (be_put n w) = n"
  by (simp add: be_put_def)

lemma readLength_encodes:
  assumes "0 \<le> payloadLength h" and "payloadLength h < 2 ^ 63"
  shows "readLength (lengthByte h) (extendedLength h @ r) = Inr (payloadLength h, r)"
    and "(lengthByte h AND 128 \<noteq> 0) = masked h"
proof -
  let ?n = "payloadLength h"
  define x :: byte where "x = (if ?n > 65535 then 127 else if ?n > 125 then 126 else word_of_int ?n)"
  have small: "uint (word_of_int ?n :: byte) = ?n" if "?n \<le> 125"
    using that assms(1) by (simp add: uint_word_of_int)
  have "x < 128"
  proof (cases "?n > 125")
    case True
    then show ?thesis by (simp add: x_def)
  next
    case False
    with small have "uint x \<le> 125" by (simp add: x_def)
    then show ?thesis by (simp add: word_less_alt)
  qed
  moreover have lb: "lengthByte h = (if masked h then 128 else 0) OR x" using assms(1) by (simp add: lengthByte_def x_def)
  ultimately have low: "lengthByte h AND NOT 128 = x" and flag: "(lengthByte h AND 128 \<noteq> 0) = masked h"
    using seven_bits[of x "masked h"] by simp_all
  then have low: "lengthByte h AND - 129 = x" by simp
  show "(lengthByte h AND 128 \<noteq> 0) = masked h" by (fact flag)
  consider "?n \<le> 125" | "125 < ?n" "?n \<le> 65535" | "65535 < ?n" by linarith
  then show "readLength (lengthByte h) (extendedLength h @ r) = Inr (?n, r)"
  proof cases
    case 1
    with small have "uint x = ?n" by (simp add: x_def)
    with 1 have "x < 126" by (simp add: word_less_alt)
    with 1 \<open>uint x = ?n\<close> show ?thesis by (simp add: readLength_def low extendedLength_def)
  next
    case 2
    then have "uint (word_of_int ?n :: 16 word) = ?n" using assms(1) by (simp add: uint_word_of_int)
    with 2 show ?thesis by (simp add: readLength_def low extendedLength_def x_def be_word_put)
  next
    case 3
    then have "sint (word_of_int ?n :: 64 word) = ?n"
      using assms by (simp add: signed_of_int signed_take_bit_int_eq_self)
    with 3 show ?thesis by (simp add: readLength_def low extendedLength_def x_def be_word_put)
  qed
qed

text \<open>The bytes of a header, and that the writer writes exactly them.\<close>

definition headerBytes :: "header \<Rightarrow> bytes" where
  "headerBytes h = [firstByte h, lengthByte h] @ extendedLength h @ (if masked h then le_put 4 (maskKey h) else [])"

lemma writeFrameHeader_append: "writeFrameHeader h appendWriter w = (None, w @ headerBytes h)"
  by (simp add: writeFrameHeader_def andThen_def appendWriter_def headerBytes_def extendedLength_def errdWrap_def)

definition wfHeader :: "header \<Rightarrow> bool" where
  "wfHeader h \<longleftrightarrow> 0 \<le> hopcode h \<and> hopcode h < 16 \<and> 0 \<le> payloadLength h \<and> payloadLength h < 2 ^ 63
     \<and> (\<not> masked h \<longrightarrow> maskKey h = 0)"

lemma readFrameHeader_headerBytes:
  assumes "wfHeader h"
  shows "readFrameHeader (headerBytes h @ r) = Inr (h, r)"
proof -
  have wf: "0 \<le> hopcode h" "hopcode h < 16" "0 \<le> payloadLength h" "payloadLength h < 2 ^ 63"
    "\<not> masked h \<Longrightarrow> maskKey h = 0" using assms by (auto simp: wfHeader_def)
  note d = firstByte_decodes[OF wf(1,2)]
  note l = readLength_encodes[OF wf(3,4)]
  have "readFrameHeader_inner (headerBytes h @ r) = Inr (h, r)"
  proof (cases "masked h")
    case True
    with wf d l(2) show ?thesis
      by (simp add: readFrameHeader_inner_def headerBytes_def l(1) Let_def le_word_put)
  next
    case False
    with wf d l(2) show ?thesis
      by (simp add: readFrameHeader_inner_def headerBytes_def l(1) Let_def)
  qed
  then show ?thesis by (simp add: readFrameHeader_def)
qed

lemma ReadByte_Inr: "ReadByte r = Inr (b, r') \<Longrightarrow> (r = b # r' \<Longrightarrow> P) \<Longrightarrow> P"
  by (cases r) auto

lemma low_nibble: "uint ((b :: byte) AND 15) < 16"
proof -
  have "b AND 15 \<le> 15" by (rule word_and_le1)
  then have "uint (b AND 15) \<le> 15" by (simp add: word_le_def)
  then show ?thesis by simp
qed

lemma readLength_bounds:
  assumes "readLength b r = Inr (n, r')"
  shows "\<exists>pre. r = pre @ r' \<and> length pre \<le> 8 \<and> n < 2 ^ 63"
proof -
  have u8: "uint (x :: byte) < 2 ^ 63" for x using uint_lt2p[of x] by simp
  have u16: "uint (x :: 16 word) < 2 ^ 63" for x using uint_lt2p[of x] by simp
  have s64: "sint (x :: 64 word) < 2 ^ 63" for x using sint_lt[of x] by simp
  show ?thesis
    using assms u8 u16 s64
    by (auto simp: readLength_def ReadFull_def Let_def split: if_splits
        intro: exI[of _ "[]"] exI[of _ "take 2 r"] exI[of _ "take 8 r"])
qed

text \<open>What a successful read of a header consumes and returns.\<close>

lemma readFrameHeader_consumes:
  assumes "readFrameHeader r = Inr (h, rest)"
  shows "wfHeader h \<and> (\<exists>pre. r = pre @ rest \<and> 2 \<le> length pre \<and> length pre \<le> 14)"
proof -
  have "readFrameHeader_inner r = Inr (h, rest)"
    using assms by (auto simp: readFrameHeader_def split: sum.splits)
  then obtain b b' r2 n r3 where r: "r = b # b' # r2" and len: "readLength b' r2 = Inr (n, r3)" and n: "0 \<le> n"
    and h: "(h, rest) = (let h = \<lparr>fin = (b AND 128 \<noteq> 0), rsv1 = (b AND 64 \<noteq> 0), rsv2 = (b AND 32 \<noteq> 0),
        rsv3 = (b AND 16 \<noteq> 0), hopcode = uint (b AND 15), payloadLength = n, masked = (b' AND 128 \<noteq> 0), maskKey = 0\<rparr>
      in if masked h then (h\<lparr>maskKey := le_word (take 4 r3)\<rparr>, drop 4 r3) else (h, r3))"
    and four: "b' AND 128 \<noteq> 0 \<Longrightarrow> 4 \<le> length r3"
    by (auto simp: readFrameHeader_inner_def Let_def ReadFull_def elim!: ReadByte_Inr split: sum.splits if_splits prod.splits)
  from readLength_bounds[OF len] obtain pre where pre: "r2 = pre @ r3" "length pre \<le> 8" "n < 2 ^ 63" by blast
  have "uint (b AND 15) < 16" by (rule low_nibble)
  moreover have "0 \<le> uint (b AND 15)" by simp
  ultimately have "wfHeader h" using h n pre(3) by (auto simp: wfHeader_def Let_def split: if_splits)
  moreover have "\<exists>p. r = p @ rest \<and> 2 \<le> length p \<and> length p \<le> 14"
  proof (cases "b' AND 128 \<noteq> 0")
    case True
    with h have "rest = drop 4 r3" by (simp add: Let_def)
    with r pre show ?thesis by (intro exI[of _ "b # b' # pre @ take 4 r3"]) simp
  next
    case False
    with h have "rest = r3" by (simp add: Let_def)
    with r pre show ?thesis by (intro exI[of _ "b # b' # pre"]) simp
  qed
  ultimately show ?thesis by blast
qed

subsection \<open>Properties\<close>

text \<open>
  C16: Reading back a header that was written gives the header and leaves the bytes that follow it, for every
  four-bit opcode, every payload length an \<open>int64\<close> can hold and every mask key.
\<close>

theorem header_roundtrip:
  assumes "wfHeader h"
  shows "\<exists>b. writeFrameHeader h appendWriter [] = (None, b) \<and> readFrameHeader (b @ rest) = Inr (h, rest)
           \<and> length b \<le> 14"
  using readFrameHeader_headerBytes[OF assms, of rest]
  by (auto simp: writeFrameHeader_append headerBytes_def extendedLength_def)

definition exampleHeader :: header where
  "exampleHeader = \<lparr>fin = True, rsv1 = True, rsv2 = False, rsv3 = False, hopcode = opBinary,
     payloadLength = 70000, masked = True, maskKey = 0xDEADBEEF\<rparr>"

theorem header_roundtrip_witness:
  "\<exists>b. writeFrameHeader exampleHeader appendWriter [] = (None, b)
     \<and> readFrameHeader (b @ [1, 2, 3]) = Inr (exampleHeader, [1, 2, 3]) \<and> length b \<le> 14"
  by (rule header_roundtrip) (simp add: exampleHeader_def wfHeader_def opcode_defs)

text \<open>
  C40: A header that is read has a four-bit opcode, a non-negative payload length and no key unless it is masked,
  and at most fourteen bytes were consumed for it.
\<close>

theorem readFrameHeader_wf:
  assumes "readFrameHeader r = Inr (h, rest)"
  shows "wfHeader h \<and> (\<exists>pre. r = pre @ rest \<and> 2 \<le> length pre \<and> length pre \<le> 14)"
  using assms by (rule readFrameHeader_consumes)

theorem readFrameHeader_wf_witness:
  "\<exists>h. readFrameHeader [129, 2, 7, 7] = Inr (h, [7, 7]) \<and> wfHeader h"
proof -
  obtain h where h: "readFrameHeader [129, 2, 7, 7] = Inr (h, [7, 7])"
    by (simp add: readFrameHeader_def readFrameHeader_inner_def readLength_def Let_def)
  with readFrameHeader_wf[OF h] show ?thesis by blast
qed

text \<open>
  C17: The unrolled masking routine is the byte-by-byte algorithm of RFC 6455: byte \<open>i\<close> is combined with
  byte \<open>i mod 4\<close> of the key, and the returned key is rotated to where the next byte starts.
\<close>

theorem mask_frame_reference:
  "mask_frame key b = maskTail key b
   \<and> fst (mask_frame key b) = map (\<lambda>i. b ! i XOR le_put 4 key ! (i mod 4)) [0..<length b]
   \<and> snd (mask_frame key b) = word_rotr (8 * length b) key"
  by (simp add: mask_frame_eq maskTail_bytes maskTail_key)

text \<open>
  Masking is its own inverse, and masking a message in two pieces, with the key the first call
  returns, is masking it at once.
\<close>

theorem mask_frame_involution_stream:
  "fst (mask_frame key (fst (mask_frame key b))) = b
   \<and> mask_frame key (a @ b) =
       (let (x, k) = mask_frame key a; (y, k') = mask_frame k b in (x @ y, k'))"
  by (simp add: mask_frame_eq maskTail_involution maskTail_append)

end
