(* ===== verification/CloseFrame.thy ===== *)
theory CloseFrame
  imports Frame
begin

text \<open>
  \<open>internal/nhooyr.io/websocket/close.go\<close>: close codes, the payload of close frames, and the first-error-wins
  rule for the close error of a connection. The text of an error message is not modelled beyond its fixed part.
\<close>

type_synonym StatusCode = int

definition StatusNormalClosure :: StatusCode where "StatusNormalClosure = 1000"
definition StatusGoingAway :: StatusCode where "StatusGoingAway = 1001"
definition StatusProtocolError :: StatusCode where "StatusProtocolError = 1002"
definition StatusUnsupportedData :: StatusCode where "StatusUnsupportedData = 1003"
definition statusReserved :: StatusCode where "statusReserved = 1004"
definition StatusNoStatusRcvd :: StatusCode where "StatusNoStatusRcvd = 1005"
definition StatusAbnormalClosure :: StatusCode where "StatusAbnormalClosure = 1006"
definition StatusInvalidFramePayloadData :: StatusCode where "StatusInvalidFramePayloadData = 1007"
definition StatusPolicyViolation :: StatusCode where "StatusPolicyViolation = 1008"
definition StatusMessageTooBig :: StatusCode where "StatusMessageTooBig = 1009"
definition StatusMandatoryExtension :: StatusCode where "StatusMandatoryExtension = 1010"
definition StatusInternalError :: StatusCode where "StatusInternalError = 1011"
definition StatusServiceRestart :: StatusCode where "StatusServiceRestart = 1012"
definition StatusTryAgainLater :: StatusCode where "StatusTryAgainLater = 1013"
definition StatusBadGateway :: StatusCode where "StatusBadGateway = 1014"
definition StatusTLSHandshake :: StatusCode where "StatusTLSHandshake = 1015"

lemmas status_defs = StatusNormalClosure_def StatusGoingAway_def StatusProtocolError_def statusReserved_def
  StatusNoStatusRcvd_def StatusAbnormalClosure_def StatusMessageTooBig_def StatusInternalError_def
  StatusBadGateway_def StatusTLSHandshake_def StatusUnsupportedData_def StatusInvalidFramePayloadData_def
  StatusPolicyViolation_def StatusMandatoryExtension_def StatusServiceRestart_def StatusTryAgainLater_def

record CloseError =
  Code :: StatusCode
  Reason :: bytes

definition CloseStatus :: "gerr option \<Rightarrow> StatusCode" where
  "CloseStatus err =
     (case err of None \<Rightarrow> -1 | Some e \<Rightarrow> (case errAs e of None \<Rightarrow> -1 | Some (code, _) \<Rightarrow> code))"

definition validWireCloseCode :: "StatusCode \<Rightarrow> bool" where
  "validWireCloseCode code =
     (if code = statusReserved \<or> code = StatusNoStatusRcvd \<or> code = StatusAbnormalClosure \<or> code = StatusTLSHandshake
      then False
      else if code \<ge> StatusNormalClosure \<and> code \<le> StatusBadGateway then True
      else if code \<ge> 3000 \<and> code \<le> 4999 then True
      else False)"

definition parseClosePayload :: "bytes \<Rightarrow> gerr + CloseError" where
  "parseClosePayload p =
     (if length p = 0 then Inr \<lparr>Code = StatusNoStatusRcvd, Reason = []\<rparr>
      else if length p < 2 then Inl (Plain ''close payload too small, cannot even contain the 2 byte status code'')
      else let ce = \<lparr>Code = uint (be_word (take 2 p) :: 16 word), Reason = drop 2 p\<rparr>
           in if \<not> validWireCloseCode (Code ce) then Inl (Plain ''invalid status code'') else Inr ce)"

definition maxCloseReason :: int where "maxCloseReason = maxControlPayload - 2"

definition bytesErr :: "CloseError \<Rightarrow> gerr + bytes" where
  "bytesErr ce =
     (if int (length (Reason ce)) > maxCloseReason then Inl (Plain ''reason string max'')
      else if \<not> validWireCloseCode (Code ce) then Inl (Plain ''status code cannot be set'')
      else Inr (be_put 2 (word_of_int (Code ce) :: 16 word) @ Reason ce))"

definition bytes_close :: "CloseError \<Rightarrow> bytes \<times> gerr option" where
  "bytes_close ce =
     (case bytesErr ce of
        Inr p \<Rightarrow> (p, None)
      | Inl err \<Rightarrow>
          (case bytesErr \<lparr>Code = StatusInternalError, Reason = []\<rparr> of
             Inr p \<Rightarrow> (p, Some (Wrapped ''failed to marshal close frame'' err))
           | Inl _ \<Rightarrow> ([], Some (Wrapped ''failed to marshal close frame'' err))))"

text \<open>\<open>setCloseErrLocked\<close> on the field \<open>closeErr\<close>.\<close>

definition setCloseErrLocked :: "gerr option \<Rightarrow> gerr option \<Rightarrow> gerr option" where
  "setCloseErrLocked err closeErr =
     (case (closeErr, err) of (None, Some e) \<Rightarrow> Some (Wrapped ''WebSocket closed'' e) | _ \<Rightarrow> closeErr)"

subsection \<open>Lemmas\<close>

lemma be_put_word: "8 * length bs \<le> LENGTH('a) \<Longrightarrow> be_put (length bs) (be_word bs :: 'a::len word) = bs"
  using le_put_word[of "rev bs", where 'a = 'a] by (simp add: be_put_def be_word_def)

lemma valid_code_range: "validWireCloseCode c \<Longrightarrow> 1000 \<le> c \<and> c \<le> 4999"
  by (auto simp: validWireCloseCode_def status_defs split: if_splits)

lemma parse_bytesErr:
  assumes "bytesErr ce = Inr p"
  shows "parseClosePayload p = Inr ce"
proof -
  have v: "validWireCloseCode (Code ce)" and p: "p = be_put 2 (word_of_int (Code ce) :: 16 word) @ Reason ce"
    using assms by (auto simp: bytesErr_def split: if_splits)
  have "uint (word_of_int (Code ce) :: 16 word) = Code ce"
    using valid_code_range[OF v] by (simp add: uint_word_of_int)
  then show ?thesis using v by (simp add: p parseClosePayload_def be_word_put)
qed

subsection \<open>Properties\<close>

text \<open>
  A close payload that was produced parses back to its code and reason and fits a control frame; a received
  payload that parses and fits is reproduced, the empty one excepted.
\<close>

theorem close_payload_roundtrip:
  assumes "bytesErr ce = Inr p"
  shows "parseClosePayload p = Inr ce \<and> int (length p) \<le> maxControlPayload
       \<and> (\<forall>q ce'. q \<noteq> [] \<and> parseClosePayload q = Inr ce' \<and> int (length q) \<le> maxControlPayload \<longrightarrow> bytesErr ce' = Inr q)"
proof -
  have "int (length p) \<le> maxControlPayload"
    using assms by (auto simp: bytesErr_def maxCloseReason_def split: if_splits)
  moreover have "bytesErr ce' = Inr q" if q: "q \<noteq> []" "parseClosePayload q = Inr ce'" "int (length q) \<le> maxControlPayload" for q ce'
  proof -
    have ce': "ce' = \<lparr>Code = uint (be_word (take 2 q) :: 16 word), Reason = drop 2 q\<rparr>" "validWireCloseCode (Code ce')" "2 \<le> length q"
      using q(1,2) by (auto simp: parseClosePayload_def Let_def split: if_splits)
    have "be_put 2 (be_word (take 2 q) :: 16 word) = take 2 q"
      using be_put_word[of "take 2 q", where 'a = 16] ce'(3) by simp
    then show ?thesis using ce' q(3) by (auto simp: bytesErr_def maxCloseReason_def)
  qed
  ultimately show ?thesis using parse_bytesErr[OF assms] by blast
qed

theorem close_payload_roundtrip_witness:
  "parseClosePayload [3, 232, 111, 107] = Inr \<lparr>Code = 1000, Reason = [111, 107]\<rparr>"
proof -
  have "bytesErr \<lparr>Code = 1000, Reason = [111, 107]\<rparr> = Inr [3, 232, 111, 107]"
  proof -
    have "le_put (Suc (Suc 0)) (1000 :: 16 word) = [232, 3]" by simp
    then have "be_put 2 (1000 :: 16 word) = [3, 232]" unfolding be_put_def numeral_2_eq_2 by simp
    then show ?thesis
      by (simp add: bytesErr_def maxCloseReason_def maxControlPayload_def validWireCloseCode_def status_defs)
  qed
  from close_payload_roundtrip[OF this] show ?thesis by blast
qed

text \<open>
  Whatever code and reason are asked for, \<open>bytes\<close> yields a payload that the peer can parse: the requested
  one, or, with an error, status 1011 and no reason. The substitute is used exactly when the
  reason is longer than 123 bytes or the code may not be sent.
\<close>

theorem close_bytes_always_valid:
  "\<exists>ce'. parseClosePayload (fst (bytes_close ce)) = Inr ce' \<and> validWireCloseCode (Code ce')
     \<and> (if length (Reason ce) \<le> 123 \<and> validWireCloseCode (Code ce)
        then ce' = ce \<and> snd (bytes_close ce) = None
        else ce' = \<lparr>Code = 1011, Reason = []\<rparr> \<and> snd (bytes_close ce) \<noteq> None)"
proof (cases "bytesErr ce")
  case (Inr p)
  then have "length (Reason ce) \<le> 123 \<and> validWireCloseCode (Code ce)"
    by (auto simp: bytesErr_def maxCloseReason_def maxControlPayload_def split: if_splits)
  with Inr parse_bytesErr[OF Inr] show ?thesis by (simp add: bytes_close_def)
next
  case (Inl e)
  then have bad: "\<not> (length (Reason ce) \<le> 123 \<and> validWireCloseCode (Code ce))"
    by (auto simp: bytesErr_def maxCloseReason_def maxControlPayload_def split: if_splits)
  obtain p where p: "bytesErr \<lparr>Code = StatusInternalError, Reason = []\<rparr> = Inr p"
    by (auto simp: bytesErr_def maxCloseReason_def maxControlPayload_def validWireCloseCode_def status_defs)
  have "validWireCloseCode 1011" by (simp add: validWireCloseCode_def status_defs)
  with Inl p bad parse_bytesErr[OF p] show ?thesis by (auto simp: bytes_close_def StatusInternalError_def)
qed

text \<open>
  The first close error wins: once set, no later error replaces it.
\<close>

theorem first_close_error_wins:
  "setCloseErrLocked err' (setCloseErrLocked (Some e) closeErr) = setCloseErrLocked (Some e) closeErr
   \<and> setCloseErrLocked (Some e) closeErr \<noteq> None"
  by (cases closeErr) (auto simp: setCloseErrLocked_def split: option.splits)

end
