(* ===== verification/Fs.thy ===== *)
theory Fs
  imports Prelude
begin

unbundle bit_operations_syntax

text \<open>
  \<open>internal/fs/fs.go\<close> and \<open>options.go\<close> over any implementation of the interface \<open>FS\<close> (a record of
  operations on a state), and the in-memory implementation \<open>internal/fs/mem\<close>. The lexical path functions of \<open>path/filepath\<close>
  (on Unix) are modelled; SHA-256 is an argument. Directories are made and files written through the
  locales \<open>checked_store\<close> and \<open>directory_fs\<close>, which the in-memory file system interprets.
\<close>

subsection \<open>\<open>path/filepath\<close>\<close>

definition slash :: char where "slash = CHR 0x2F"

fun cleanParts :: "bool \<Rightarrow> string list \<Rightarrow> string list \<Rightarrow> string list" where
  "cleanParts rooted [] st = rev st"
| "cleanParts rooted (p # ps) st =
     (if p = [] \<or> p = ''.'' then cleanParts rooted ps st
      else if p = ''..''
      then (if st \<noteq> [] \<and> hd st \<noteq> ''..'' then cleanParts rooted ps (tl st)
            else if rooted then cleanParts rooted ps st
            else cleanParts rooted ps (p # st))
      else cleanParts rooted ps (p # st))"

definition IsAbs :: "string \<Rightarrow> bool" where "IsAbs p = HasPrefix p [slash]"

definition Clean :: "string \<Rightarrow> string" where
  "Clean p =
     (let s = Join (cleanParts (IsAbs p) (Split p slash) []) [slash]
      in if IsAbs p then slash # s else if s = [] then ''.'' else s)"

definition pathJoin :: "string list \<Rightarrow> string" where
  "pathJoin es = (case dropWhile (\<lambda>e. e = []) es of [] \<Rightarrow> [] | es' \<Rightarrow> Clean (Join es' [slash]))"

definition Dir :: "string \<Rightarrow> string" where
  "Dir p = Clean (rev (dropWhile (\<lambda>c. c \<noteq> slash) (rev p)))"

definition Base :: "string \<Rightarrow> string" where
  "Base p =
     (if p = [] then ''.''
      else let q = dropWhile (\<lambda>c. c = slash) (rev p);
               b = rev (takeWhile (\<lambda>c. c \<noteq> slash) q)
           in if b = [] then [slash] else b)"

subsection \<open>The interface\<close>

type_synonym FileMode = "32 word"

definition ErrNotExist :: gerr where "ErrNotExist = Sentinel ''fs.ErrNotExist''"
definition ErrPermission :: gerr where "ErrPermission = Sentinel ''fs.ErrPermission''"
definition ErrInvalid :: gerr where "ErrInvalid = Sentinel ''fs.ErrInvalid''"
definition ErrNotDirectory :: gerr where "ErrNotDirectory = Sentinel ''fs.ErrNotDirectory''"
definition ErrInvalidSHA :: gerr where "ErrInvalidSHA = Sentinel ''fs.ErrInvalidSHA''"

text \<open>An open file, of which only \<open>Stat().IsDir()\<close> is used, is the result of \<open>Stat\<close>.\<close>

record 'f fsops =
  fsOpen :: "string \<Rightarrow> 'f \<Rightarrow> gerr + (gerr + bool)"
  fsMkdir :: "string \<Rightarrow> FileMode \<Rightarrow> 'f \<Rightarrow> gerr option \<times> 'f"
  fsReadFile :: "string \<Rightarrow> 'f \<Rightarrow> gerr + bytes"
  fsWriteFile :: "string \<Rightarrow> bytes \<Rightarrow> FileMode \<Rightarrow> 'f \<Rightarrow> gerr option \<times> 'f"

text \<open>An option acts on the file system and on the variable a data pointer refers to.\<close>

type_synonym 'f fsOption = "'f \<times> bytes \<Rightarrow> gerr option \<times> ('f \<times> bytes)"

fun Operate :: "'f fsOption option list \<Rightarrow> 'f fsOption" where
  "Operate [] st = (None, st)"
| "Operate (None # opts) st = Operate opts st"
| "Operate (Some opt # opts) st =
     (case opt st of (Some e, st') \<Rightarrow> (Some e, st') | (None, st') \<Rightarrow> Operate opts st')"

definition Options :: "'f fsOption option list \<Rightarrow> 'f fsOption" where
  "Options opts st = Operate opts st"

definition WithDir :: "'f fsops \<Rightarrow> string \<Rightarrow> FileMode \<Rightarrow> 'f fsOption" where
  "WithDir fs dir perm st =
     (case st of (f, data) \<Rightarrow>
        (case fsOpen fs dir f of
           Inl e \<Rightarrow>
             if \<not> errIs e ''fs.ErrNotExist'' then (Some e, (f, data))
             else (case fsMkdir fs dir perm f of (err, f') \<Rightarrow> (err, (f', data)))
         | Inr stat \<Rightarrow>
             (case stat of
                Inl e \<Rightarrow> (Some e, (f, data))
              | Inr isDir \<Rightarrow> if \<not> isDir then (Some ErrNotDirectory, (f, data)) else (None, (f, data)))))"

fun dirPrefixes :: "string \<Rightarrow> string list \<Rightarrow> string list" where
  "dirPrefixes full [] = []"
| "dirPrefixes full (d # ds) = (let full' = pathJoin [full, d] in full' # dirPrefixes full' ds)"

definition pathDirs :: "string \<Rightarrow> string list" where
  "pathDirs path =
     (let dirs = Split path slash
      in dirPrefixes [] (if IsAbs path then dirs[0 := [slash]] else dirs))"

definition WithDirs :: "'f fsops \<Rightarrow> string \<Rightarrow> FileMode \<Rightarrow> 'f fsOption" where
  "WithDirs fs path perm = Options (map (\<lambda>full. Some (WithDir fs full perm)) (pathDirs path))"

definition WithPath :: "'f fsops \<Rightarrow> string \<Rightarrow> FileMode \<Rightarrow> 'f fsOption" where
  "WithPath fs name perm = WithDirs fs (Dir name) perm"

definition shaSumName :: "string \<Rightarrow> string" where "shaSumName name = name @ ''.sha256''"

text \<open>The verb \<open>%x\<close> on bytes.\<close>

definition hexDigit :: "nat \<Rightarrow> char" where
  "hexDigit n = (if n < 10 then char_of (48 + n) else char_of (87 + n))"

definition hex :: "bytes \<Rightarrow> string" where
  "hex bs = concat (map (\<lambda>b. [hexDigit (unat b div 16), hexDigit (unat b mod 16)]) bs)"

definition checksumLine :: "(bytes \<Rightarrow> bytes) \<Rightarrow> string \<Rightarrow> bytes \<Rightarrow> string" where
  "checksumLine sha name data = hex (sha data) @ ''  '' @ Base name"

definition WriteFileWithSHA256 ::
  "(bytes \<Rightarrow> bytes) \<Rightarrow> 'f fsops \<Rightarrow> string \<Rightarrow> bytes \<Rightarrow> FileMode \<Rightarrow> 'f fsOption" where
  "WriteFileWithSHA256 sha fs name data perm st =
     (case st of (f, v) \<Rightarrow>
        (case fsWriteFile fs name data perm f of
           (Some e, f') \<Rightarrow> (Some e, (f', v))
         | (None, f') \<Rightarrow>
             (case fsWriteFile fs (shaSumName name) (bytes_of (checksumLine sha name data @ [CHR 0x0A])) perm f' of
                (err, f'') \<Rightarrow> (err, (f'', v)))))"

definition ReadFileWithSHA256 :: "(bytes \<Rightarrow> bytes) \<Rightarrow> 'f fsops \<Rightarrow> string \<Rightarrow> 'f fsOption" where
  "ReadFileWithSHA256 sha fs name st =
     (case st of (f, v) \<Rightarrow>
        (case fsReadFile fs name f of
           Inl e \<Rightarrow> (Some (Wrapped ''missing file'' e), (f, v))
         | Inr contents \<Rightarrow>
             (case fsReadFile fs (shaSumName name) f of
                Inl e \<Rightarrow> (Some (Wrapped ''missing sha256 file'' e), (f, v))
              | Inr shasum \<Rightarrow>
                  if checksumLine sha name contents \<noteq> TrimSpace (string_of shasum)
                  then (Some (Wrapped ''expected sha'' ErrInvalidSHA), (f, v))
                  else (None, (f, contents)))))"

subsection \<open>The in-memory file system\<close>

record memFile =
  fBytes :: bytes
  fPerm :: FileMode
  fName :: string
  fIsDir :: bool
  fOffset :: nat
  fClosed :: bool

record memFS =
  Files :: "string \<rightharpoonup> memFile"
  Dirs :: "string \<rightharpoonup> FileMode"
  Errs :: "string \<rightharpoonup> gerr"

text \<open>The permission masks 0111, 0222, 0444 and the default 0755 are written in decimal.\<close>

definition hasPerms :: "string \<Rightarrow> FileMode \<Rightarrow> memFS \<Rightarrow> gerr option" where
  "hasPerms name perm fs =
     (if name = [] then Some ErrInvalid
      else case Errs fs name of
        Some e \<Rightarrow> Some e
      | None \<Rightarrow>
          (let path = Dir name in
           case (case Dirs fs path of Some d \<Rightarrow> Some d | None \<Rightarrow> if path \<noteq> ''.'' then None else Some 493) of
             None \<Rightarrow> Some ErrNotExist
           | Some dir \<Rightarrow>
               if dir AND 73 = 0 then Some (Wrapped ''dir'' ErrPermission)
               else if dir AND perm = 0 then Some (Wrapped ''dir'' ErrPermission)
               else (case Files fs name of
                       Some f \<Rightarrow> if fPerm f AND perm = 0 then Some (Wrapped ''file'' ErrPermission) else None
                     | None \<Rightarrow> None)))"

definition Open_mem :: "string \<Rightarrow> memFS \<Rightarrow> gerr + memFile" where
  "Open_mem name fs =
     (case hasPerms name 146 fs of
        Some e \<Rightarrow> Inl e
      | None \<Rightarrow>
          (case Files fs name of
             Some f \<Rightarrow> Inr (f\<lparr>fName := name\<rparr>)
           | None \<Rightarrow>
               (case Dirs fs name of
                  Some dir \<Rightarrow> Inr \<lparr>fBytes = [], fPerm = dir, fName = name, fIsDir = True, fOffset = 0, fClosed = False\<rparr>
                | None \<Rightarrow> Inl (Wrapped ''file named'' ErrNotExist))))"

definition Mkdir_mem :: "string \<Rightarrow> FileMode \<Rightarrow> memFS \<Rightarrow> gerr option \<times> memFS" where
  "Mkdir_mem path perm fs =
     (case (if path \<noteq> [slash] then hasPerms path 73 fs else None) of
        Some e \<Rightarrow> (Some e, fs)
      | None \<Rightarrow> (None, if Dirs fs path = None then fs\<lparr>Dirs := (Dirs fs)(path \<mapsto> perm)\<rparr> else fs))"

fun mkdirSeq :: "string list \<Rightarrow> FileMode \<Rightarrow> memFS \<Rightarrow> gerr option \<times> memFS" where
  "mkdirSeq [] perm fs = (None, fs)"
| "mkdirSeq (p # ps) perm fs =
     (case Mkdir_mem p perm fs of (Some e, fs') \<Rightarrow> (Some e, fs') | (None, fs') \<Rightarrow> mkdirSeq ps perm fs')"

definition MkdirAll :: "string \<Rightarrow> FileMode \<Rightarrow> memFS \<Rightarrow> gerr option \<times> memFS" where
  "MkdirAll path perm fs =
     (let abs = HasPrefix path [slash];
          dirs = Split (TrimPrefix path [slash]) slash
      in mkdirSeq (map (\<lambda>i. let full = Join (take (i + 1) dirs) [slash] in if abs then slash # full else full)
                    [0..<length dirs]) perm fs)"

definition ReadFile_mem :: "string \<Rightarrow> memFS \<Rightarrow> gerr + bytes" where
  "ReadFile_mem name fs =
     (case hasPerms name 292 fs of
        Some e \<Rightarrow> Inl e
      | None \<Rightarrow> (case Files fs name of Some f \<Rightarrow> Inr (fBytes f) | None \<Rightarrow> Inl (Wrapped ''file named'' ErrNotExist)))"

definition WriteFile_mem :: "string \<Rightarrow> bytes \<Rightarrow> FileMode \<Rightarrow> memFS \<Rightarrow> gerr option \<times> memFS" where
  "WriteFile_mem name data perm fs =
     (case hasPerms name 146 fs of
        Some e \<Rightarrow> (Some e, fs)
      | None \<Rightarrow> (None, fs\<lparr>Files := (Files fs)(name \<mapsto>
          \<lparr>fBytes = data, fPerm = perm, fName = [], fIsDir = False, fOffset = 0, fClosed = False\<rparr>)\<rparr>))"

text \<open>\<open>Stat\<close> of an in-memory file never fails.\<close>

definition memOps :: "memFS fsops" where
  "memOps = \<lparr>fsOpen = (\<lambda>name fs. case Open_mem name fs of Inl e \<Rightarrow> Inl e | Inr f \<Rightarrow> Inr (Inr (fIsDir f))),
     fsMkdir = Mkdir_mem, fsReadFile = ReadFile_mem, fsWriteFile = WriteFile_mem\<rparr>"

text \<open>The constructor options of the in-memory file system; \<open>None\<close> is a panic.\<close>

type_synonym memOption = "memFS \<Rightarrow> memFS option"

definition WithFile_mem :: "string \<Rightarrow> string \<Rightarrow> FileMode \<Rightarrow> memOption" where
  "WithFile_mem name data perm fs =
     (case WriteFile_mem name (bytes_of data) perm fs of (Some _, _) \<Rightarrow> None | (None, fs') \<Rightarrow> Some fs')"

definition WithError_mem :: "string \<Rightarrow> gerr \<Rightarrow> memOption" where
  "WithError_mem name e fs = Some (fs\<lparr>Errs := (Errs fs)(name \<mapsto> e)\<rparr>)"

definition WithDir_mem :: "string \<Rightarrow> FileMode \<Rightarrow> memOption" where
  "WithDir_mem name perm fs = (case MkdirAll name perm fs of (Some _, _) \<Rightarrow> None | (None, fs') \<Rightarrow> Some fs')"

definition emptyMem :: memFS where "emptyMem = \<lparr>Files = Map.empty, Dirs = Map.empty, Errs = Map.empty\<rparr>"

fun applyMem :: "memOption list \<Rightarrow> memFS \<Rightarrow> memFS option" where
  "applyMem [] fs = Some fs"
| "applyMem (opt # opts) fs = (case opt fs of None \<Rightarrow> None | Some fs' \<Rightarrow> applyMem opts fs')"

definition New_mem :: "memOption list \<Rightarrow> memFS option" where
  "New_mem opts = applyMem opts emptyMem"

text \<open>Reading an open file into a buffer of \<open>n\<close> bytes.\<close>

definition ErrIsDir :: gerr where "ErrIsDir = Sentinel ''mem.ErrIsDir''"
definition ErrClosedPipe :: gerr where "ErrClosedPipe = Sentinel ''io.ErrClosedPipe''"
definition EOF_file :: gerr where "EOF_file = Sentinel ''io.EOF''"

definition Read_file :: "nat \<Rightarrow> memFile \<Rightarrow> (gerr + bytes) \<times> memFile" where
  "Read_file n f =
     (if fIsDir f then (Inl (Wrapped ''read'' ErrIsDir), f)
      else if fClosed f then (Inl ErrClosedPipe, f)
      else if length (fBytes f) \<le> fOffset f then (Inl EOF_file, f)
      else let b = take n (drop (fOffset f) (fBytes f))
           in (Inr b, f\<lparr>fOffset := fOffset f + length b\<rparr>))"

definition Close_file :: "memFile \<Rightarrow> memFile" where "Close_file f = f\<lparr>fClosed := True\<rparr>"

definition Stat_file :: "memFile \<Rightarrow> string \<times> int \<times> FileMode \<times> bool" where
  "Stat_file f = (fName f, int (length (fBytes f)), fPerm f, fIsDir f)"

text \<open>Reading with buffers of the given sizes until the end, as \<open>io.ReadAll\<close> does.\<close>

fun readChunks :: "nat list \<Rightarrow> memFile \<Rightarrow> bytes \<Rightarrow> bytes \<times> gerr option" where
  "readChunks [] f acc = (acc, None)"
| "readChunks (n # ns) f acc =
     (case Read_file n f of (Inl e, _) \<Rightarrow> (acc, Some e) | (Inr b, f') \<Rightarrow> readChunks ns f' (acc @ b))"

subsection \<open>Checksums\<close>

lemma unat_of_char [simp]: "unat (of_char c :: 8 word) = (of_char c :: nat)"
proof -
  have "unat (of_nat (of_char c) :: 8 word) = (of_char c :: nat)"
    by (simp add: unsigned_of_nat take_bit_nat_eq_self del: of_nat_of_char)
  then show ?thesis by (simp only: of_nat_of_char)
qed

lemma string_of_bytes_of [simp]: "string_of (bytes_of s) = s"
  by (simp add: string_of_def bytes_of_def map_idI)

lemma is_space_code: "is_space c \<Longrightarrow> (of_char c :: nat) \<le> 32"
  by (auto simp: is_space_def)

lemma hexDigit_code: "n < 16 \<Longrightarrow> of_char (hexDigit n) = (if n < 10 then 48 + n else 87 + n)"
  by (simp add: hexDigit_def)

lemma hexDigit_not_space: "n < 16 \<Longrightarrow> \<not> is_space (hexDigit n)"
  using is_space_code[of "hexDigit n"] hexDigit_code[of n] by (auto split: if_splits)

lemma hexDigit_inj:
  assumes "m < 16" "n < 16" "hexDigit m = hexDigit n" shows "m = n"
proof -
  from hexDigit_code[OF assms(1)] hexDigit_code[OF assms(2)] assms(3) have "(if m < 10 then 48 + m else 87 + m) = (if n < 10 then 48 + n else 87 + n)"
    by metis
  with assms(1,2) show ?thesis by (auto split: if_splits)
qed

lemma hex_Cons: "hex (b # bs) = hexDigit (unat b div 16) # hexDigit (unat b mod 16) # hex bs"
  by (simp add: hex_def)

lemma byte_halves: "unat (b :: byte) div 16 < 16"
proof -
  have "unat b < 256" using unsigned_less[of b, where ?'a = nat] by simp
  then show ?thesis by simp
qed

lemma hex_inj: "hex a = hex b \<Longrightarrow> a = b"
proof (induction a arbitrary: b)
  case Nil
  then show ?case by (cases b) (auto simp: hex_def)
next
  case (Cons x a)
  then obtain y c where b: "b = y # c" by (cases b) (auto simp: hex_def)
  with Cons.prems have "unat x div 16 = unat y div 16" "unat x mod 16 = unat y mod 16" "hex a = hex c"
    by (auto simp: hex_Cons intro: hexDigit_inj byte_halves)
  then have "unat x = unat y" by (metis div_mult_mod_eq)
  with Cons.IH[OF \<open>hex a = hex c\<close>] b show ?case by (simp add: word_unat_eq_iff)
qed

lemma checksumLine_inj: "checksumLine sha name a = checksumLine sha name b \<Longrightarrow> sha a = sha b"
  by (auto simp: checksumLine_def intro: hex_inj)

lemma TrimSpace_newline:
  assumes "x \<noteq> []" "\<not> is_space (hd x)" "\<not> is_space (last x)"
  shows "TrimSpace (x @ [CHR 0x0A]) = x"
proof -
  have d: "dropWhile is_space (x @ [CHR 0x0A]) = x @ [CHR 0x0A]" using assms(1,2) by (cases x) auto
  have "dropWhile is_space (rev x) = rev x" using assms(1,3) by (metis dropWhile_eq_Cons_conv dropWhile_eq_self_iff hd_rev)
  then show ?thesis by (simp add: TrimSpace_def d is_space_def)
qed

lemma Base_not_Nil [simp]: "Base name \<noteq> []"
  by (simp add: Base_def Let_def)

text \<open>
  A file name can be checksummed when the digest is not empty and the last element of the name
  does not end in white space, which reading would trim.
\<close>

definition trimSafe :: "(bytes \<Rightarrow> bytes) \<Rightarrow> string \<Rightarrow> bool" where
  "trimSafe sha name \<longleftrightarrow> (\<forall>d. sha d \<noteq> []) \<and> \<not> is_space (last (Base name))"

lemma TrimSpace_checksum:
  assumes "trimSafe sha name"
  shows "TrimSpace (checksumLine sha name d @ [CHR 0x0A]) = checksumLine sha name d"
proof -
  obtain b bs where "sha d = b # bs" using assms by (metis trimSafe_def list.exhaust)
  then have "hd (checksumLine sha name d) = hexDigit (unat b div 16)"
    by (simp add: checksumLine_def hex_Cons)
  moreover have "last (checksumLine sha name d) = last (Base name)"
    by (simp add: checksumLine_def)
  moreover have "checksumLine sha name d \<noteq> []" by (simp add: checksumLine_def)
  ultimately show ?thesis
    using assms by (intro TrimSpace_newline) (auto simp: trimSafe_def hexDigit_not_space byte_halves)
qed

lemma shaSumName_neq [simp]: "shaSumName name \<noteq> name" "name \<noteq> shaSumName name"
  by (simp_all add: shaSumName_def)

subsection \<open>The store contract\<close>

text \<open>
  What reading with a checksum relies on: a file reads back as written if its mode and place allow it, and
  writing a file changes no other file and no access right.
\<close>

locale checked_store =
  fixes fs :: "'f fsops" and canRead :: "string \<Rightarrow> FileMode \<Rightarrow> 'f \<Rightarrow> bool"
  assumes write_read: "fsWriteFile fs n d p f = (None, f') \<Longrightarrow> canRead n p f \<Longrightarrow> fsReadFile fs n f' = Inr d"
    and write_other: "fsWriteFile fs n d p f = (None, f') \<Longrightarrow> m \<noteq> n \<Longrightarrow> fsReadFile fs m f' = fsReadFile fs m f"
    and write_access: "fsWriteFile fs n d p f = (None, f') \<Longrightarrow> canRead m p' f' = canRead m p' f"
begin

lemma written:
  assumes "WriteFileWithSHA256 sha fs name data perm (f, v) = (None, (f', v'))"
    and "canRead name perm f" and "canRead (shaSumName name) perm f"
  shows "fsReadFile fs name f' = Inr data
       \<and> fsReadFile fs (shaSumName name) f' = Inr (bytes_of (checksumLine sha name data @ [CHR 0x0A]))"
proof -
  obtain f1 where w: "fsWriteFile fs name data perm f = (None, f1)"
    "fsWriteFile fs (shaSumName name) (bytes_of (checksumLine sha name data @ [CHR 0x0A])) perm f1 = (None, f')"
    using assms(1) by (auto simp: WriteFileWithSHA256_def split: prod.splits option.splits)
  have "canRead (shaSumName name) perm f1" using write_access[OF w(1)] assms(3) by simp
  with write_read[OF w(1) assms(2)] write_read[OF w(2)] write_other[OF w(2), of name] show ?thesis by simp
qed

lemma sha_roundtrip:
  assumes "WriteFileWithSHA256 sha fs name data perm (f, v) = (None, (f', v'))"
    and "canRead name perm f" and "canRead (shaSumName name) perm f" and "trimSafe sha name"
  shows "ReadFileWithSHA256 sha fs name (f', w) = (None, (f', data))"
  using written[OF assms(1-3)] TrimSpace_checksum[OF assms(4)] by (simp add: ReadFileWithSHA256_def)

text \<open>A file that was replaced is accepted only when its digest is the recorded one.\<close>

lemma sha_tamper:
  assumes "WriteFileWithSHA256 sha fs name data perm (f, v) = (None, (f', v'))"
    and "canRead name perm f" and "canRead (shaSumName name) perm f" and "trimSafe sha name"
    and "fsWriteFile fs name other perm f' = (None, f2)"
    and "ReadFileWithSHA256 sha fs name (f2, w) = (None, (f3, contents))"
  shows "contents = other \<and> sha other = sha data"
proof -
  have acc: "canRead name perm f'"
  proof -
    obtain f1 where w: "fsWriteFile fs name data perm f = (None, f1)"
      "fsWriteFile fs (shaSumName name) (bytes_of (checksumLine sha name data @ [CHR 0x0A])) perm f1 = (None, f')"
      using assms(1) by (auto simp: WriteFileWithSHA256_def split: prod.splits option.splits)
    show ?thesis using write_access[OF w(1)] write_access[OF w(2)] assms(2) by simp
  qed
  have r: "fsReadFile fs name f2 = Inr other" using write_read[OF assms(5) acc] .
  have "fsReadFile fs (shaSumName name) f2 = Inr (bytes_of (checksumLine sha name data @ [CHR 0x0A]))"
    using write_other[OF assms(5), of "shaSumName name"] written[OF assms(1-3)] by simp
  with r assms(6) TrimSpace_checksum[OF assms(4)] have "checksumLine sha name other = checksumLine sha name data" "contents = other"
    by (auto simp: ReadFileWithSHA256_def split: if_splits)
  then show ?thesis using checksumLine_inj by blast
qed

end

text \<open>What the in-memory file system asks for before a file written with a mode can be read.\<close>

definition memDir :: "string \<Rightarrow> memFS \<Rightarrow> FileMode option" where
  "memDir name fs =
     (case Dirs fs (Dir name) of Some d \<Rightarrow> Some d | None \<Rightarrow> if Dir name \<noteq> ''.'' then None else Some 493)"

definition memCanRead :: "string \<Rightarrow> FileMode \<Rightarrow> memFS \<Rightarrow> bool" where
  "memCanRead name perm fs \<longleftrightarrow> name \<noteq> [] \<and> Errs fs name = None \<and> perm AND 292 \<noteq> 0 \<and>
     (case memDir name fs of None \<Rightarrow> False | Some d \<Rightarrow> d AND 73 \<noteq> 0 \<and> d AND 292 \<noteq> 0)"

lemma hasPerms_Files:
  "Files fs' m = Files fs m \<Longrightarrow> Dirs fs' = Dirs fs \<Longrightarrow> Errs fs' = Errs fs \<Longrightarrow> hasPerms m p fs' = hasPerms m p fs"
  by (simp add: hasPerms_def Let_def cong: option.case_cong if_cong)

interpretation memstore: checked_store memOps memCanRead
proof
  fix n d p f f' assume w: "fsWriteFile memOps n d p f = (None, f')" and c: "memCanRead n p f"
  have f': "f' = f\<lparr>Files := (Files f)(n \<mapsto> \<lparr>fBytes = d, fPerm = p, fName = [], fIsDir = False, fOffset = 0, fClosed = False\<rparr>)\<rparr>"
    using w by (auto simp: memOps_def WriteFile_mem_def split: option.splits)
  have "hasPerms n 292 f' = None"
    using c by (auto simp: f' hasPerms_def memCanRead_def memDir_def Let_def split: option.splits if_splits)
  then show "fsReadFile memOps n f' = Inr d" by (simp add: memOps_def ReadFile_mem_def f')
next
  fix n d p f f' m assume w: "fsWriteFile memOps n d p f = (None, f')" and m: "m \<noteq> (n :: string)"
  have f': "Files f' m = Files f m" "Dirs f' = Dirs f" "Errs f' = Errs f"
    using w m by (auto simp: memOps_def WriteFile_mem_def split: option.splits)
  then show "fsReadFile memOps m f' = fsReadFile memOps m f"
    using hasPerms_Files[OF f'] by (simp add: memOps_def ReadFile_mem_def cong: option.case_cong)
next
  fix n d p f f' m p' assume w: "fsWriteFile memOps n d p f = (None, f')"
  then show "memCanRead m p' f' = memCanRead m p' f"
    by (auto simp: memOps_def WriteFile_mem_def memCanRead_def memDir_def split: option.splits)
qed

subsection \<open>The directory contract\<close>

locale directory_fs =
  fixes fs :: "'f fsops" and isDirectory :: "string \<Rightarrow> 'f \<Rightarrow> bool"
  assumes open_dir: "fsOpen fs d f = Inr (Inr True) \<Longrightarrow> isDirectory d f"
    and mkdir_dir: "fsMkdir fs d p f = (None, f') \<Longrightarrow> isDirectory d f'"
    and mkdir_keeps: "fsMkdir fs d p f = (None, f') \<Longrightarrow> isDirectory e f \<Longrightarrow> isDirectory e f'"
begin

lemma WithDir_ensures:
  assumes "WithDir fs d p (f, v) = (None, (f', v'))"
  shows "isDirectory d f' \<and> (\<forall>e. isDirectory e f \<longrightarrow> isDirectory e f')"
  using assms open_dir[of d f] mkdir_dir[of d p f] mkdir_keeps[of d p f]
  by (auto simp: WithDir_def split: sum.splits if_splits prod.splits)

lemma Operate_WithDir:
  assumes "Operate (map (\<lambda>d. Some (WithDir fs d p)) ds) (f, v) = (None, (f', v'))"
  shows "(\<forall>d\<in>set ds. isDirectory d f') \<and> (\<forall>e. isDirectory e f \<longrightarrow> isDirectory e f')"
  using assms
proof (induction ds arbitrary: f v)
  case Nil
  then show ?case by simp
next
  case (Cons d ds)
  obtain e f1 v1 where w: "WithDir fs d p (f, v) = (e, (f1, v1))" by (metis surj_pair)
  with Cons.prems have e: "e = None" "Operate (map (\<lambda>d. Some (WithDir fs d p)) ds) (f1, v1) = (None, (f', v'))"
    by (auto split: option.splits)
  from Cons.IH[OF e(2)] WithDir_ensures[OF w[unfolded e(1)]] show ?case by auto
qed

lemma WithDirs_ensures:
  "WithDirs fs path p (f, v) = (None, (f', v')) \<Longrightarrow> \<forall>d\<in>set (pathDirs path). isDirectory d f'"
  using Operate_WithDir[of p "pathDirs path" f v f' v'] by (simp add: WithDirs_def Options_def)

end

definition memIsDirectory :: "string \<Rightarrow> memFS \<Rightarrow> bool" where
  "memIsDirectory d fs \<longleftrightarrow> Dirs fs d \<noteq> None \<or> (\<exists>f. Files fs d = Some f \<and> fIsDir f)"

interpretation memdirs: directory_fs memOps memIsDirectory
proof
  fix d f assume "fsOpen memOps d f = Inr (Inr True)"
  then show "memIsDirectory d f"
    by (auto simp: memOps_def Open_mem_def memIsDirectory_def split: sum.splits option.splits)
next
  fix d p f f' assume "fsMkdir memOps d p f = (None, f')"
  then show "memIsDirectory d f'"
    by (auto simp: memOps_def Mkdir_mem_def memIsDirectory_def split: option.splits if_splits)
next
  fix d p f f' e assume "fsMkdir memOps d p f = (None, f')" "memIsDirectory e f"
  then show "memIsDirectory e f'"
    by (auto simp: memOps_def Mkdir_mem_def memIsDirectory_def split: option.splits if_splits)
qed

subsection \<open>Reading an open file\<close>

lemma readChunks_data:
  assumes "\<not> fIsDir f" "\<not> fClosed f" "fOffset f \<le> length (fBytes f)"
  shows "\<exists>k. fst (readChunks ns f acc) = acc @ take k (drop (fOffset f) (fBytes f))
      \<and> (snd (readChunks ns f acc) \<noteq> None \<longrightarrow> snd (readChunks ns f acc) = Some EOF_file
           \<and> fst (readChunks ns f acc) = acc @ drop (fOffset f) (fBytes f))"
  using assms
proof (induction ns f acc rule: readChunks.induct)
  case (1 f acc)
  then show ?case by (auto intro: exI[of _ 0])
next
  case (2 n ns f acc)
  show ?case
  proof (cases "length (fBytes f) \<le> fOffset f")
    case True
    with 2(2-) show ?thesis by (auto simp: Read_file_def)
  next
    case False
    let ?b = "take n (drop (fOffset f) (fBytes f))"
    define g where "g = f\<lparr>fOffset := fOffset f + length ?b\<rparr>"
    have g: "\<not> fIsDir g" "\<not> fClosed g" "fOffset g \<le> length (fBytes g)" "fBytes g = fBytes f"
      "fOffset g = fOffset f + length ?b"
      using 2(2-) by (auto simp: g_def)
    have r: "Read_file n f = (Inr ?b, g)" using False 2(2-) by (simp add: Read_file_def Let_def g_def)
    have b: "?b @ drop (fOffset g) (fBytes f) = drop (fOffset f) (fBytes f)"
      by (metis append_eq_conv_conj append_take_drop_id drop_drop g(5) add.commute)
    from 2(1)[OF r[symmetric] refl g(1-3)] obtain k where
      k: "fst (readChunks ns g (acc @ ?b)) = acc @ ?b @ take k (drop (fOffset g) (fBytes f))"
      "snd (readChunks ns g (acc @ ?b)) \<noteq> None \<longrightarrow> snd (readChunks ns g (acc @ ?b)) = Some EOF_file
         \<and> fst (readChunks ns g (acc @ ?b)) = acc @ ?b @ drop (fOffset g) (fBytes f)"
      unfolding g(4) append_assoc by blast
    have "x @ take k y = take (length x + k) (x @ y)" for x y :: bytes by simp
    then have "?b @ take k (drop (fOffset g) (fBytes f)) = take (length ?b + k) (?b @ drop (fOffset g) (fBytes f))" .
    with k b r show ?thesis by (intro exI[of _ "length ?b + k"]) (simp del: length_take)
  qed
qed

subsection \<open>Properties\<close>

text \<open>
  A file written with its checksum to the in-memory file system, into a place that may be read, reads
  back with its checksum as the same bytes.
\<close>

theorem mem_sha256_roundtrip:
  assumes "WriteFileWithSHA256 sha memOps name data perm (f, v) = (None, (f', v'))"
    and "memCanRead name perm f" and "memCanRead (shaSumName name) perm f" and "trimSafe sha name"
  shows "ReadFileWithSHA256 sha memOps name (f', w) = (None, (f', data))"
  using assms by (rule memstore.sha_roundtrip)

definition exampleSha :: "bytes \<Rightarrow> bytes" where "exampleSha d = [of_nat (length d), foldl (XOR) 0 d]"

theorem mem_sha256_roundtrip_witness:
  "\<exists>f'. WriteFileWithSHA256 exampleSha memOps ''token'' [1, 2, 3] 420 (emptyMem, []) = (None, (f', []))
     \<and> ReadFileWithSHA256 exampleSha memOps ''token'' (f', []) = (None, (f', [1, 2, 3]))"
proof -
  have d: "Dir ''token'' = ''.''" "Dir ''token.sha256'' = ''.''" "Base ''token'' = ''token''"
    by (simp_all add: Dir_def Base_def Clean_def slash_def IsAbs_def HasPrefix_def)
  obtain f' where w: "WriteFileWithSHA256 exampleSha memOps ''token'' [1, 2, 3] 420 (emptyMem, []) = (None, (f', []))"
    by (simp add: WriteFileWithSHA256_def memOps_def WriteFile_mem_def hasPerms_def emptyMem_def d shaSumName_def)
  have r: "memCanRead ''token'' 420 emptyMem" "memCanRead (shaSumName ''token'') 420 emptyMem"
    by (simp_all add: memCanRead_def memDir_def emptyMem_def d shaSumName_def)
  have t: "trimSafe exampleSha ''token''" by (simp add: trimSafe_def exampleSha_def d is_space_def)
  from mem_sha256_roundtrip[OF w r t] w show ?thesis by blast
qed

text \<open>
  If the data file is replaced after it was written with its checksum, reading it succeeds
  only when the replacement has the recorded digest; every other replacement is refused.
\<close>

theorem mem_sha256_tamper_evident:
  assumes "WriteFileWithSHA256 sha memOps name data perm (f, v) = (None, (f', v'))"
    and "memCanRead name perm f" and "memCanRead (shaSumName name) perm f" and "trimSafe sha name"
    and "WriteFile_mem name other perm f' = (None, f2)" and "sha other \<noteq> sha data"
  shows "\<exists>e st. ReadFileWithSHA256 sha memOps name (f2, w) = (Some e, st)"
proof (rule ccontr)
  assume "\<not> ?thesis"
  then obtain f3 contents where "ReadFileWithSHA256 sha memOps name (f2, w) = (None, (f3, contents))"
    by (metis not_None_eq surj_pair)
  with memstore.sha_tamper[OF assms(1-4)] assms(5,6) show False by (fastforce simp: memOps_def)
qed

theorem mem_sha256_tamper_evident_witness:
  "\<exists>f' f2 e st. WriteFileWithSHA256 exampleSha memOps ''token'' [1, 2, 3] 420 (emptyMem, []) = (None, (f', []))
     \<and> WriteFile_mem ''token'' [1] 420 f' = (None, f2)
     \<and> ReadFileWithSHA256 exampleSha memOps ''token'' (f2, []) = (Some e, st)"
proof -
  have d: "Dir ''token'' = ''.''" "Dir ''token.sha256'' = ''.''" "Base ''token'' = ''token''"
    by (simp_all add: Dir_def Base_def Clean_def slash_def IsAbs_def HasPrefix_def)
  obtain f' where w: "WriteFileWithSHA256 exampleSha memOps ''token'' [1, 2, 3] 420 (emptyMem, []) = (None, (f', []))"
    and "hasPerms ''token'' 146 f' = None"
    by (simp add: WriteFileWithSHA256_def memOps_def WriteFile_mem_def hasPerms_def emptyMem_def d shaSumName_def)
  then obtain f2 where w2: "WriteFile_mem ''token'' [1] 420 f' = (None, f2)" by (simp add: WriteFile_mem_def)
  have r: "memCanRead ''token'' 420 emptyMem" "memCanRead (shaSumName ''token'') 420 emptyMem"
    by (simp_all add: memCanRead_def memDir_def emptyMem_def d shaSumName_def)
  have t: "trimSafe exampleSha ''token''" by (simp add: trimSafe_def exampleSha_def d is_space_def)
  have "exampleSha [1] \<noteq> exampleSha [1, 2, 3]" by (simp add: exampleSha_def)
  from mem_sha256_tamper_evident[OF w r t w2 this] w w2 show ?thesis by blast
qed

text \<open>
  When ensuring a directory path on the in-memory file system succeeds, the path and each of its prefixes is a directory
  afterwards.
\<close>

theorem mem_WithDirs_ensures:
  assumes "WithDirs memOps path perm (f, v) = (None, (f', v'))"
  shows "\<forall>d\<in>set (pathDirs path). memIsDirectory d f'"
  using assms by (rule memdirs.WithDirs_ensures)

theorem mem_WithDirs_ensures_witness:
  "\<exists>f'. WithDirs memOps ''a/b'' 493 (emptyMem, []) = (None, (f', [])) \<and> memIsDirectory ''a/b'' f'"
proof -
  have p: "pathDirs ''a/b'' = [''a'', ''a/b'']"
    by (simp add: pathDirs_def slash_def IsAbs_def HasPrefix_def pathJoin_def Clean_def Let_def)
  have d: "Dir ''a'' = ''.''" "Dir ''a/b'' = ''a''"
    by (simp_all add: Dir_def Clean_def slash_def IsAbs_def HasPrefix_def)
  obtain f' where w: "WithDirs memOps ''a/b'' 493 (emptyMem, []) = (None, (f', []))"
    by (simp add: WithDirs_def Options_def p WithDir_def memOps_def Open_mem_def Mkdir_mem_def hasPerms_def emptyMem_def d
        ErrNotExist_def slash_def)
  from mem_WithDirs_ensures[OF w] w p show ?thesis by auto
qed

text \<open>
  Reading an open in-memory file in chunks of any sizes yields a prefix of its contents, and all of them
  once the end is reported.
\<close>

theorem mem_file_reads_contents:
  assumes "Open_mem name fs = Inr f" and "\<not> fIsDir f" and "\<not> fClosed f" and "fOffset f = 0"
  shows "\<exists>k. fst (readChunks ns f []) = take k (fBytes f)
      \<and> (snd (readChunks ns f []) \<noteq> None \<longrightarrow> fst (readChunks ns f []) = fBytes f)"
  using readChunks_data[of f ns "[]"] assms by auto

theorem mem_file_reads_contents_witness:
  "\<exists>fs f. New_mem [WithFile_mem ''a'' ''hello'' 420] = Some fs \<and> Open_mem ''a'' fs = Inr f
     \<and> (\<exists>k. fst (readChunks [2, 2, 2, 2] f []) = take k (fBytes f))"
proof -
  have d: "Dir ''a'' = ''.''" by (simp add: Dir_def Clean_def slash_def IsAbs_def HasPrefix_def)
  obtain fs where fs: "New_mem [WithFile_mem ''a'' ''hello'' 420] = Some fs"
    "Files fs ''a'' = Some \<lparr>fBytes = bytes_of ''hello'', fPerm = 420, fName = [], fIsDir = False, fOffset = 0, fClosed = False\<rparr>"
    "hasPerms ''a'' 146 fs = None"
    by (simp add: New_mem_def WithFile_mem_def WriteFile_mem_def hasPerms_def emptyMem_def d)
  then obtain f where f: "Open_mem ''a'' fs = Inr f" "\<not> fIsDir f" "\<not> fClosed f" "fOffset f = 0"
    by (simp add: Open_mem_def)
  from mem_file_reads_contents[OF f, of "[2, 2, 2, 2]"] fs(1) f(1) show ?thesis by blast
qed

end
