(* ===== verification/Credentials.thy ===== *)
theory Credentials
  imports Complex_Main Fs
begin

text \<open>
  \<open>internal/credentials\<close>: the options, the validators and the constructor, decorating a request, fetching a
  token, its local copy, and the service goroutine \<open>run\<close>. HTTP, the UUID source, the msgpack codec, \<open>http.ParseTime\<close>
  and the rendering of a duration are arguments; the outcome of one HTTP exchange is a value. The
  refetch percentage is a rational number (the source computes with a float64). A channel is
  the flag that it is closed; closing a closed channel panics, which is the result \<open>None\<close>. Listeners are
  represented by the events dispatched to them.
\<close>

definition ErrInvalidInput_cred :: gerr where "ErrInvalidInput_cred = Sentinel ''credentials.ErrInvalidInput''"
definition ErrNilRequest :: gerr where "ErrNilRequest = Sentinel ''credentials.ErrNilRequest''"
definition ErrNoToken :: gerr where "ErrNoToken = Sentinel ''credentials.ErrNoToken''"
definition ErrTokenExpired :: gerr where "ErrTokenExpired = Sentinel ''credentials.ErrTokenExpired''"
definition ErrFetchNotAttempted :: gerr where "ErrFetchNotAttempted = Sentinel ''credentials.ErrFetchNotAttempted''"
definition ErrFetchFailed :: gerr where "ErrFetchFailed = Sentinel ''credentials.ErrFetchFailed''"

definition DefaultRefetchPercent :: rat where "DefaultRefetchPercent = 90"

record xmidtInfo =
  Token :: string
  ExpiresAt :: time

text \<open>The configuration; \<open>crFs\<close> says whether a file system was given.\<close>

record credConfig =
  crUrl :: string
  crRefetchPercent :: rat
  crAssumedLifetime :: duration
  crIgnoreBody :: bool
  crRequired :: bool
  crFs :: bool
  crFilename :: string
  crPerm :: FileMode
  crMacAddress :: string
  crSerialNumber :: string
  crHardwareModel :: string
  crHardwareManufacturer :: string
  crFirmwareVersion :: string
  crLastRebootReason :: string
  crXmidtProtocol :: string
  crBootRetryWait :: duration
  crLastReconnectReason :: string
  crPartnerID :: string

type_synonym credOption = "credConfig goption"

subsection \<open>Options\<close>

definition URL :: "string \<Rightarrow> credOption" where "URL url c = Inr (c\<lparr>crUrl := url\<rparr>)"

definition RefetchPercent :: "rat \<Rightarrow> credOption" where
  "RefetchPercent percent c =
     (if percent < 0 \<or> percent > 100 then Inl ErrInvalidInput_cred
      else Inr (c\<lparr>crRefetchPercent := (if percent = 0 then DefaultRefetchPercent else percent)\<rparr>))"

definition AssumedLifetime :: "duration \<Rightarrow> credOption" where
  "AssumedLifetime lifetime c = Inr (c\<lparr>crAssumedLifetime := lifetime\<rparr>)"
definition IgnoreBody :: credOption where "IgnoreBody c = Inr (c\<lparr>crIgnoreBody := True\<rparr>)"
definition Required :: credOption where "Required c = Inr (c\<lparr>crRequired := True\<rparr>)"

definition LocalStorage :: "bool \<Rightarrow> string \<Rightarrow> FileMode \<Rightarrow> credOption" where
  "LocalStorage fs filename perm c = Inr (c\<lparr>crFs := fs, crFilename := filename, crPerm := perm\<rparr>)"

definition MacAddress :: "string \<Rightarrow> credOption" where "MacAddress v c = Inr (c\<lparr>crMacAddress := v\<rparr>)"
definition SerialNumber :: "string \<Rightarrow> credOption" where "SerialNumber v c = Inr (c\<lparr>crSerialNumber := v\<rparr>)"
definition HardwareModel :: "string \<Rightarrow> credOption" where "HardwareModel v c = Inr (c\<lparr>crHardwareModel := v\<rparr>)"
definition HardwareManufacturer :: "string \<Rightarrow> credOption" where
  "HardwareManufacturer v c = Inr (c\<lparr>crHardwareManufacturer := v\<rparr>)"
definition FirmwareVersion :: "string \<Rightarrow> credOption" where "FirmwareVersion v c = Inr (c\<lparr>crFirmwareVersion := v\<rparr>)"
definition LastRebootReason :: "string \<Rightarrow> credOption" where
  "LastRebootReason v c = Inr (c\<lparr>crLastRebootReason := v\<rparr>)"
definition XmidtProtocol :: "string \<Rightarrow> credOption" where "XmidtProtocol v c = Inr (c\<lparr>crXmidtProtocol := v\<rparr>)"
definition BootRetryWait :: "duration \<Rightarrow> credOption" where "BootRetryWait v c = Inr (c\<lparr>crBootRetryWait := v\<rparr>)"

text \<open>The two dynamic strings: a nil function stands for the empty string.\<close>

definition LastReconnectReason :: "string option \<Rightarrow> credOption" where
  "LastReconnectReason v c = Inr (c\<lparr>crLastReconnectReason := (case v of None \<Rightarrow> [] | Some s \<Rightarrow> s)\<rparr>)"
definition PartnerID :: "string option \<Rightarrow> credOption" where
  "PartnerID v c = Inr (c\<lparr>crPartnerID := (case v of None \<Rightarrow> [] | Some s \<Rightarrow> s)\<rparr>)"

definition missing_input :: "string \<Rightarrow> gerr" where "missing_input what = Wrapped what ErrInvalidInput_cred"

definition urlVador :: credOption where "urlVador = vador (\<lambda>c. crUrl c = []) (missing_input ''URL is missing'')"
definition macAddressVador :: credOption where
  "macAddressVador = vador (\<lambda>c. crMacAddress c = []) (missing_input ''mac address is missing'')"
definition serialNumberVador :: credOption where
  "serialNumberVador = vador (\<lambda>c. crSerialNumber c = []) (missing_input ''serial number is missing'')"
definition hardwareModelVador :: credOption where
  "hardwareModelVador = vador (\<lambda>c. crHardwareModel c = []) (missing_input ''hardware model is missing'')"
definition hardwareManufacturerVador :: credOption where
  "hardwareManufacturerVador = vador (\<lambda>c. crHardwareManufacturer c = []) (missing_input ''hardware manufacturer is missing'')"
definition firmwareVersionVador :: credOption where
  "firmwareVersionVador = vador (\<lambda>c. crFirmwareVersion c = []) (missing_input ''firmware version is missing'')"
definition lastRebootReasonVador :: credOption where
  "lastRebootReasonVador = vador (\<lambda>c. crLastRebootReason c = []) (missing_input ''last reboot reason is missing'')"
definition xmidtProtocolVador :: credOption where
  "xmidtProtocolVador = vador (\<lambda>c. crXmidtProtocol c = []) (missing_input ''xmidt protocol is missing'')"
definition bootRetryWaitVador :: credOption where
  "bootRetryWaitVador = vador (\<lambda>c. crBootRetryWait c = 0) (missing_input ''boot retry wait is missing'')"

lemmas cred_vadors = urlVador_def macAddressVador_def serialNumberVador_def hardwareModelVador_def
  hardwareManufacturerVador_def firmwareVersionVador_def lastRebootReasonVador_def xmidtProtocolVador_def
  bootRetryWaitVador_def

definition zeroCred :: credConfig where
  "zeroCred = \<lparr>crUrl = [], crRefetchPercent = DefaultRefetchPercent, crAssumedLifetime = 0, crIgnoreBody = False,
     crRequired = False, crFs = False, crFilename = [], crPerm = 0, crMacAddress = [], crSerialNumber = [],
     crHardwareModel = [], crHardwareManufacturer = [], crFirmwareVersion = [], crLastRebootReason = [],
     crXmidtProtocol = [], crBootRetryWait = 0, crLastReconnectReason = [], crPartnerID = []\<rparr>"

definition New_cred :: "credOption option list \<Rightarrow> gerr + credConfig" where
  "New_cred opts =
     applyOpts (opts @ map Some [urlVador, macAddressVador, serialNumberVador, hardwareModelVador,
       hardwareManufacturerVador, firmwareVersionVador, lastRebootReasonVador, xmidtProtocolVador, bootRetryWaitVador])
       zeroCred"

subsection \<open>Decorating a request\<close>

record decorateEvent =
  dExpiration :: "time option"
  dErr :: "gerr option"

definition Credentials_get :: "xmidtInfo option \<Rightarrow> gerr + (string \<times> time)" where
  "Credentials_get token =
     (case token of
        None \<Rightarrow> Inl ErrNoToken
      | Some t \<Rightarrow> if Token t = [] then Inl ErrNoToken else Inr (Token t, ExpiresAt t))"

text \<open>
  The headers are a map from names to values, nil being \<open>None\<close>. The result is the error, the
  headers and the dispatched event.
\<close>

definition decorate ::
  "time \<Rightarrow> xmidtInfo option \<Rightarrow> (string \<rightharpoonup> string) option
   \<Rightarrow> gerr option \<times> (string \<rightharpoonup> string) option \<times> decorateEvent" where
  "decorate now token headers =
     (case headers of
        None \<Rightarrow> (Some ErrNilRequest, headers, \<lparr>dExpiration = None, dErr = Some ErrNilRequest\<rparr>)
      | Some hs \<Rightarrow>
          (case Credentials_get token of
             Inl e \<Rightarrow> (Some e, headers, \<lparr>dExpiration = None, dErr = Some e\<rparr>)
           | Inr (tok, expiresAt) \<Rightarrow>
               if now > expiresAt
               then (Some ErrTokenExpired, headers, \<lparr>dExpiration = Some expiresAt, dErr = Some ErrTokenExpired\<rparr>)
               else (None, Some (hs(''Authorization'' \<mapsto> ''Bearer '' @ tok)),
                     \<lparr>dExpiration = Some expiresAt, dErr = None\<rparr>)))"

definition Decorate ::
  "credConfig \<Rightarrow> time \<Rightarrow> xmidtInfo option \<Rightarrow> (string \<rightharpoonup> string) option
   \<Rightarrow> gerr option \<times> (string \<rightharpoonup> string) option \<times> decorateEvent" where
  "Decorate c now token headers =
     (case decorate now token headers of
        (err, hs, e) \<Rightarrow> (if crRequired c \<and> err \<noteq> None then err else None, hs, e))"

subsection \<open>Fetching\<close>

record httpResponse =
  rStatusCode :: int
  rHeader :: "string \<Rightarrow> string"
  rBody :: "gerr + string"

text \<open>What the steps of \<open>fetch\<close> that leave the process return.\<close>

datatype exchange =
    BadRequest gerr
  | NoUUID gerr
  | DoFailed string gerr
  | Response string httpResponse

record fetchEvent =
  feOrigin :: string
  feUUID :: string
  feStatusCode :: int
  feRetryIn :: duration
  feExpiration :: "time option"
  feErr :: "gerr option"

definition fetchEvent0 :: "string \<Rightarrow> fetchEvent" where
  "fetchEvent0 origin = \<lparr>feOrigin = origin, feUUID = [], feStatusCode = 0, feRetryIn = 0, feExpiration = None, feErr = None\<rparr>"

text \<open>The request headers.\<close>

definition fetchHeaders :: "(duration \<Rightarrow> string) \<Rightarrow> (string \<Rightarrow> string) \<Rightarrow> string \<Rightarrow> credConfig \<Rightarrow> (string \<times> string) list" where
  "fetchHeaders durString deviceID tid c =
     [(''X-Midt-Boot-Retry-Wait'', durString (crBootRetryWait c)), (''X-Midt-Mac-Address'', deviceID (crMacAddress c)),
      (''X-Midt-Serial-Number'', crSerialNumber c), (''X-Midt-Uuid'', tid), (''X-Midt-Partner-Id'', crPartnerID c),
      (''X-Midt-Hardware-Model'', crHardwareModel c), (''X-Midt-Hardware-Manufacturer'', crHardwareManufacturer c),
      (''X-Midt-Firmware-Name'', crFirmwareVersion c), (''X-Midt-Protocol'', crXmidtProtocol c),
      (''X-Midt-Last-Reboot-Reason'', crLastRebootReason c), (''X-Midt-Last-Reconnect-Reason'', crLastReconnectReason c)]"

text \<open>\<open>strconv.Atoi\<close>: an optional sign and decimal digits, within the range of a 64-bit integer.\<close>

definition isDigit :: "char \<Rightarrow> bool" where
  "isDigit ch \<longleftrightarrow> 48 \<le> (of_char ch :: nat) \<and> (of_char ch :: nat) \<le> 57"

definition digitsVal :: "string \<Rightarrow> int" where
  "digitsVal s = foldl (\<lambda>v ch. 10 * v + (int (of_char ch) - 48)) 0 s"

definition Atoi :: "string \<Rightarrow> int option" where
  "Atoi s =
     (let neg = HasPrefix s ''-'';
          ds = (if neg \<or> HasPrefix s ''+'' then tl s else s);
          v = (if neg then - digitsVal ds else digitsVal ds)
      in if ds \<noteq> [] \<and> list_all isDigit ds \<and> - (2 ^ 63) \<le> v \<and> v < 2 ^ 63 then Some v else None)"

text \<open>Multiplication of durations wraps around at 64 bits.\<close>

definition retryAfter :: "httpResponse \<Rightarrow> duration" where
  "retryAfter resp =
     (if rStatusCode resp = 429
      then (case Atoi (rHeader resp ''Retry-After'') of Some after \<Rightarrow> wrap64 (after * Second) | None \<Rightarrow> 0)
      else 0)"

definition determineExpiration ::
  "(string \<Rightarrow> time option) \<Rightarrow> credConfig \<Rightarrow> time \<Rightarrow> httpResponse \<Rightarrow> time" where
  "determineExpiration parseTime c now resp =
     (case parseTime (rHeader resp ''Expires'') of
        Some expiration \<Rightarrow> expiration
      | None \<Rightarrow>
          if crAssumedLifetime c > 0 then now + crAssumedLifetime c
          else now + 60 * Minute * 24 * 365 * 100)"

definition fetch ::
  "(string \<Rightarrow> time option) \<Rightarrow> credConfig \<Rightarrow> time \<Rightarrow> exchange
   \<Rightarrow> (xmidtInfo option \<times> duration \<times> gerr option) \<times> fetchEvent" where
  "fetch parseTime c now ex =
     (let fe = fetchEvent0 ''network'' in
      case ex of
        BadRequest e \<Rightarrow> (let err = errorsJoin [Some e, Some ErrFetchNotAttempted] in ((None, 0, err), fe\<lparr>feErr := err\<rparr>))
      | NoUUID e \<Rightarrow> (let err = errorsJoin [Some e, Some ErrFetchNotAttempted] in ((None, 0, err), fe\<lparr>feErr := err\<rparr>))
      | DoFailed tid e \<Rightarrow>
          (let err = errorsJoin [Some e, Some ErrFetchFailed] in ((None, 0, err), fe\<lparr>feUUID := tid, feErr := err\<rparr>))
      | Response tid resp \<Rightarrow>
          (let fe' = fe\<lparr>feUUID := tid, feStatusCode := rStatusCode resp\<rparr> in
           if rStatusCode resp \<noteq> 200
           then (let retryIn = retryAfter resp; err = errorsJoin [None, Some ErrFetchFailed]
                 in ((None, retryIn, err), fe'\<lparr>feRetryIn := retryIn, feErr := err\<rparr>))
           else (case rBody resp of
                   Inl e \<Rightarrow>
                     (let err = errorsJoin [Some e, Some ErrFetchFailed] in ((None, 0, err), fe'\<lparr>feErr := err\<rparr>))
                 | Inr body \<Rightarrow>
                     (let token = \<lparr>Token = body, ExpiresAt = determineExpiration parseTime c now resp\<rparr>
                      in ((Some token, 0, None), fe'\<lparr>feExpiration := Some (ExpiresAt token)\<rparr>)))))"

subsection \<open>The local copy\<close>

text \<open>What the service calls outside the package: SHA-256, the msgpack codec, the file system, \<open>http.ParseTime\<close>.\<close>

record 'f credEnv =
  envSha :: "bytes \<Rightarrow> bytes"
  envEncode :: "xmidtInfo \<Rightarrow> gerr + bytes"
  envDecode :: "bytes \<Rightarrow> gerr + xmidtInfo"
  envFs :: "'f fsops"
  envParseTime :: "string \<Rightarrow> time option"

definition store :: "'f credEnv \<Rightarrow> credConfig \<Rightarrow> xmidtInfo \<Rightarrow> 'f \<Rightarrow> gerr option \<times> 'f" where
  "store env c token f =
     (if \<not> crFs c then (None, f)
      else case envEncode env token of
        Inl e \<Rightarrow> (Some e, f)
      | Inr buf \<Rightarrow>
          (case Operate [Some (WithPath (envFs env) (crFilename c) (crPerm c)),
                         Some (WriteFileWithSHA256 (envSha env) (envFs env) (crFilename c) buf (crPerm c))] (f, []) of
             (err, (f', _)) \<Rightarrow> (err, f')))"

definition load ::
  "'f credEnv \<Rightarrow> credConfig \<Rightarrow> 'f \<Rightarrow> (xmidtInfo option \<times> gerr option \<times> fetchEvent option) \<times> 'f" where
  "load env c f =
     (if \<not> crFs c then ((None, None, None), f)
      else let fe = fetchEvent0 ''fs'' in
        case Operate [Some (WithPath (envFs env) (crFilename c) (crPerm c)),
                      Some (ReadFileWithSHA256 (envSha env) (envFs env) (crFilename c))] (f, []) of
          (Some e, (f', _)) \<Rightarrow>
            (let err = errorsJoin [Some e, Some ErrFetchFailed] in ((None, err, Some (fe\<lparr>feErr := err\<rparr>)), f'))
        | (None, (f', buf)) \<Rightarrow>
            (case envDecode env buf of
               Inl e \<Rightarrow>
                 (let err = errorsJoin [Some e, Some ErrFetchFailed] in ((None, err, Some (fe\<lparr>feErr := err\<rparr>)), f'))
             | Inr token \<Rightarrow> ((Some token, None, Some (fe\<lparr>feExpiration := Some (ExpiresAt token)\<rparr>)), f')))"

subsection \<open>The service\<close>

text \<open>
  The life cycle flag: \<open>Start\<close> starts the goroutine unless a shutdown function is set; \<open>Stop\<close> calls the function and
  leaves it set. The results say whether a goroutine is started and whether one is cancelled.
\<close>

definition Start_cred :: "bool \<Rightarrow> bool \<times> bool" where
  "Start_cred shutdown = (if shutdown then (shutdown, False) else (True, True))"

definition Stop_cred :: "bool \<Rightarrow> bool \<times> bool" where
  "Stop_cred shutdown = (shutdown, shutdown)"

text \<open>
  Where the goroutine is: at the top of its loop, in the select with a timer set, sending the
  reply to a wake-up, or returned.
\<close>

datatype runPhase = AtTop | Selecting duration | Replying | RunReturned

record 'f credState =
  stToken :: "xmidtInfo option"
  stFetchedClosed :: bool
  stValidClosed :: bool
  stSkipFetch :: bool
  stFromDisc :: bool
  stFetched :: bool
  stValid :: bool
  stRetryIn :: duration
  stCur :: "xmidtInfo option \<times> gerr option"
  stFsys :: 'f
  stEvents :: "fetchEvent list"
  stPhase :: runPhase

definition closeChan :: "bool \<Rightarrow> bool option" where
  "closeChan ch = (if ch then None else Some True)"

definition run_init :: "'f credEnv \<Rightarrow> credConfig \<Rightarrow> 'f \<Rightarrow> 'f credState" where
  "run_init env c f =
     (case load env c f of ((token, err, ev), f') \<Rightarrow>
        (let ok = (err = None \<and> token \<noteq> None)
         in \<lparr>stToken = None, stFetchedClosed = False, stValidClosed = False, stSkipFetch = ok, stFromDisc = ok,
             stFetched = False, stValid = False, stRetryIn = 0, stCur = (token, err), stFsys = f',
             stEvents = (case ev of None \<Rightarrow> [] | Some e \<Rightarrow> [e]), stPhase = AtTop\<rparr>))"

text \<open>The body of the loop, piece by piece: the fetch, the close of \<open>fetched\<close>, and what is done with the token.\<close>

definition run_fetch :: "'f credEnv \<Rightarrow> credConfig \<Rightarrow> time \<Rightarrow> exchange \<Rightarrow> 'f credState \<Rightarrow> 'f credState" where
  "run_fetch env c now ex st =
     (if stSkipFetch st then st
      else case fetch (envParseTime env) c now ex of
        ((token, retryIn, err), ev) \<Rightarrow>
          st\<lparr>stCur := (token, err), stRetryIn := retryIn, stEvents := stEvents st @ [ev],
             stFromDisc := (if err = None then False else stFromDisc st)\<rparr>)"

definition run_mark_fetched :: "'f credState \<Rightarrow> 'f credState option" where
  "run_mark_fetched st =
     (if stFetched st then Some (st\<lparr>stSkipFetch := False\<rparr>)
      else case closeChan (stFetchedClosed st) of
        None \<Rightarrow> None
      | Some b \<Rightarrow> Some (st\<lparr>stFetchedClosed := b, stFetched := True, stSkipFetch := False\<rparr>))"

definition refetchAfter :: "credConfig \<Rightarrow> duration \<Rightarrow> duration" where
  "refetchAfter c until = \<lfloor>of_int until * crRefetchPercent c / 100\<rfloor>"

definition run_use_token :: "'f credEnv \<Rightarrow> credConfig \<Rightarrow> time \<Rightarrow> 'f credState \<Rightarrow> 'f credState option" where
  "run_use_token env c now st =
     (let nxt = max Second (stRetryIn st) in
      case stCur st of
        (Some token, None) \<Rightarrow>
          (let st1 = st\<lparr>stToken := Some token\<rparr> in
           case (if stValid st1 then Some st1
                 else case closeChan (stValidClosed st1) of
                        None \<Rightarrow> None | Some b \<Rightarrow> Some (st1\<lparr>stValidClosed := b, stValid := True\<rparr>)) of
             None \<Rightarrow> None
           | Some st2 \<Rightarrow>
               (let st3 = (if stFromDisc st2 then st2 else st2\<lparr>stFsys := snd (store env c token (stFsys st2))\<rparr>);
                    until = ExpiresAt token - now
                in Some (st3\<lparr>stPhase := Selecting (if 0 < until then refetchAfter c until else nxt)\<rparr>)))
      | _ \<Rightarrow> Some (st\<lparr>stPhase := Selecting nxt\<rparr>))"

text \<open>
  A caller of \<open>MarkInvalid\<close>: offering its channel, waiting for the reply, or gone because it got the reply or its
  context ended. The events of the system are the steps of the goroutine and of that caller.
\<close>

datatype caller = Offering | Waiting | Gone

datatype credEvent = Iterate time exchange time | WakeUp | Reply | Timer | Cancelled | CallerEnds

fun credStep :: "'f credEnv \<Rightarrow> credConfig \<Rightarrow> credEvent \<Rightarrow> 'f credState \<times> caller \<Rightarrow> ('f credState \<times> caller) option" where
  "credStep env c (Iterate now ex now') (st, m) =
     (if stPhase st = AtTop
      then (case run_mark_fetched (run_fetch env c now ex st) of
              None \<Rightarrow> None
            | Some st1 \<Rightarrow> map_option (\<lambda>st2. (st2, m)) (run_use_token env c now' st1))
      else None)"
| "credStep env c WakeUp (st, m) =
     (case stPhase st of
        Selecting _ \<Rightarrow>
          if m = Offering
          then Some ((if stValid st then st\<lparr>stValidClosed := False, stValid := False\<rparr> else st)\<lparr>stPhase := Replying\<rparr>, Waiting)
          else None
      | _ \<Rightarrow> None)"
| "credStep env c Reply (st, m) =
     (if stPhase st = Replying \<and> m = Waiting then Some (st\<lparr>stPhase := AtTop\<rparr>, Gone) else None)"
| "credStep env c Timer (st, m) =
     (case stPhase st of Selecting _ \<Rightarrow> Some (st\<lparr>stPhase := AtTop\<rparr>, m) | _ \<Rightarrow> None)"
| "credStep env c Cancelled (st, m) =
     (case stPhase st of Selecting _ \<Rightarrow> Some (st\<lparr>stPhase := RunReturned\<rparr>, m) | _ \<Rightarrow> None)"
| "credStep env c CallerEnds (st, m) = (if m = Gone then None else Some (st, Gone))"

text \<open>Whether an event can happen at all, apart from a panic in it.\<close>

fun credEnabled :: "credEvent \<Rightarrow> 'f credState \<times> caller \<Rightarrow> bool" where
  "credEnabled (Iterate now ex now') (st, m) = (stPhase st = AtTop)"
| "credEnabled WakeUp (st, m) = ((\<exists>d. stPhase st = Selecting d) \<and> m = Offering)"
| "credEnabled Reply (st, m) = (stPhase st = Replying \<and> m = Waiting)"
| "credEnabled Timer (st, m) = (\<exists>d. stPhase st = Selecting d)"
| "credEnabled Cancelled (st, m) = (\<exists>d. stPhase st = Selecting d)"
| "credEnabled CallerEnds (st, m) = (m \<noteq> Gone)"

inductive cred_reachable :: "'f credEnv \<Rightarrow> credConfig \<Rightarrow> 'f \<Rightarrow> 'f credState \<times> caller \<Rightarrow> bool" for env c f where
  start: "cred_reachable env c f (run_init env c f, m)"
| step: "cred_reachable env c f x \<Longrightarrow> credStep env c e x = Some y \<Longrightarrow> cred_reachable env c f y"

subsection \<open>Configuration facts\<close>

text \<open>The options the package exports, as far as they touch the configuration.\<close>

definition credOptions :: "credOption set" where
  "credOptions = range URL \<union> range RefetchPercent \<union> range AssumedLifetime \<union> {IgnoreBody, Required}
     \<union> {LocalStorage fs n p | fs n p. True} \<union> range MacAddress \<union> range SerialNumber \<union> range HardwareModel
     \<union> range HardwareManufacturer \<union> range FirmwareVersion \<union> range LastRebootReason \<union> range XmidtProtocol
     \<union> range BootRetryWait \<union> range LastReconnectReason \<union> range PartnerID"

lemmas cred_option_defs = URL_def RefetchPercent_def AssumedLifetime_def IgnoreBody_def Required_def LocalStorage_def
  MacAddress_def SerialNumber_def HardwareModel_def HardwareManufacturer_def FirmwareVersion_def LastRebootReason_def
  XmidtProtocol_def BootRetryWait_def LastReconnectReason_def PartnerID_def

lemma credOptions_percent:
  assumes "f \<in> credOptions" "0 < crRefetchPercent c \<and> crRefetchPercent c \<le> 100" "f c = Inr d"
  shows "0 < crRefetchPercent d \<and> crRefetchPercent d \<le> 100"
  using assms
  by (auto simp: credOptions_def cred_option_defs DefaultRefetchPercent_def split: if_splits)

definition credValid :: "credConfig \<Rightarrow> bool" where
  "credValid c \<longleftrightarrow> crUrl c \<noteq> [] \<and> crMacAddress c \<noteq> [] \<and> crSerialNumber c \<noteq> [] \<and> crHardwareModel c \<noteq> []
     \<and> crHardwareManufacturer c \<noteq> [] \<and> crFirmwareVersion c \<noteq> [] \<and> crLastRebootReason c \<noteq> []
     \<and> crXmidtProtocol c \<noteq> [] \<and> crBootRetryWait c \<noteq> 0"

lemma New_cred_split:
  assumes "New_cred opts = Inr c"
  shows "applyOpts opts zeroCred = Inr c" "credValid c"
proof -
  obtain c1 where c1: "applyOpts opts zeroCred = Inr c1" and v: "applyOpts (map Some [urlVador, macAddressVador,
      serialNumberVador, hardwareModelVador, hardwareManufacturerVador, firmwareVersionVador, lastRebootReasonVador,
      xmidtProtocolVador, bootRetryWaitVador]) c1 = Inr c"
    using assms by (auto simp: New_cred_def applyOpts_append split: sum.splits)
  from v have "c1 = c \<and> credValid c"
    by (simp add: cred_vadors vador_apply credValid_def split: if_splits)
  with c1 show "applyOpts opts zeroCred = Inr c" "credValid c" by auto
qed

lemma New_cred_percent:
  assumes "New_cred opts = Inr c" and "\<And>f. Some f \<in> set opts \<Longrightarrow> f \<in> credOptions"
  shows "0 < crRefetchPercent c \<and> crRefetchPercent c \<le> 100"
proof (rule applyOpts_invariant[OF New_cred_split(1)[OF assms(1)], where P = "\<lambda>c. 0 < crRefetchPercent c \<and> crRefetchPercent c \<le> 100"])
  show "0 < crRefetchPercent zeroCred \<and> crRefetchPercent zeroCred \<le> 100"
    by (simp add: zeroCred_def DefaultRefetchPercent_def)
qed (use assms(2) credOptions_percent in blast)

lemma refetchAfter_bounds:
  assumes "0 < crRefetchPercent c" "crRefetchPercent c \<le> 100" "0 < until"
  shows "0 \<le> refetchAfter c until \<and> refetchAfter c until \<le> until"
proof -
  have "of_int until * crRefetchPercent c / 100 \<le> of_int until"
    using assms by (simp add: field_simps)
  moreover have "0 \<le> of_int until * crRefetchPercent c / 100" using assms by simp
  ultimately show ?thesis unfolding refetchAfter_def by (simp add: floor_le_iff le_floor_iff)
qed

subsection \<open>The channels of the service\<close>

text \<open>The loop's flags say which of the two channels are closed.\<close>

definition cred_inv :: "'f credState \<Rightarrow> bool" where
  "cred_inv st \<longleftrightarrow> stFetched st = stFetchedClosed st \<and> stValid st = stValidClosed st
     \<and> (stValid st \<longrightarrow> stToken st \<noteq> None)"

lemma cred_inv_init: "cred_inv (run_init env c f)"
  by (simp add: cred_inv_def run_init_def Let_def split: prod.splits)

lemma run_fetch_inv: "cred_inv st \<Longrightarrow> cred_inv (run_fetch env c now ex st)"
  by (simp add: cred_inv_def run_fetch_def split: prod.splits)

lemma run_mark_fetched_inv:
  "cred_inv st \<Longrightarrow> \<exists>st'. run_mark_fetched st = Some st' \<and> cred_inv st' \<and> stFetched st' \<and> stCur st' = stCur st
     \<and> stRetryIn st' = stRetryIn st"
  by (auto simp: cred_inv_def run_mark_fetched_def closeChan_def)

lemma run_use_token_inv: "cred_inv st \<Longrightarrow> \<exists>st'. run_use_token env c now st = Some st' \<and> cred_inv st'"
  by (cases "stCur st") (auto simp: cred_inv_def run_use_token_def closeChan_def Let_def split: option.splits)

lemma credStep_inv:
  assumes "cred_inv (fst x)" and "credStep env c e x = Some y"
  shows "cred_inv (fst y)"
proof (cases e)
  case (Iterate now ex now')
  obtain st m where x: "x = (st, m)" by fastforce
  with assms run_fetch_inv have "cred_inv (run_fetch env c now ex st)" by auto
  from run_mark_fetched_inv[OF this] obtain st1 where s1: "run_mark_fetched (run_fetch env c now ex st) = Some st1" "cred_inv st1"
    by blast
  from run_use_token_inv[OF s1(2), of env c now'] obtain st2 where "run_use_token env c now' st1 = Some st2" "cred_inv st2" by blast
  with s1 assms(2) x Iterate show ?thesis by (auto split: if_splits)
qed (use assms in \<open>cases x; auto simp: cred_inv_def split: runPhase.splits if_splits\<close>)+

lemma cred_reachable_inv: "cred_reachable env c f x \<Longrightarrow> cred_inv (fst x)"
  by (induction rule: cred_reachable.induct) (auto simp: cred_inv_init intro: credStep_inv)

lemma Iterate_result:
  assumes "cred_inv st" and "stPhase st = AtTop"
  shows "\<exists>st'. credStep env c (Iterate now ex now') (st, m) = Some (st', m) \<and> stFetchedClosed st' \<and>
     (let cur = (if stSkipFetch st then stCur st else case fetch (envParseTime env) c now ex of ((t, r, e), _) \<Rightarrow> (t, e));
          r = (if stSkipFetch st then stRetryIn st else case fetch (envParseTime env) c now ex of ((t, r, e), _) \<Rightarrow> r)
      in case cur of
           (Some token, None) \<Rightarrow> stToken st' = Some token \<and> stValidClosed st' \<and> stPhase st' =
              Selecting (if 0 < ExpiresAt token - now' then refetchAfter c (ExpiresAt token - now') else max Second r)
         | _ \<Rightarrow> stToken st' = stToken st \<and> stPhase st' = Selecting (max Second r))"
  using assms
  by (cases "fetch (envParseTime env) c now ex"; cases "stCur st"; cases "stSkipFetch st")
     (auto simp: cred_inv_def run_fetch_def run_mark_fetched_def run_use_token_def closeChan_def Let_def split: option.splits)

subsection \<open>Examples\<close>

definition exampleCredOpts :: "credOption option list" where
  "exampleCredOpts = [Some (URL ''http://issuer''), None, Some (MacAddress ''mac:112233445566''), Some (SerialNumber ''1''),
     Some (HardwareModel ''m''), Some (HardwareManufacturer ''x''), Some (FirmwareVersion ''v''),
     Some (LastRebootReason ''r''), Some (XmidtProtocol ''p''), Some (BootRetryWait Second), Some (RefetchPercent 50)]"

definition exampleCred :: credConfig where
  "exampleCred = zeroCred\<lparr>crUrl := ''http://issuer'', crMacAddress := ''mac:112233445566'', crSerialNumber := ''1'',
     crHardwareModel := ''m'', crHardwareManufacturer := ''x'', crFirmwareVersion := ''v'', crLastRebootReason := ''r'',
     crXmidtProtocol := ''p'', crBootRetryWait := Second, crRefetchPercent := 50\<rparr>"

definition memEnv :: "memFS credEnv" where
  "memEnv = \<lparr>envSha = exampleSha, envEncode = (\<lambda>t. Inr (bytes_of (Token t))),
     envDecode = (\<lambda>b. Inr \<lparr>Token = string_of b, ExpiresAt = 7\<rparr>), envFs = memOps, envParseTime = (\<lambda>_. None)\<rparr>"

lemma store_load:
  assumes "crFs c" and "envFs env = memOps" and "envEncode env t = Inr buf" and "envDecode env buf = Inr t"
    and "trimSafe (envSha env) (crFilename c)"
    and "WithPath memOps (crFilename c) (crPerm c) (f, []) = (None, (f1, []))"
    and "memCanRead (crFilename c) (crPerm c) f1" and "memCanRead (shaSumName (crFilename c)) (crPerm c) f1"
    and "store env c t f = (None, f')"
    and "WithPath memOps (crFilename c) (crPerm c) (f', []) = (None, (f', []))"
  shows "\<exists>ev. load env c f' = ((Some t, None, Some ev), f')"
proof -
  obtain v where w: "WriteFileWithSHA256 (envSha env) memOps (crFilename c) buf (crPerm c) (f1, []) = (None, (f', v))"
    using assms(1-3,6,9) by (auto simp: store_def split: prod.splits option.splits)
  have "ReadFileWithSHA256 (envSha env) memOps (crFilename c) (f', []) = (None, (f', buf))"
    using memstore.sha_roundtrip[OF w assms(7,8,5)] .
  then show ?thesis using assms(1,2,4,10) by (simp add: load_def Let_def)
qed

definition exampleStored :: credConfig where
  "exampleStored = exampleCred\<lparr>crFs := True, crFilename := ''creds'', crPerm := 511\<rparr>"

definition exampleToken :: xmidtInfo where "exampleToken = \<lparr>Token = ''tok'', ExpiresAt = 7\<rparr>"

lemma example_stored:
  obtains f1 f' where "crFs exampleStored" "envFs memEnv = memOps" "envEncode memEnv exampleToken = Inr (bytes_of ''tok'')"
    "envDecode memEnv (bytes_of ''tok'') = Inr exampleToken" "trimSafe (envSha memEnv) (crFilename exampleStored)"
    "WithPath memOps (crFilename exampleStored) (crPerm exampleStored) (emptyMem, []) = (None, (f1, []))"
    "memCanRead (crFilename exampleStored) (crPerm exampleStored) f1"
    "memCanRead (shaSumName (crFilename exampleStored)) (crPerm exampleStored) f1"
    "store memEnv exampleStored exampleToken emptyMem = (None, f')"
    "WithPath memOps (crFilename exampleStored) (crPerm exampleStored) (f', []) = (None, (f', []))"
proof -
  let ?f1 = "emptyMem\<lparr>Dirs := [''.'' \<mapsto> 511]\<rparr>"
  have d: "Dir ''creds'' = ''.''" "Dir ''creds.sha256'' = ''.''" "Dir ''.'' = ''.''" "Base ''creds'' = ''creds''"
    by (simp_all add: Dir_def Base_def Clean_def slash_def IsAbs_def HasPrefix_def)
  have pd: "pathDirs ''.'' = [''.'']"
    by (simp add: pathDirs_def slash_def IsAbs_def HasPrefix_def pathJoin_def Clean_def Let_def)
  have c: "crFs exampleStored" "crFilename exampleStored = ''creds''" "crPerm exampleStored = 511"
    by (simp_all add: exampleStored_def)
  have w1: "WithPath memOps ''creds'' 511 (emptyMem, []) = (None, (?f1, []))"
    by (simp add: WithPath_def WithDirs_def Options_def d pd WithDir_def memOps_def Open_mem_def Mkdir_mem_def hasPerms_def
        emptyMem_def ErrNotExist_def slash_def)
  have e: "envEncode memEnv exampleToken = Inr (bytes_of ''tok'')" "envDecode memEnv (bytes_of ''tok'') = Inr exampleToken"
    by (simp_all add: memEnv_def exampleToken_def)
  obtain f' where st: "store memEnv exampleStored exampleToken emptyMem = (None, f')"
    and f': "Dirs f' = [''.'' \<mapsto> 511]" "Errs f' = Map.empty" "Files f' ''.'' = None"
    using w1 by (simp add: store_def c e)
      (simp add: memEnv_def WriteFileWithSHA256_def memOps_def WriteFile_mem_def hasPerms_def d emptyMem_def shaSumName_def)
  have w2: "WithPath memOps ''creds'' 511 (f', []) = (None, (f', []))"
    using f' by (simp add: WithPath_def WithDirs_def Options_def d pd WithDir_def memOps_def Open_mem_def hasPerms_def)
  have r: "memCanRead ''creds'' 511 ?f1" "memCanRead (shaSumName ''creds'') 511 ?f1"
    by (simp_all add: memCanRead_def memDir_def emptyMem_def d shaSumName_def)
  have t: "trimSafe (envSha memEnv) ''creds''" by (simp add: trimSafe_def memEnv_def exampleSha_def d is_space_def)
  show thesis using that[of ?f1 f'] c e w1 w2 r t st by (simp add: memEnv_def)
qed

lemma example_store_load:
  "\<exists>f' ev. store memEnv exampleStored exampleToken emptyMem = (None, f')
     \<and> load memEnv exampleStored f' = ((Some exampleToken, None, Some ev), f')"
  by (rule example_stored) (blast dest: store_load)

subsection \<open>Properties\<close>

text \<open>
  A configuration that \<open>New\<close> accepts names every required identity field, and, when built with the package's
  options, its refetch percentage is above 0 and at most 100, so that a refetch is planned
  no later than the expiration.
\<close>

theorem New_cred_safe:
  assumes "New_cred opts = Inr c" and "\<And>f. Some f \<in> set opts \<Longrightarrow> f \<in> credOptions" and "0 < until"
  shows "credValid c \<and> 0 \<le> refetchAfter c until \<and> refetchAfter c until \<le> until"
  using New_cred_split(2)[OF assms(1)] refetchAfter_bounds[of c until] New_cred_percent[OF assms(1,2)] assms(3) by blast

theorem New_cred_safe_witness:
  "credValid exampleCred \<and> 0 \<le> refetchAfter exampleCred 100 \<and> refetchAfter exampleCred 100 \<le> 100"
proof -
  have new: "New_cred exampleCredOpts = Inr exampleCred"
    by (simp add: New_cred_def exampleCredOpts_def exampleCred_def cred_option_defs cred_vadors vador_apply zeroCred_def Second_def)
  have opts: "Some f \<in> set exampleCredOpts \<Longrightarrow> f \<in> credOptions" for f
    by (auto simp: exampleCredOpts_def credOptions_def)
  show ?thesis by (rule New_cred_safe[OF new opts]) auto
qed





text \<open>
  C29: A caller of \<open>MarkInvalid\<close> whose context ends after its wake-up was taken leaves the goroutine blocked for ever on the
  reply: no event is possible any more, a cancellation by \<open>Stop\<close> included.
\<close>

theorem abandoned_MarkInvalid_deadlocks:
  assumes "cred_reachable env c f (st, Offering)" and "stPhase st = Selecting d"
  shows "\<exists>st'. cred_reachable env c f (st', Gone) \<and> stPhase st' = Replying
     \<and> (\<forall>e. credStep env c e (st', Gone) = None)"
proof -
  let ?st = "(if stValid st then st\<lparr>stValidClosed := False, stValid := False\<rparr> else st)\<lparr>stPhase := Replying\<rparr>"
  have w: "credStep env c WakeUp (st, Offering) = Some (?st, Waiting)" using assms(2) by simp
  have g: "credStep env c CallerEnds (?st, Waiting) = Some (?st, Gone)" by simp
  have "cred_reachable env c f (?st, Gone)"
    using assms(1) w g by (blast intro: cred_reachable.step)
  moreover have "credStep env c e (?st, Gone) = None" for e by (cases e) auto
  ultimately show ?thesis by (intro exI[of _ ?st]) auto
qed

theorem abandoned_MarkInvalid_deadlocks_witness:
  "\<exists>st'. cred_reachable memEnv exampleCred emptyMem (st', Gone) \<and> (\<forall>e. credStep memEnv exampleCred e (st', Gone) = None)"
proof -
  let ?st = "run_init memEnv exampleCred emptyMem"
  have i: "stPhase ?st = AtTop"
    by (simp add: run_init_def load_def exampleCred_def zeroCred_def Let_def)
  from Iterate_result[OF cred_inv_init i, of memEnv exampleCred 5 "NoUUID (Plain ''rng'')" 6 Offering]
  obtain st1 d where s: "credStep memEnv exampleCred (Iterate 5 (NoUUID (Plain ''rng'')) 6) (?st, Offering) = Some (st1, Offering)"
    "stPhase st1 = Selecting d"
    by (auto simp: Let_def simp del: credStep.simps split: option.splits prod.splits if_splits)
  have "cred_reachable memEnv exampleCred emptyMem (st1, Offering)"
    using cred_reachable.step[OF cred_reachable.start s(1)] .
  from abandoned_MarkInvalid_deadlocks[OF this s(2)] show ?thesis by blast
qed

text \<open>
  \<open>Decorate\<close> sets the Authorization header exactly when a non-empty token is held that has not expired, and then leaves the
  other headers alone; in every other case the headers are untouched, and an error is returned
  exactly when the credentials are required.
\<close>

theorem Decorate_spec:
  "(case (headers, token) of
      (Some hs, Some t) \<Rightarrow>
        if Token t \<noteq> [] \<and> now \<le> ExpiresAt t
        then \<exists>ev. Decorate c now token headers = (None, Some (hs(''Authorization'' \<mapsto> ''Bearer '' @ Token t)), ev)
        else \<exists>err ev. Decorate c now token headers = (err, headers, ev) \<and> (err \<noteq> None \<longleftrightarrow> crRequired c) \<and> dErr ev \<noteq> None
    | _ \<Rightarrow> \<exists>err ev. Decorate c now token headers = (err, headers, ev) \<and> (err \<noteq> None \<longleftrightarrow> crRequired c) \<and> dErr ev \<noteq> None)"
  by (auto simp: Decorate_def decorate_def Credentials_get_def split: option.splits)



text \<open>
  A token read from the local copy is published without a look at its expiration: with an expired one, the
  channel \<open>valid\<close> is closed although decorating a request fails with \<open>ErrTokenExpired\<close>.
\<close>

theorem expired_local_token_is_published:
  assumes "load env c f = ((Some t, None, ev), f1)" and "ExpiresAt t < now'" and "Token t \<noteq> []"
  shows "\<exists>st'. credStep env c (Iterate now ex now') (run_init env c f, m) = Some (st', m) \<and> stValidClosed st'
     \<and> fst (decorate now' (stToken st') (Some hs)) = Some ErrTokenExpired"
proof -
  have i: "stPhase (run_init env c f) = AtTop" "stSkipFetch (run_init env c f)" "stCur (run_init env c f) = (Some t, None)"
    using assms(1) by (simp_all add: run_init_def Let_def)
  from Iterate_result[OF cred_inv_init i(1), of env c now ex now' m] i(2,3) assms(2,3) show ?thesis
    by (auto simp: decorate_def Credentials_get_def simp del: credStep.simps)
qed

theorem expired_local_token_is_published_witness:
  "\<exists>f st'. credStep memEnv exampleStored (Iterate 9 (NoUUID (Plain ''rng'')) 9) (run_init memEnv exampleStored f, Gone) = Some (st', Gone)
     \<and> stValidClosed st' \<and> fst (decorate 9 (stToken st') (Some Map.empty)) = Some ErrTokenExpired"
proof -
  obtain f ev where "load memEnv exampleStored f = ((Some exampleToken, None, Some ev), f)"
    using example_store_load by blast
  from expired_local_token_is_published[OF this, of 9 9 "NoUUID (Plain ''rng'')" Gone Map.empty] show ?thesis
    by (auto simp: exampleToken_def simp del: credStep.simps)
qed

end
