(* ===== verification/HttpHeader.thy ===== *)
theory HttpHeader
  imports Prelude
begin

text \<open>
  \<open>http.Header\<close>, as the connection of the agent and the websocket handshake use it, and the comma-separated tokens of a header
  (\<open>headerTokens\<close> and \<open>headerContainsTokenIgnoreCase\<close> of \<open>accept.go\<close>).
\<close>

text \<open>\<open>http.Header\<close>: canonical keys and lists of values; nil is \<open>None\<close>.\<close>

type_synonym httpHeader = "string \<rightharpoonup> string list"

definition isTokenChar :: "char \<Rightarrow> bool" where
  "isTokenChar ch \<longleftrightarrow> (let n = (of_char ch :: nat) in
     (48 \<le> n \<and> n \<le> 57) \<or> (65 \<le> n \<and> n \<le> 90) \<or> (97 \<le> n \<and> n \<le> 122)
     \<or> n \<in> set [33, 35, 36, 37, 38, 39, 42, 43, 45, 46, 94, 95, 96, 124, 126])"

definition upper_char :: "char \<Rightarrow> char" where
  "upper_char ch = (let n = (of_char ch :: nat) in if 97 \<le> n \<and> n \<le> 122 then char_of (n - 32) else ch)"

fun canonRest :: "bool \<Rightarrow> string \<Rightarrow> string" where
  "canonRest up [] = []"
| "canonRest up (ch # s) = (if up then upper_char ch else lower_char ch) # canonRest (ch = CHR 0x2D) s"

definition CanonicalHeaderKey :: "string \<Rightarrow> string" where
  "CanonicalHeaderKey k = (if list_all isTokenChar k then canonRest True k else k)"

definition headerSet :: "string \<Rightarrow> string \<Rightarrow> httpHeader \<Rightarrow> httpHeader" where
  "headerSet k v h = h(CanonicalHeaderKey k \<mapsto> [v])"

definition headerAdd :: "string \<Rightarrow> string \<Rightarrow> httpHeader \<Rightarrow> httpHeader" where
  "headerAdd k v h =
     (let k' = CanonicalHeaderKey k in h(k' \<mapsto> (case h k' of None \<Rightarrow> [] | Some vs \<Rightarrow> vs) @ [v]))"

definition headerValues :: "string \<Rightarrow> httpHeader \<Rightarrow> string list" where
  "headerValues k h = (case h (CanonicalHeaderKey k) of None \<Rightarrow> [] | Some vs \<Rightarrow> vs)"

definition headerGet :: "string \<Rightarrow> httpHeader \<Rightarrow> string" where
  "headerGet k h = (case headerValues k h of [] \<Rightarrow> [] | v # _ \<Rightarrow> v)"

definition headerTokens :: "httpHeader \<Rightarrow> string \<Rightarrow> string list" where
  "headerTokens h key = concat (map (\<lambda>v. map TrimSpace (Split (TrimSpace v) CHR '','')) (headerValues key h))"

definition headerContainsTokenIgnoreCase :: "httpHeader \<Rightarrow> string \<Rightarrow> string \<Rightarrow> bool" where
  "headerContainsTokenIgnoreCase h key token \<longleftrightarrow> list_ex (\<lambda>t. EqualFold t token) (headerTokens h key)"

lemma headerValues_set [simp]:
  "headerValues k (headerSet k' v h) = (if CanonicalHeaderKey k = CanonicalHeaderKey k' then [v] else headerValues k h)"
  by (simp add: headerValues_def headerSet_def)

lemma headerValues_empty [simp]: "headerValues k Map.empty = []"
  by (simp add: headerValues_def)

end
