(* ===== verification/WsAgent.thy ===== *)
theory WsAgent
  imports Wrp CloseFrame HttpHeader
begin

text \<open>
  \<open>internal/websocket\<close>: the agent's connection to the cloud. The options, validators and constructor; and the
  goroutine \<open>run\<close> as a step function over what dialling, reading and waiting can return. The URL fetcher, the
  decorators, the HTTP client, the dialler, the retry policy and the clock are arguments or
  fields whose values are functions of a world \<open>'w\<close>. A panic is the result \<open>None\<close>.
\<close>

definition ErrMisconfiguredWS :: gerr where "ErrMisconfiguredWS = Sentinel ''websocket.ErrMisconfiguredWS''"
definition ErrClosed_ws :: gerr where "ErrClosed_ws = Sentinel ''websocket.ErrClosed''"
definition ErrInvalidMsgType :: gerr where "ErrInvalidMsgType = Sentinel ''websocket.ErrInvalidMsgType''"

subsection \<open>IP modes\<close>

datatype ipMode = ipv4 | ipv6

definition ToEvent :: "ipMode \<Rightarrow> string" where "ToEvent m = (if m = ipv4 then ''IPv4'' else ''IPv6'')"

subsection \<open>Configuration\<close>

record clientConfig =
  ccTimeout :: duration
  ccIdleConnTimeout :: duration
  ccTLSHandshakeTimeout :: duration
  ccExpectContinueTimeout :: duration
  ccMaxIdleConns :: int
  ccMaxIdleConnsPerHost :: int
  ccMaxConnsPerHost :: int

type_synonym 'w decorator = "'w \<Rightarrow> httpHeader \<Rightarrow> gerr option \<times> httpHeader"

record ('w, 'p) websocket =
  wsId :: string
  wsUrlFetcher :: "('w \<Rightarrow> gerr + string) option"
  wsUrlFetchingTimeout :: duration
  wsCredDecorator :: "'w decorator option"
  wsConveyDecorator :: "'w decorator option"
  wsInactivityTimeout :: duration
  wsPingWriteTimeout :: duration
  wsSendTimeout :: duration
  wsKeepAliveInterval :: duration
  wsHttpClientConfig :: clientConfig
  wsAdditionalHeaders :: "httpHeader option"
  wsMaxMessageBytes :: int
  wsWithIPv4 :: bool
  wsWithIPv6 :: bool
  wsNowFunc :: "('w \<Rightarrow> time) option"
  wsRetryPolicyFactory :: "'p option"
  wsOnce :: bool

type_synonym ('w, 'p) wsOption = "('w, 'p) websocket \<Rightarrow> (gerr + ('w, 'p) websocket) option"

definition misconfigured :: "string \<Rightarrow> gerr" where "misconfigured what = Wrapped what ErrMisconfiguredWS"

definition nonneg :: "duration \<Rightarrow> string \<Rightarrow> (('w, 'p) websocket \<Rightarrow> ('w, 'p) websocket) \<Rightarrow> ('w, 'p) wsOption" where
  "nonneg d what upd ws = Some (if d < 0 then Inl (misconfigured (''negative '' @ what)) else Inr (upd ws))"

definition DeviceID :: "string \<Rightarrow> ('w, 'p) wsOption" where
  "DeviceID i ws =
     Some (if i = [] then Inl (misconfigured ''empty DeviceID'')
           else Inr (ws\<lparr>wsId := i, wsAdditionalHeaders :=
                  Some (headerSet ''X-Webpa-Device-Name'' i
                    (case wsAdditionalHeaders ws of None \<Rightarrow> Map.empty | Some h \<Rightarrow> h))\<rparr>))"

definition URL_ws :: "string \<Rightarrow> ('w, 'p) wsOption" where
  "URL_ws url ws =
     Some (if url = [] then Inl (misconfigured ''empty URL'') else Inr (ws\<lparr>wsUrlFetcher := Some (\<lambda>_. Inr url)\<rparr>))"

definition FetchURL :: "('w \<Rightarrow> gerr + string) option \<Rightarrow> ('w, 'p) wsOption" where
  "FetchURL f ws =
     Some (if f = None then Inl (misconfigured ''nil FetchURL'') else Inr (ws\<lparr>wsUrlFetcher := f\<rparr>))"

definition FetchURLTimeout :: "duration \<Rightarrow> ('w, 'p) wsOption" where
  "FetchURLTimeout d = nonneg d ''FetchURLTimeout'' (\<lambda>ws. ws\<lparr>wsUrlFetchingTimeout := d\<rparr>)"

definition CredentialsDecorator :: "'w decorator option \<Rightarrow> ('w, 'p) wsOption" where
  "CredentialsDecorator f ws =
     Some (if f = None then Inl (misconfigured ''nil CredentialsDecorator'') else Inr (ws\<lparr>wsCredDecorator := f\<rparr>))"

definition ConveyDecorator :: "'w decorator option \<Rightarrow> ('w, 'p) wsOption" where
  "ConveyDecorator f ws =
     Some (if f = None then Inl (misconfigured ''nil ConveyDecorator'') else Inr (ws\<lparr>wsConveyDecorator := f\<rparr>))"

definition InactivityTimeout :: "duration \<Rightarrow> ('w, 'p) wsOption" where
  "InactivityTimeout d = nonneg d ''InactivityTimeout'' (\<lambda>ws. ws\<lparr>wsInactivityTimeout := d\<rparr>)"
definition PingWriteTimeout :: "duration \<Rightarrow> ('w, 'p) wsOption" where
  "PingWriteTimeout d = nonneg d ''PingWriteTimeout'' (\<lambda>ws. ws\<lparr>wsPingWriteTimeout := d\<rparr>)"
definition KeepAliveInterval :: "duration \<Rightarrow> ('w, 'p) wsOption" where
  "KeepAliveInterval d = nonneg d ''KeepAliveInterval'' (\<lambda>ws. ws\<lparr>wsKeepAliveInterval := d\<rparr>)"
definition SendTimeout :: "duration \<Rightarrow> ('w, 'p) wsOption" where
  "SendTimeout d = nonneg d ''SendTimeout'' (\<lambda>ws. ws\<lparr>wsSendTimeout := d\<rparr>)"
definition MaxMessageBytes_ws :: "int \<Rightarrow> ('w, 'p) wsOption" where
  "MaxMessageBytes_ws b = nonneg b ''MaxMessageBytes'' (\<lambda>ws. ws\<lparr>wsMaxMessageBytes := b\<rparr>)"

text \<open>An optional flag: the first argument, true when there is none.\<close>

definition WithIPv4 :: "bool list \<Rightarrow> ('w, 'p) wsOption" where
  "WithIPv4 flags ws = Some (Inr (ws\<lparr>wsWithIPv4 := hd (flags @ [True])\<rparr>))"
definition WithIPv6 :: "bool list \<Rightarrow> ('w, 'p) wsOption" where
  "WithIPv6 flags ws = Some (Inr (ws\<lparr>wsWithIPv6 := hd (flags @ [True])\<rparr>))"
definition Once :: "bool list \<Rightarrow> ('w, 'p) wsOption" where
  "Once flags ws = Some (Inr (ws\<lparr>wsOnce := hd (flags @ [True])\<rparr>))"

definition HTTPClient :: "(clientConfig \<Rightarrow> gerr option) \<Rightarrow> clientConfig \<Rightarrow> ('w, 'p) wsOption" where
  "HTTPClient newClient cfg ws =
     Some (case newClient cfg of
             Some e \<Rightarrow> Inl (Joined [e, ErrMisconfiguredWS]) | None \<Rightarrow> Inr (ws\<lparr>wsHttpClientConfig := cfg\<rparr>))"

definition HTTPClientWithForceSets :: "(clientConfig \<Rightarrow> gerr option) \<Rightarrow> clientConfig \<Rightarrow> ('w, 'p) wsOption" where
  "HTTPClientWithForceSets newClient cfg ws =
     (case HTTPClient newClient cfg ws of
        Some (Inr ws') \<Rightarrow> Some (Inr (ws'\<lparr>wsHttpClientConfig :=
          (wsHttpClientConfig ws')\<lparr>ccMaxIdleConns := 1, ccMaxIdleConnsPerHost := 1, ccMaxConnsPerHost := 1\<rparr>\<rparr>))
      | r \<Rightarrow> r)"

text \<open>Adding to a nil header map panics; the pairs are listed in the order of the iteration.\<close>

definition AdditionalHeaders :: "(string \<times> string) list \<Rightarrow> ('w, 'p) wsOption" where
  "AdditionalHeaders headers ws =
     (if headers = [] then Some (Inr ws)
      else case wsAdditionalHeaders ws of
        None \<Rightarrow> None
      | Some h \<Rightarrow> Some (Inr (ws\<lparr>wsAdditionalHeaders := Some (fold (\<lambda>(k, v). headerAdd k v) headers h)\<rparr>)))"

definition NowFunc :: "('w \<Rightarrow> time) option \<Rightarrow> ('w, 'p) wsOption" where
  "NowFunc f ws = Some (if f = None then Inl (misconfigured ''nil NowFunc'') else Inr (ws\<lparr>wsNowFunc := f\<rparr>))"

definition RetryPolicy :: "'p option \<Rightarrow> ('w, 'p) wsOption" where
  "RetryPolicy pf ws =
     Some (if pf = None then Inl (misconfigured ''nil RetryPolicy'') else Inr (ws\<lparr>wsRetryPolicyFactory := pf\<rparr>))"

definition wsVador :: "(('w, 'p) websocket \<Rightarrow> bool) \<Rightarrow> string \<Rightarrow> ('w, 'p) wsOption" where
  "wsVador bad what ws = Some (if bad ws then Inl (misconfigured what) else Inr ws)"

definition validateDeviceID :: "('w, 'p) wsOption" where
  "validateDeviceID = wsVador (\<lambda>ws. wsId ws = []) ''missing DeviceID''"
definition validateURL :: "('w, 'p) wsOption" where
  "validateURL = wsVador (\<lambda>ws. wsUrlFetcher ws = None) ''missing URL fetcher''"
definition validateIPMode :: "('w, 'p) wsOption" where
  "validateIPMode = wsVador (\<lambda>ws. \<not> wsWithIPv4 ws \<and> \<not> wsWithIPv6 ws) ''at least one IP mode must be allowed''"
definition validateFetchURL :: "('w, 'p) wsOption" where
  "validateFetchURL = wsVador (\<lambda>ws. wsUrlFetcher ws = None) ''nil FetchURL''"
definition validateCredentialsDecorator :: "('w, 'p) wsOption" where
  "validateCredentialsDecorator = wsVador (\<lambda>ws. wsCredDecorator ws = None) ''nil CredentialsDecorator''"
definition validateConveyDecorator :: "('w, 'p) wsOption" where
  "validateConveyDecorator = wsVador (\<lambda>ws. wsConveyDecorator ws = None) ''nil ConveyDecorator''"
definition validateNowFunc :: "('w, 'p) wsOption" where
  "validateNowFunc = wsVador (\<lambda>ws. wsNowFunc ws = None) ''nil NowFunc''"
definition validRetryPolicy :: "('w, 'p) wsOption" where
  "validRetryPolicy = wsVador (\<lambda>ws. wsRetryPolicyFactory ws = None) ''nil RetryPolicy''"

lemmas ws_vadors = validateDeviceID_def validateURL_def validateIPMode_def validateFetchURL_def
  validateCredentialsDecorator_def validateConveyDecorator_def validateNowFunc_def validRetryPolicy_def

definition emptyDecorator :: "'w decorator" where "emptyDecorator w h = (None, h)"

definition zeroWs :: "('w, 'p) websocket" where
  "zeroWs = \<lparr>wsId = [], wsUrlFetcher = None, wsUrlFetchingTimeout = 0, wsCredDecorator = Some emptyDecorator,
     wsConveyDecorator = Some emptyDecorator, wsInactivityTimeout = Minute, wsPingWriteTimeout = 0, wsSendTimeout = 0,
     wsKeepAliveInterval = 0,
     wsHttpClientConfig = \<lparr>ccTimeout = 30 * Second, ccIdleConnTimeout = 10 * Second, ccTLSHandshakeTimeout = 10 * Second,
        ccExpectContinueTimeout = Second, ccMaxIdleConns = 0, ccMaxIdleConnsPerHost = 0, ccMaxConnsPerHost = 0\<rparr>,
     wsAdditionalHeaders = None, wsMaxMessageBytes = 0, wsWithIPv4 = False, wsWithIPv6 = False, wsNowFunc = None,
     wsRetryPolicyFactory = None, wsOnce = False\<rparr>"

fun applyWs :: "('w, 'p) wsOption option list \<Rightarrow> ('w, 'p) wsOption" where
  "applyWs [] ws = Some (Inr ws)"
| "applyWs (None # os) ws = applyWs os ws"
| "applyWs (Some f # os) ws =
     (case f ws of None \<Rightarrow> None | Some (Inl e) \<Rightarrow> Some (Inl e) | Some (Inr ws') \<Rightarrow> applyWs os ws')"

definition New_ws :: "('w, 'p) wsOption option list \<Rightarrow> (gerr + ('w, 'p) websocket) option" where
  "New_ws opts =
     applyWs (opts @ map Some [validateDeviceID, validateURL, validateIPMode, validateFetchURL,
       validateCredentialsDecorator, validateConveyDecorator, validateNowFunc, validRetryPolicy]) zeroWs"

subsection \<open>Life cycle and sending\<close>

definition Start_ws :: "bool \<Rightarrow> bool \<times> bool" where
  "Start_ws shutdown = (if shutdown then (shutdown, False) else (True, True))"

text \<open>A connection with the limits that \<open>dial\<close> sets on it.\<close>

record 'c wsConn =
  cnConn :: 'c
  cnReadLimit :: int
  cnPingWriteTimeout :: duration

text \<open>\<open>Send\<close>: \<open>write\<close> encodes the message and writes it on the connection.\<close>

definition Send_ws :: "(message \<Rightarrow> 'c \<Rightarrow> gerr option) \<Rightarrow> 'c wsConn option \<Rightarrow> message \<Rightarrow> gerr option" where
  "Send_ws write conn msg = (case conn of None \<Rightarrow> Some ErrClosed_ws | Some cn \<Rightarrow> write msg (cnConn cn))"

definition HandleWrp_ws :: "(message \<Rightarrow> 'c \<Rightarrow> gerr option) \<Rightarrow> 'c wsConn option \<Rightarrow> message \<Rightarrow> gerr option" where
  "HandleWrp_ws write conn msg = Send_ws write conn msg"

text \<open>\<open>Stop\<close>: the close frame it sends, if there is a connection, and whether \<open>run\<close> is cancelled.\<close>

definition Stop_ws :: "'c wsConn option \<Rightarrow> bool \<Rightarrow> CloseError option \<times> bool" where
  "Stop_ws conn shutdown =
     ((case conn of None \<Rightarrow> None | Some _ \<Rightarrow> Some \<lparr>Code = StatusNormalClosure, Reason = []\<rparr>), shutdown)"

definition nextMode :: "('w, 'p) websocket \<Rightarrow> ipMode \<Rightarrow> ipMode" where
  "nextMode ws mode =
     (if mode = ipv4 \<and> wsWithIPv6 ws then ipv6
      else if mode = ipv6 \<and> wsWithIPv4 ws then ipv4
      else mode)"

definition limit :: "bytes \<Rightarrow> bytes" where "limit s = (if length s > 125 then take 125 s else s)"


subsection \<open>Dialling\<close>

text \<open>\<open>CheckRedirect\<close> of the client: the headers of the first request replace those of the redirected one.\<close>

definition checkRedirect :: "httpHeader \<Rightarrow> httpHeader \<Rightarrow> httpHeader" where
  "checkRedirect first req = req ++ first"

definition newHTTPClient ::
  "(clientConfig \<Rightarrow> gerr option) \<Rightarrow> (clientConfig \<Rightarrow> gerr option) \<Rightarrow> clientConfig \<Rightarrow> ipMode \<Rightarrow> gerr + ipMode" where
  "newHTTPClient newClient newTransport cfg mode =
     (case newClient cfg of
        Some e \<Rightarrow> Inl e
      | None \<Rightarrow> (case newTransport cfg of Some e \<Rightarrow> Inl e | None \<Rightarrow> Inr mode))"

text \<open>The packages \<open>arrangehttp\<close>, \<open>retry\<close> and the dialler, as operations.\<close>

record ('w, 'p, 'q, 'c) wsLib =
  libNewClient :: "clientConfig \<Rightarrow> gerr option"
  libNewTransport :: "clientConfig \<Rightarrow> gerr option"
  libDial :: "'w \<Rightarrow> string \<Rightarrow> httpHeader \<Rightarrow> ipMode \<Rightarrow> gerr + 'c"
  libNewPolicy :: "'p \<Rightarrow> 'q"
  libNextDelay :: "'q \<Rightarrow> duration \<times> 'q"
  libErrText :: "gerr \<Rightarrow> bytes"

definition dial_ws :: "('w, 'p, 'q, 'c) wsLib \<Rightarrow> ('w, 'p) websocket \<Rightarrow> 'w \<Rightarrow> httpHeader \<Rightarrow> ipMode \<Rightarrow> gerr + 'c wsConn" where
  "dial_ws lib ws w headers mode =
     (case the (wsUrlFetcher ws) w of
        Inl e \<Rightarrow> Inl e
      | Inr url \<Rightarrow>
          (case newHTTPClient (libNewClient lib) (libNewTransport lib) (wsHttpClientConfig ws) mode of
             Inl e \<Rightarrow> Inl e
           | Inr m \<Rightarrow>
               (case libDial lib w url headers m of
                  Inl e \<Rightarrow> Inl e
                | Inr conn \<Rightarrow> Inr \<lparr>cnConn = conn, cnReadLimit = wsMaxMessageBytes ws,
                                  cnPingWriteTimeout = wsPingWriteTimeout ws\<rparr>)))"

subsection \<open>The connection loop\<close>

text \<open>
  What one read returns: the parent context was cancelled; the read failed or the inactivity
  monitor cancelled it; a message that is not binary; or a binary message, decoded or not.
\<close>

datatype readOutcome = RCancelled | RErr gerr | RText | RBinary "gerr + message"

datatype wsPhase = Dialing | Reading | Sleeping duration | Ended

datatype wsTrace = TDial ipMode | TConnect ipMode "gerr option" | TMessage message | TDisconnect gerr | TClose CloseError

record ('q, 'c) wsRun =
  rnMode :: ipMode
  rnHeaders :: httpHeader
  rnPolicy :: 'q
  rnConn :: "'c wsConn option"
  rnPhase :: wsPhase
  rnTrace :: "wsTrace list"

datatype 'w wsEvent = DialEv 'w | ReadEv readOutcome | WakeEv | CancelEv

definition run_ws_init :: "('w, 'p, 'q, 'c) wsLib \<Rightarrow> ('w, 'p) websocket \<Rightarrow> ('q, 'c) wsRun" where
  "run_ws_init lib ws =
     \<lparr>rnMode = nextMode ws ipv4,
      rnHeaders = (case wsAdditionalHeaders ws of None \<Rightarrow> Map.empty | Some h \<Rightarrow> h),
      rnPolicy = libNewPolicy lib (the (wsRetryPolicyFactory ws)), rnConn = None, rnPhase = Dialing, rnTrace = []\<rparr>"

text \<open>The end of an iteration: stop after one attempt, or plan the next one.\<close>

definition endIteration ::
  "('w, 'p, 'q, 'c) wsLib \<Rightarrow> ('w, 'p) websocket \<Rightarrow> gerr option \<Rightarrow> ('q, 'c) wsRun \<Rightarrow> ('q, 'c) wsRun" where
  "endIteration lib ws dialErr st =
     (if wsOnce ws then st\<lparr>rnPhase := Ended\<rparr>
      else case libNextDelay lib (rnPolicy st) of
        (nxt, q) \<Rightarrow> st\<lparr>rnPolicy := q, rnPhase := Sleeping nxt,
          rnTrace := rnTrace st @ (case dialErr of None \<Rightarrow> [] | Some e \<Rightarrow> [TConnect (rnMode st) (Some e)])\<rparr>)"

definition disconnect :: "('w, 'p, 'q, 'c) wsLib \<Rightarrow> ('w, 'p) websocket \<Rightarrow> gerr \<Rightarrow> ('q, 'c) wsRun \<Rightarrow> ('q, 'c) wsRun" where
  "disconnect lib ws err st =
     endIteration lib ws None (st\<lparr>rnConn := None, rnTrace := rnTrace st @
       [TClose \<lparr>Code = StatusUnsupportedData, Reason = limit (libErrText lib err)\<rparr>, TDisconnect err]\<rparr>)"

fun wsStep ::
  "('w, 'p, 'q, 'c) wsLib \<Rightarrow> ('w, 'p) websocket \<Rightarrow> 'w wsEvent \<Rightarrow> ('q, 'c) wsRun \<Rightarrow> ('q, 'c) wsRun option" where
  "wsStep lib ws (DialEv w) st =
     (if rnPhase st \<noteq> Dialing then None
      else let mode = nextMode ws (rnMode st);
               headers = snd (the (wsConveyDecorator ws) w (snd (the (wsCredDecorator ws) w (rnHeaders st))));
               st1 = st\<lparr>rnMode := mode, rnHeaders := headers, rnTrace := rnTrace st @ [TDial mode]\<rparr>
           in Some (case dial_ws lib ws w headers mode of
                      Inl e \<Rightarrow> endIteration lib ws (Some e) st1
                    | Inr conn \<Rightarrow> st1\<lparr>rnTrace := rnTrace st1 @ [TConnect mode None],
                        rnPolicy := libNewPolicy lib (the (wsRetryPolicyFactory ws)), rnConn := Some conn,
                        rnPhase := Reading\<rparr>))"
| "wsStep lib ws (ReadEv r) st =
     (if rnPhase st \<noteq> Reading then None
      else Some (case r of
             RCancelled \<Rightarrow> endIteration lib ws None st
           | RErr e \<Rightarrow> disconnect lib ws e st
           | RText \<Rightarrow> disconnect lib ws ErrInvalidMsgType st
           | RBinary (Inl e) \<Rightarrow> disconnect lib ws e st
           | RBinary (Inr msg) \<Rightarrow> st\<lparr>rnTrace := rnTrace st @ [TMessage msg]\<rparr>))"
| "wsStep lib ws WakeEv st = (case rnPhase st of Sleeping _ \<Rightarrow> Some (st\<lparr>rnPhase := Dialing\<rparr>) | _ \<Rightarrow> None)"
| "wsStep lib ws CancelEv st = (case rnPhase st of Sleeping _ \<Rightarrow> Some (st\<lparr>rnPhase := Ended\<rparr>) | _ \<Rightarrow> None)"

inductive ws_reachable :: "('w, 'p, 'q, 'c) wsLib \<Rightarrow> ('w, 'p) websocket \<Rightarrow> ('q, 'c) wsRun \<Rightarrow> bool" for lib ws where
  start: "ws_reachable lib ws (run_ws_init lib ws)"
| step: "ws_reachable lib ws st \<Longrightarrow> wsStep lib ws e st = Some st' \<Longrightarrow> ws_reachable lib ws st'"

subsection \<open>Construction facts\<close>

lemma applyWs_append:
  "applyWs (xs @ ys) ws = (case applyWs xs ws of Some (Inr ws') \<Rightarrow> applyWs ys ws' | r \<Rightarrow> r)"
  by (induction xs ws rule: applyWs.induct) (auto split: option.splits sum.splits)

definition wsValid :: "('w, 'p) websocket \<Rightarrow> bool" where
  "wsValid ws \<longleftrightarrow> wsId ws \<noteq> [] \<and> wsUrlFetcher ws \<noteq> None \<and> (wsWithIPv4 ws \<or> wsWithIPv6 ws)
     \<and> wsCredDecorator ws \<noteq> None \<and> wsConveyDecorator ws \<noteq> None \<and> wsNowFunc ws \<noteq> None \<and> wsRetryPolicyFactory ws \<noteq> None"

lemma New_ws_wsValid:
  assumes "New_ws opts = Some (Inr ws)"
  shows "wsValid ws"
proof -
  obtain ws1 where v: "applyWs (map Some [validateDeviceID, validateURL, validateIPMode, validateFetchURL,
       validateCredentialsDecorator, validateConveyDecorator, validateNowFunc, validRetryPolicy]) ws1 = Some (Inr ws)"
    using assms by (auto simp: New_ws_def applyWs_append split: option.splits sum.splits)
  then show ?thesis
    by (auto simp: ws_vadors wsVador_def wsValid_def split: if_splits)
qed

subsection \<open>Traces\<close>

definition allowedMode :: "('w, 'p) websocket \<Rightarrow> ipMode \<Rightarrow> bool" where
  "allowedMode ws m \<longleftrightarrow> (m = ipv4 \<and> wsWithIPv4 ws) \<or> (m = ipv6 \<and> wsWithIPv6 ws)"

fun dialModes :: "wsTrace list \<Rightarrow> ipMode list" where
  "dialModes [] = []"
| "dialModes (TDial m # ts) = m # dialModes ts"
| "dialModes (_ # ts) = dialModes ts"

text \<open>Connections made (\<open>True\<close>) and lost (\<open>False\<close>), in order.\<close>

fun sessions :: "wsTrace list \<Rightarrow> bool list" where
  "sessions [] = []"
| "sessions (TConnect _ None # ts) = True # sessions ts"
| "sessions (TDisconnect _ # ts) = False # sessions ts"
| "sessions (_ # ts) = sessions ts"

lemma dialModes_append [simp]: "dialModes (a @ b) = dialModes a @ dialModes b"
  by (induction a rule: dialModes.induct) auto

lemma sessions_append [simp]: "sessions (a @ b) = sessions a @ sessions b"
  by (induction a rule: sessions.induct) auto

lemma endIteration_simps [simp]:
  "rnMode (endIteration lib ws e st) = rnMode st" "rnConn (endIteration lib ws e st) = rnConn st"
  "dialModes (rnTrace (endIteration lib ws e st)) = dialModes (rnTrace st)"
  "sessions (rnTrace (endIteration lib ws e st)) = sessions (rnTrace st)"
  "rnPhase (endIteration lib ws e st) \<noteq> Reading"
  by (auto simp: endIteration_def split: prod.splits option.splits)

lemma disconnect_simps [simp]:
  "rnMode (disconnect lib ws e st) = rnMode st" "rnConn (disconnect lib ws e st) = None"
  "dialModes (rnTrace (disconnect lib ws e st)) = dialModes (rnTrace st)"
  "sessions (rnTrace (disconnect lib ws e st)) = sessions (rnTrace st) @ [False]"
  "rnPhase (disconnect lib ws e st) \<noteq> Reading"
  by (simp_all add: disconnect_def)

lemma nextMode_allowed: "allowedMode ws m \<Longrightarrow> allowedMode ws (nextMode ws m)"
  by (auto simp: allowedMode_def nextMode_def)

lemma nextMode_alternates: "wsWithIPv4 ws \<Longrightarrow> wsWithIPv6 ws \<Longrightarrow> nextMode ws m \<noteq> m"
  by (cases m) (auto simp: nextMode_def)

lemma successively_snoc: "successively P (xs @ [y]) \<longleftrightarrow> successively P xs \<and> (xs \<noteq> [] \<longrightarrow> P (last xs) y)"
  by (auto simp: successively_append_iff)

definition ws_inv :: "('w, 'p) websocket \<Rightarrow> ('q, 'c) wsRun \<Rightarrow> bool" where
  "ws_inv ws st \<longleftrightarrow>
     allowedMode ws (rnMode st) \<and> (\<forall>m\<in>set (dialModes (rnTrace st)). allowedMode ws m)
     \<and> (dialModes (rnTrace st) \<noteq> [] \<longrightarrow> last (dialModes (rnTrace st)) = rnMode st)
     \<and> (wsWithIPv4 ws \<and> wsWithIPv6 ws \<longrightarrow> successively (\<noteq>) (dialModes (rnTrace st)))
     \<and> (rnPhase st = Reading \<longrightarrow> rnConn st \<noteq> None \<and> sessions (rnTrace st) \<noteq> [] \<and> last (sessions (rnTrace st)))
     \<and> successively (\<or>) (sessions (rnTrace st)) \<and> (sessions (rnTrace st) \<noteq> [] \<longrightarrow> hd (sessions (rnTrace st)))"

lemma ws_inv_init: "wsWithIPv4 ws \<or> wsWithIPv6 ws \<Longrightarrow> ws_inv ws (run_ws_init lib ws)"
  by (auto simp: ws_inv_def run_ws_init_def allowedMode_def nextMode_def)

lemma ws_inv_step:
  assumes inv: "ws_inv ws st" and step: "wsStep lib ws e st = Some st'"
  shows "ws_inv ws st'"
proof (cases e)
  case (DialEv w)
  let ?m = "nextMode ws (rnMode st)"
  have d: "rnMode st' = ?m" "dialModes (rnTrace st') = dialModes (rnTrace st) @ [?m]"
    using step DialEv by (auto simp: Let_def split: if_splits sum.splits)
  have s: "(sessions (rnTrace st') = sessions (rnTrace st) \<and> rnPhase st' \<noteq> Reading)
      \<or> (sessions (rnTrace st') = sessions (rnTrace st) @ [True] \<and> rnConn st' \<noteq> None)"
    using step DialEv by (auto simp: Let_def split: if_splits sum.splits)
  have a: "allowedMode ws ?m" using inv nextMode_allowed by (auto simp: ws_inv_def)
  have "successively (\<noteq>) (dialModes (rnTrace st) @ [?m])" if "wsWithIPv4 ws \<and> wsWithIPv6 ws"
    using inv that nextMode_alternates[of ws "rnMode st"] by (auto simp: ws_inv_def successively_snoc)
  moreover have "successively (\<or>) (sessions (rnTrace st'))"
    using s inv by (auto simp: ws_inv_def successively_snoc)
  ultimately show ?thesis using inv a s by (auto simp: ws_inv_def d hd_append split: if_splits)
next
  case (ReadEv r)
  with step have reading: "rnPhase st = Reading" by (auto split: if_splits)
  with inv have l: "sessions (rnTrace st) \<noteq> []" "last (sessions (rnTrace st))" by (auto simp: ws_inv_def)
  then have "successively (\<or>) (sessions (rnTrace st) @ [False])"
    using inv by (auto simp: ws_inv_def successively_snoc)
  with inv reading l step ReadEv show ?thesis
    by (auto simp: ws_inv_def split: readOutcome.splits sum.splits)
qed (use inv step in \<open>auto simp: ws_inv_def split: wsPhase.splits\<close>)

lemma ws_reachable_inv:
  assumes "ws_reachable lib ws st" and "wsValid ws"
  shows "ws_inv ws st"
  using assms(1) by induction (use assms(2) ws_inv_init ws_inv_step in \<open>auto simp: wsValid_def\<close>)

subsection \<open>Properties\<close>

text \<open>
  A connection that \<open>New\<close> accepts has every part \<open>run\<close> calls: a device id, a URL fetcher, both decorators, a clock, a
  retry policy, and at least one IP mode.
\<close>

theorem New_ws_safe:
  assumes "New_ws opts = Some (Inr ws)"
  shows "wsValid ws"
  using assms by (rule New_ws_wsValid)

definition exampleWsOpts :: "(unit, unit) wsOption option list" where
  "exampleWsOpts = [Some (DeviceID ''mac:112233445566''), Some (URL_ws ''wss://x''), None, Some (WithIPv4 []), Some (WithIPv6 [True]),
     Some (NowFunc (Some (\<lambda>_. 0))), Some (RetryPolicy (Some ())), Some (AdditionalHeaders [(''x-a'', ''1'')])]"

definition exampleWs :: "(unit, unit) websocket" where
  "exampleWs = (case New_ws exampleWsOpts of Some (Inr ws) \<Rightarrow> ws | _ \<Rightarrow> zeroWs)"

definition exampleLib :: "(unit, unit, nat, unit) wsLib" where
  "exampleLib = \<lparr>libNewClient = (\<lambda>_. None), libNewTransport = (\<lambda>_. None), libDial = (\<lambda>_ _ _ _. Inr ()),
     libNewPolicy = (\<lambda>_. 1), libNextDelay = (\<lambda>n. (int n, 2 * n)), libErrText = (\<lambda>_. replicate 300 65)\<rparr>"

lemma exampleWs_new: "New_ws exampleWsOpts = Some (Inr exampleWs)"
proof -
  have "\<exists>ws. New_ws exampleWsOpts = Some (Inr ws)"
    by (simp add: exampleWsOpts_def New_ws_def DeviceID_def URL_ws_def WithIPv4_def WithIPv6_def NowFunc_def RetryPolicy_def
        AdditionalHeaders_def ws_vadors wsVador_def zeroWs_def)
  then show ?thesis by (auto simp: exampleWs_def)
qed

theorem New_ws_safe_witness: "wsValid exampleWs"
  by (rule New_ws_safe[OF exampleWs_new])

text \<open>
  In every run, each attempt to connect uses an IP mode that the configuration allows, and when both are
  allowed consecutive attempts use different ones.
\<close>

theorem dial_modes_alternate:
  assumes "ws_reachable lib ws st" and "wsValid ws"
  shows "(\<forall>m\<in>set (dialModes (rnTrace st)). allowedMode ws m)
       \<and> (wsWithIPv4 ws \<and> wsWithIPv6 ws \<longrightarrow> successively (\<noteq>) (dialModes (rnTrace st)))"
  using ws_reachable_inv[OF assms] by (simp add: ws_inv_def)

lemma exampleWs_valid: "wsValid exampleWs"
  using exampleWs_new by (rule New_ws_wsValid)

theorem dial_modes_alternate_witness:
  "\<exists>st. ws_reachable exampleLib exampleWs st \<and> length (dialModes (rnTrace st)) = 1
     \<and> (\<forall>m\<in>set (dialModes (rnTrace st)). allowedMode exampleWs m)"
proof -
  let ?st = "run_ws_init exampleLib exampleWs"
  obtain st where s: "wsStep exampleLib exampleWs (DialEv ()) ?st = Some st" "length (dialModes (rnTrace st)) = 1"
    by (auto simp: run_ws_init_def Let_def split: sum.splits)
  have "ws_reachable exampleLib exampleWs st" using ws_reachable.step[OF ws_reachable.start s(1)] .
  with dial_modes_alternate[OF this exampleWs_valid] s(2) show ?thesis by blast
qed



text \<open>
  Closing after an error whose text has 124 bytes or more does not send the status 1003 that was asked for: the text is cut to 125 bytes,
  which exceeds the 123 bytes a close reason may have, and the frame carries 1011 and no reason.
\<close>

theorem long_error_closes_as_internal_error:
  assumes "124 \<le> length text"
  shows "length (limit text) \<le> 125
       \<and> parseClosePayload (fst (bytes_close \<lparr>Code = StatusUnsupportedData, Reason = limit text\<rparr>)) = Inr \<lparr>Code = 1011, Reason = []\<rparr>
       \<and> snd (bytes_close \<lparr>Code = StatusUnsupportedData, Reason = limit text\<rparr>) \<noteq> None"
proof -
  have l: "124 \<le> length (limit text)" "length (limit text) \<le> 125" using assms by (auto simp: limit_def)
  have e: "bytesErr \<lparr>Code = StatusUnsupportedData, Reason = limit text\<rparr> = Inl (Plain ''reason string max'')"
    using l(1) by (simp add: bytesErr_def maxCloseReason_def maxControlPayload_def)
  obtain p where p: "bytesErr \<lparr>Code = StatusInternalError, Reason = []\<rparr> = Inr p"
    by (auto simp: bytesErr_def maxCloseReason_def maxControlPayload_def validWireCloseCode_def status_defs)
  show ?thesis using l e p parse_bytesErr[OF p] by (simp add: bytes_close_def StatusInternalError_def)
qed

theorem long_error_closes_as_internal_error_witness:
  "snd (bytes_close \<lparr>Code = StatusUnsupportedData, Reason = limit (replicate 130 65)\<rparr>) \<noteq> None"
  using long_error_closes_as_internal_error[of "replicate 130 65"] by simp

text \<open>
  \<open>AdditionalHeaders\<close> panics exactly when it has a header to add and no \<open>DeviceID\<close> option came before it to make the map.
\<close>

theorem AdditionalHeaders_panics:
  "AdditionalHeaders headers ws = None \<longleftrightarrow> headers \<noteq> [] \<and> wsAdditionalHeaders ws = None"
  by (auto simp: AdditionalHeaders_def split: option.splits)

end
