(* ===== verification/Libparodus.thy ===== *)
theory Libparodus
  imports PubSub
begin

text \<open>
  \<open>internal/adapters/libparodus\<close>: the adapter that connects external services over nanomsg sockets. An external service is a
  record named by a number (its address); the adapter maps service names to these. Sockets belong
  to the package \<open>mangos\<close>: what a call on them returns is an argument, except that sending on a closed
  socket fails. The messages handed to \<open>pubsub\<close> and sent on sockets are kept in order.
\<close>

definition ErrInvalidInput_lp :: gerr where "ErrInvalidInput_lp = Sentinel ''libparodus.ErrInvalidInput''"
definition ErrNoService :: gerr where "ErrNoService = Sentinel ''libparodus.ErrNoService''"
definition ErrSockClosed :: gerr where "ErrSockClosed = Sentinel ''mangos.ErrClosed''"

subsection \<open>Configuration\<close>

record adapterConfig =
  acURL :: string
  acHasPubSub :: bool
  acKeepaliveInterval :: duration
  acRecvTimeout :: duration
  acSendTimeout :: duration

definition KeepaliveInterval_lp :: "duration \<Rightarrow> adapterConfig goption" where
  "KeepaliveInterval_lp t c = Inr (c\<lparr>acKeepaliveInterval := t\<rparr>)"
definition ReceiveTimeout :: "duration \<Rightarrow> adapterConfig goption" where
  "ReceiveTimeout t c = Inr (c\<lparr>acRecvTimeout := t\<rparr>)"
definition SendTimeout_lp :: "duration \<Rightarrow> adapterConfig goption" where
  "SendTimeout_lp t c = Inr (c\<lparr>acSendTimeout := t\<rparr>)"
definition validatePubSub :: "adapterConfig goption" where
  "validatePubSub = vador (\<lambda>c. \<not> acHasPubSub c) (Wrapped ''pubsub is required'' ErrInvalidInput_lp)"
definition validateParodusServiceURL :: "adapterConfig goption" where
  "validateParodusServiceURL = vador (\<lambda>c. acURL c = []) (Wrapped ''service url is required'' ErrInvalidInput_lp)"

definition New_lp :: "string \<Rightarrow> bool \<Rightarrow> adapterConfig goption option list \<Rightarrow> gerr + adapterConfig" where
  "New_lp url hasPubSub opts =
     applyOpts (opts @ [Some validatePubSub, Some validateParodusServiceURL])
       \<lparr>acURL = url, acHasPubSub = hasPubSub, acKeepaliveInterval = 0, acRecvTimeout = 0, acSendTimeout = 0\<rparr>"

subsection \<open>External services\<close>

text \<open>Where the keepalive goroutine is: before the authorization message, in its loop, or returned.\<close>

datatype kaPhase = KaAuth | KaLoop | KaDone

record ext =
  exName :: string
  exOpen :: bool
  exCtxDone :: bool
  exSubscribed :: bool
  exKeepalive :: kaPhase

datatype wire = AuthAccepted | ServiceAlive | Wire message

record adapter =
  adSub :: "string \<rightharpoonup> nat"
  adExts :: "ext list"
  adShutdown :: bool
  adCtxDone :: bool
  adPublished :: "message list"
  adSent :: "(nat \<times> wire) list"

definition emptyAdapter :: adapter where
  "emptyAdapter = \<lparr>adSub = Map.empty, adExts = [], adShutdown = False, adCtxDone = False, adPublished = [], adSent = []\<rparr>"

text \<open>The closure that \<open>register\<close> passes to \<open>newExternal\<close>: it forgets whatever the name maps to now.\<close>

definition forget :: "string \<Rightarrow> adapter \<Rightarrow> adapter" where
  "forget name a = (case adSub a name of None \<Rightarrow> a | Some _ \<Rightarrow> a\<lparr>adSub := (adSub a)(name := None)\<rparr>)"

text \<open>\<open>ex.terminate\<close>, which \<open>cancel\<close> calls.\<close>

definition terminate :: "nat \<Rightarrow> adapter \<Rightarrow> adapter" where
  "terminate i a =
     (if i < length (adExts a)
      then forget (exName (adExts a ! i))
             (a\<lparr>adExts := (adExts a)[i := (adExts a ! i)\<lparr>exSubscribed := False, exCtxDone := True, exOpen := False\<rparr>]\<rparr>)
      else a)"

text \<open>What the socket calls of \<open>newExternal\<close> return.\<close>

record sockCalls =
  scNew :: "gerr option"
  scDeadline :: "gerr option"
  scQLen :: "gerr option"
  scDial :: "gerr option"

definition newExternal :: "sockCalls \<Rightarrow> string \<Rightarrow> adapter \<Rightarrow> (gerr + nat) \<times> adapter" where
  "newExternal sc name a =
     (case scNew sc of
        Some e \<Rightarrow> (Inl e, a)
      | None \<Rightarrow>
     case scDeadline sc of
        Some e \<Rightarrow> (Inl e, a)
      | None \<Rightarrow>
     case scQLen sc of
        Some e \<Rightarrow> (Inl e, a)
      | None \<Rightarrow>
     case scDial sc of
        Some e \<Rightarrow> (Inl e, forget name a)
      | None \<Rightarrow>
     case validateString name ''service'' of
        Some e \<Rightarrow> (Inl e, forget name a)
      | None \<Rightarrow>
          (Inr (length (adExts a)),
           a\<lparr>adExts := adExts a @ [\<lparr>exName = name, exOpen = True, exCtxDone = adCtxDone a, exSubscribed = True,
                                    exKeepalive = KaAuth\<rparr>]\<rparr>))"

definition register :: "sockCalls \<Rightarrow> message \<Rightarrow> adapter \<Rightarrow> gerr option \<times> adapter" where
  "register sc msg a =
     (case newExternal sc (mServiceName msg) a of
        (Inl e, a1) \<Rightarrow> (Some e, a1)
      | (Inr i, a1) \<Rightarrow>
          (let a2 = (case adSub a1 (mServiceName msg) of None \<Rightarrow> a1 | Some prev \<Rightarrow> terminate prev a1)
           in (None, a2\<lparr>adSub := (adSub a2)(mServiceName msg \<mapsto> i)\<rparr>)))"

text \<open>Sending: on an open socket the outcome is the argument.\<close>

definition sockSend :: "nat \<Rightarrow> wire \<Rightarrow> gerr option \<Rightarrow> adapter \<Rightarrow> gerr option \<times> adapter" where
  "sockSend i w outcome a =
     (if exOpen (adExts a ! i)
      then (outcome, case outcome of None \<Rightarrow> a\<lparr>adSent := adSent a @ [(i, w)]\<rparr> | Some _ \<Rightarrow> a)
      else (Some ErrSockClosed, a))"

definition HandleWrp_ext :: "(message \<Rightarrow> gerr option) \<Rightarrow> nat \<Rightarrow> gerr option \<Rightarrow> message \<Rightarrow> adapter \<Rightarrow> gerr option \<times> adapter" where
  "HandleWrp_ext encodeErr i outcome msg a =
     (case encodeErr msg of Some e \<Rightarrow> (Some e, a) | None \<Rightarrow> sockSend i (Wire msg) outcome a)"

text \<open>One round of the keepalive goroutine; \<open>break\<close> in the select leaves the select only.\<close>

definition setKa :: "nat \<Rightarrow> kaPhase \<Rightarrow> adapter \<Rightarrow> adapter" where
  "setKa i k a = a\<lparr>adExts := (adExts a)[i := (adExts a ! i)\<lparr>exKeepalive := k\<rparr>]\<rparr>"

definition keepalive :: "nat \<Rightarrow> gerr option \<Rightarrow> adapter \<Rightarrow> adapter option" where
  "keepalive i outcome a =
     (if i < length (adExts a) \<and> exKeepalive (adExts a ! i) \<noteq> KaDone
      then let w = (if exKeepalive (adExts a ! i) = KaAuth then AuthAccepted else ServiceAlive);
               r = sockSend i w outcome a
           in Some (if fst r = None then setKa i KaLoop (snd r) else terminate i (setKa i KaDone (snd r)))
      else None)"

subsection \<open>The adapter\<close>

definition forward ::
  "(string \<Rightarrow> locator \<times> gerr option) \<Rightarrow> (message \<Rightarrow> gerr option) \<Rightarrow> gerr option \<Rightarrow> message \<Rightarrow> adapter \<Rightarrow> gerr option \<times> adapter" where
  "forward parse encodeErr outcome msg a =
     (let a1 = a\<lparr>adPublished := adPublished a @ [msg]\<rparr> in
      case parse (mSource msg) of
        (_, Some e) \<Rightarrow> (Some e, a1)
      | (src, None) \<Rightarrow>
          (case adSub a1 (locService src) of
             None \<Rightarrow> (Some ErrNoService, a1)
           | Some i \<Rightarrow> HandleWrp_ext encodeErr i outcome msg a1))"

text \<open>One message of the receive loop, after decoding.\<close>

definition receive ::
  "(string \<Rightarrow> locator \<times> gerr option) \<Rightarrow> (message \<Rightarrow> gerr option) \<Rightarrow> sockCalls \<Rightarrow> gerr option
   \<Rightarrow> (gerr + message) \<Rightarrow> adapter \<Rightarrow> adapter" where
  "receive parse encodeErr sc outcome decoded a =
     (case decoded of
        Inl e \<Rightarrow> a
      | Inr msg \<Rightarrow>
          (case mType msg of
             ServiceRegistrationMessageType \<Rightarrow> snd (register sc msg a)
           | Invalid0MessageType \<Rightarrow> a
           | Invalid1MessageType \<Rightarrow> a
           | ServiceAliveMessageType \<Rightarrow> a
           | _ \<Rightarrow> snd (forward parse encodeErr outcome msg a)))"

definition Start_lp :: "adapter \<Rightarrow> adapter \<times> bool" where
  "Start_lp a = (if adShutdown a then (a, False) else (a\<lparr>adShutdown := True, adCtxDone := False\<rparr>, True))"

text \<open>
  \<open>Stop\<close> cancels the context and then each service of the map; \<open>names\<close> lists the names in the order of
  the iteration, and an entry deleted on the way is not visited.
\<close>

definition cancelNamed :: "string \<Rightarrow> adapter \<Rightarrow> adapter" where
  "cancelNamed name a = (case adSub a name of None \<Rightarrow> a | Some i \<Rightarrow> terminate i a)"

definition Stop_lp :: "string list \<Rightarrow> adapter \<Rightarrow> adapter" where
  "Stop_lp names a =
     fold cancelNamed names (if adShutdown a
       then a\<lparr>adShutdown := False, adCtxDone := True, adExts := map (\<lambda>e. e\<lparr>exCtxDone := True\<rparr>) (adExts a)\<rparr>
       else a)"

subsection \<open>Live entries\<close>

definition live :: "ext \<Rightarrow> bool" where "live e \<longleftrightarrow> exOpen e \<and> exSubscribed e"

text \<open>Every name of the map leads to an open, subscribed service of that name.\<close>

definition ad_inv :: "adapter \<Rightarrow> bool" where
  "ad_inv a \<longleftrightarrow> (\<forall>name i. adSub a name = Some i \<longrightarrow>
     i < length (adExts a) \<and> exName (adExts a ! i) = name \<and> live (adExts a ! i))"

lemma forget_simps [simp]:
  "adSub (forget name a) = (adSub a)(name := None)" "adExts (forget name a) = adExts a"
  "adPublished (forget name a) = adPublished a" "adSent (forget name a) = adSent a"
  by (auto simp: forget_def fun_upd_idem split: option.splits)

lemma terminate_Sub: "i < length (adExts a) \<Longrightarrow> adSub (terminate i a) = (adSub a)(exName (adExts a ! i) := None)"
  by (simp add: terminate_def)

lemma terminate_Exts:
  "i < length (adExts a) \<Longrightarrow> adExts (terminate i a) =
     (adExts a)[i := (adExts a ! i)\<lparr>exSubscribed := False, exCtxDone := True, exOpen := False\<rparr>]"
  by (simp add: terminate_def)

lemma forget_inv: "ad_inv a \<Longrightarrow> ad_inv (forget name a)"
  by (simp add: ad_inv_def)

lemma terminate_inv:
  assumes "ad_inv a"
  shows "ad_inv (terminate i a)"
proof (cases "i < length (adExts a)")
  case True
  with assms show ?thesis
    by (auto simp: ad_inv_def terminate_Sub terminate_Exts nth_list_update split: if_splits)
next
  case False
  with assms show ?thesis by (simp add: terminate_def)
qed

lemma newExternal_Inr:
  assumes "newExternal sc name a = (Inr i, a1)"
  shows "i = length (adExts a)" "adSub a1 = adSub a" "validateString name ''service'' = None"
    "\<exists>e. adExts a1 = adExts a @ [e] \<and> exName e = name \<and> live e \<and> exKeepalive e = KaAuth"
  using assms by (auto simp: newExternal_def live_def split: option.splits)

lemma newExternal_Inl: "newExternal sc name a = (Inl e, a1) \<Longrightarrow> a1 = a \<or> a1 = forget name a"
  by (auto simp: newExternal_def split: option.splits)

lemma grow_inv: "ad_inv a \<Longrightarrow> adSub a1 = adSub a \<Longrightarrow> adExts a1 = adExts a @ [e] \<Longrightarrow> ad_inv a1"
  by (fastforce simp: ad_inv_def nth_append)

lemma register_ok:
  assumes inv: "ad_inv a" and "register sc msg a = (None, a')"
  shows "\<exists>i. i = length (adExts a) \<and> adSub a' = (adSub a)(mServiceName msg \<mapsto> i) \<and> length (adExts a') = Suc i
     \<and> exName (adExts a' ! i) = mServiceName msg \<and> live (adExts a' ! i) \<and> exKeepalive (adExts a' ! i) = KaAuth
     \<and> (\<forall>j<i. adSub a (mServiceName msg) \<noteq> Some j \<longrightarrow> adExts a' ! j = adExts a ! j)
     \<and> (\<forall>j. adSub a (mServiceName msg) = Some j \<longrightarrow> \<not> exOpen (adExts a' ! j) \<and> \<not> exSubscribed (adExts a' ! j)
            \<and> exName (adExts a' ! j) = exName (adExts a ! j) \<and> exKeepalive (adExts a' ! j) = exKeepalive (adExts a ! j))"
proof -
  obtain i a1 where n: "newExternal sc (mServiceName msg) a = (Inr i, a1)"
    using assms(2) by (auto simp: register_def Let_def split: prod.splits sum.splits)
  note ne = newExternal_Inr[OF n]
  from ne(4) obtain e where e: "adExts a1 = adExts a @ [e]" "exName e = mServiceName msg" "live e" "exKeepalive e = KaAuth" by blast
  show ?thesis
  proof (cases "adSub a (mServiceName msg)")
    case None
    then have "a' = a1\<lparr>adSub := (adSub a1)(mServiceName msg \<mapsto> i)\<rparr>"
      using assms(2) n ne(2) by (simp add: register_def)
    with None ne e show ?thesis by (auto simp: nth_append)
  next
    case (Some prev)
    then have p: "prev < length (adExts a)" "exName (adExts a ! prev) = mServiceName msg"
      using inv by (auto simp: ad_inv_def)
    have a': "a' = (terminate prev a1)\<lparr>adSub := (adSub (terminate prev a1))(mServiceName msg \<mapsto> i)\<rparr>"
      using assms(2) n ne(2) Some by (simp add: register_def Let_def)
    have p1: "prev < length (adExts a1)" "adExts a1 ! prev = adExts a ! prev" using p e by (auto simp: nth_append)
    show ?thesis
      using ne e p p1 Some by (auto simp: a' terminate_Sub terminate_Exts nth_append nth_list_update)
  qed
qed

lemma register_inv: "ad_inv a \<Longrightarrow> ad_inv (snd (register sc msg a))"
proof (cases "fst (register sc msg a)")
  case None
  assume inv: "ad_inv a"
  from None have r: "register sc msg a = (None, snd (register sc msg a))" by (metis prod.collapse)
  from register_ok[OF inv r] obtain i where i: "i = length (adExts a)"
    "adSub (snd (register sc msg a)) = (adSub a)(mServiceName msg \<mapsto> i)" "length (adExts (snd (register sc msg a))) = Suc i"
    "exName (adExts (snd (register sc msg a)) ! i) = mServiceName msg" "live (adExts (snd (register sc msg a)) ! i)"
    "\<forall>j<i. adSub a (mServiceName msg) \<noteq> Some j \<longrightarrow> adExts (snd (register sc msg a)) ! j = adExts a ! j" by blast
  show ?thesis
    unfolding ad_inv_def
  proof (intro allI impI)
    fix name j assume j: "adSub (snd (register sc msg a)) name = Some j"
    show "j < length (adExts (snd (register sc msg a))) \<and> exName (adExts (snd (register sc msg a)) ! j) = name
        \<and> live (adExts (snd (register sc msg a)) ! j)"
    proof (cases "name = mServiceName msg")
      case True
      with i j show ?thesis by simp
    next
      case False
      with i(2) j have old: "adSub a name = Some j" by simp
      with inv have o: "j < length (adExts a)" "exName (adExts a ! j) = name" "live (adExts a ! j)" by (auto simp: ad_inv_def)
      have "adSub a (mServiceName msg) \<noteq> Some j" using inv False o(2) by (auto simp: ad_inv_def)
      with i o show ?thesis by simp
    qed
  qed
next
  case (Some e)
  assume inv: "ad_inv a"
  then show ?thesis
    using Some newExternal_Inl[of sc "mServiceName msg" a] forget_inv[OF inv]
    by (auto simp: register_def Let_def split: prod.splits sum.splits)
qed

lemma sockSend_simps [simp]:
  "adSub (snd (sockSend i w out a)) = adSub a" "adExts (snd (sockSend i w out a)) = adExts a"
  by (auto simp: sockSend_def split: option.splits)

lemma setKa_simps [simp]:
  "adSub (setKa i k a) = adSub a" "length (adExts (setKa i k a)) = length (adExts a)"
  "i < length (adExts a) \<Longrightarrow> adExts (setKa i k a) ! j =
     (if j = i then (adExts a ! i)\<lparr>exKeepalive := k\<rparr> else adExts a ! j)"
  by (auto simp: setKa_def nth_list_update)

lemma setKa_inv: "ad_inv a \<Longrightarrow> i < length (adExts a) \<Longrightarrow> ad_inv (setKa i k a)"
  by (auto simp: ad_inv_def live_def)

lemma keepalive_inv:
  assumes "ad_inv a" and "keepalive i out a = Some a'"
  shows "ad_inv a'"
proof -
  have i: "i < length (adExts a)" using assms(2) by (simp add: keepalive_def split: if_splits)
  have "ad_inv (snd (sockSend i w out a))" for w using assms(1) by (simp add: ad_inv_def)
  with i have "ad_inv (setKa i k (snd (sockSend i w out a)))" for k w by (simp add: setKa_inv)
  with assms(2) show ?thesis by (auto simp: keepalive_def Let_def terminate_inv split: if_splits)
qed

lemma forward_inv: "ad_inv a \<Longrightarrow> ad_inv (snd (forward parse enc out msg a))"
proof -
  assume inv: "ad_inv a"
  have "adSub (snd (forward parse enc out msg a)) = adSub a \<and> adExts (snd (forward parse enc out msg a)) = adExts a"
    by (auto simp: forward_def HandleWrp_ext_def Let_def split: prod.splits option.splits)
  with inv show ?thesis by (simp add: ad_inv_def)
qed

lemma receive_inv: "ad_inv a \<Longrightarrow> ad_inv (receive parse enc sc out decoded a)"
  by (auto simp: receive_def register_inv forward_inv split: sum.splits MessageType.splits)

lemma cancelNamed_inv: "ad_inv a \<Longrightarrow> ad_inv (cancelNamed name a)"
  by (simp add: cancelNamed_def terminate_inv split: option.splits)

lemma fold_cancelNamed_inv: "ad_inv a \<Longrightarrow> ad_inv (fold cancelNamed names a)"
  by (induction names arbitrary: a) (auto simp: cancelNamed_inv)

lemma Stop_lp_inv: "ad_inv a \<Longrightarrow> ad_inv (Stop_lp names a)"
  unfolding Stop_lp_def by (rule fold_cancelNamed_inv) (auto simp: ad_inv_def live_def)

text \<open>The states the adapter can reach, whatever arrives and whatever the sockets return.\<close>

inductive ad_reachable :: "(string \<Rightarrow> locator \<times> gerr option) \<Rightarrow> (message \<Rightarrow> gerr option) \<Rightarrow> adapter \<Rightarrow> bool" for parse enc where
  start: "ad_reachable parse enc emptyAdapter"
| receive: "ad_reachable parse enc a \<Longrightarrow> ad_reachable parse enc (receive parse enc sc out decoded a)"
| keepalive: "ad_reachable parse enc a \<Longrightarrow> keepalive i out a = Some a' \<Longrightarrow> ad_reachable parse enc a'"
| begins: "ad_reachable parse enc a \<Longrightarrow> ad_reachable parse enc (fst (Start_lp a))"
| ends: "ad_reachable parse enc a \<Longrightarrow> ad_reachable parse enc (Stop_lp names a)"

lemma ad_reachable_inv: "ad_reachable parse enc a \<Longrightarrow> ad_inv a"
proof (induction rule: ad_reachable.induct)
  case start
  then show ?case by (simp add: ad_inv_def emptyAdapter_def)
next
  case (begins a)
  then show ?case by (simp add: Start_lp_def ad_inv_def)
qed (auto intro: receive_inv keepalive_inv Stop_lp_inv)

subsection \<open>Stopping\<close>

lemma cancelNamed_Sub: "ad_inv a \<Longrightarrow> adSub (cancelNamed name a) = (adSub a)(name := None)"
proof (cases "adSub a name")
  case None
  then show ?thesis by (simp add: cancelNamed_def fun_upd_idem)
next
  case (Some i)
  assume "ad_inv a"
  with Some have "i < length (adExts a)" "exName (adExts a ! i) = name" by (auto simp: ad_inv_def)
  with Some show ?thesis by (simp add: cancelNamed_def terminate_Sub)
qed

lemma terminate_closed:
  "j < length (adExts a) \<Longrightarrow> \<not> exOpen (adExts a ! j) \<Longrightarrow> \<not> exOpen (adExts (terminate i a) ! j)"
  by (cases "i < length (adExts a)") (auto simp: terminate_def nth_list_update)

lemma cancelNamed_length [simp]: "length (adExts (cancelNamed name a)) = length (adExts a)"
  by (auto simp: cancelNamed_def terminate_def split: option.splits)

lemma cancelNamed_closed:
  "j < length (adExts a) \<Longrightarrow> \<not> exOpen (adExts a ! j) \<Longrightarrow> \<not> exOpen (adExts (cancelNamed name a) ! j)"
  by (auto simp: cancelNamed_def terminate_closed split: option.splits)

lemma fold_cancelNamed:
  assumes "ad_inv a" and "dom (adSub a) \<subseteq> set names"
  shows "adSub (fold cancelNamed names a) = Map.empty
     \<and> (\<forall>j<length (adExts a). \<not> exOpen (adExts a ! j) \<or> j \<in> ran (adSub a) \<longrightarrow> \<not> exOpen (adExts (fold cancelNamed names a) ! j))"
  using assms
proof (induction names arbitrary: a)
  case Nil
  then show ?case by (auto simp: ran_def dom_def)
next
  case (Cons name names)
  let ?a = "cancelNamed name a"
  have "dom (adSub ?a) \<subseteq> set names" using Cons.prems by (auto simp: cancelNamed_Sub)
  from Cons.IH[OF cancelNamed_inv[OF Cons.prems(1)] this] have
    IH: "adSub (fold cancelNamed names ?a) = Map.empty"
    "\<And>j. j < length (adExts a) \<Longrightarrow> \<not> exOpen (adExts ?a ! j) \<or> j \<in> ran (adSub ?a) \<Longrightarrow> \<not> exOpen (adExts (fold cancelNamed names ?a) ! j)"
    by auto
  have "\<not> exOpen (adExts ?a ! j) \<or> j \<in> ran (adSub ?a)"
    if j: "j < length (adExts a)" "\<not> exOpen (adExts a ! j) \<or> j \<in> ran (adSub a)" for j
  proof (cases "exOpen (adExts a ! j)")
    case False
    with cancelNamed_closed j show ?thesis by blast
  next
    case True
    with j obtain n where n: "adSub a n = Some j" by (auto simp: ran_def)
    show ?thesis
    proof (cases "n = name")
      case True
      with n j show ?thesis by (simp add: cancelNamed_def terminate_Exts)
    next
      case False
      with n have "adSub ?a n = Some j" by (simp add: cancelNamed_Sub[OF Cons.prems(1)])
      then show ?thesis by (auto simp: ran_def)
    qed
  qed
  with IH show ?case by auto
qed

subsection \<open>Properties\<close>


definition okSock :: sockCalls where "okSock = \<lparr>scNew = None, scDeadline = None, scQLen = None, scDial = None\<rparr>"

definition registration :: "string \<Rightarrow> message" where
  "registration name = empty_message\<lparr>mType := ServiceRegistrationMessageType, mServiceName := name, mURL := ''tcp://x''\<rparr>"

abbreviation noLocator :: "string \<Rightarrow> locator \<times> gerr option" where
  "noLocator \<equiv> \<lambda>s. (\<lparr>locScheme = [], locAuthority = [], locID = [], locService = s\<rparr>, None)"

definition oneService :: adapter where "oneService = receive noLocator (\<lambda>_. None) okSock None (Inr (registration ''config'')) emptyAdapter"

lemma oneService_eq:
  "adSub oneService = [''config'' \<mapsto> 0]"
  "adExts oneService = [\<lparr>exName = ''config'', exOpen = True, exCtxDone = False, exSubscribed = True, exKeepalive = KaAuth\<rparr>]"
  by (simp_all add: oneService_def receive_def registration_def register_def newExternal_def okSock_def validateString_def emptyAdapter_def Let_def)

lemma oneService_reachable: "ad_reachable noLocator (\<lambda>_. None) oneService"
  unfolding oneService_def by (intro ad_reachable.receive ad_reachable.start)


text \<open>
  A service that registers again under its name loses its entry: the keepalive goroutine of the replaced service fails
  on its closed socket and runs the termination a second time, which deletes the new entry. The new
  service stays open and subscribed but \<open>forward\<close> answers \<open>ErrNoService\<close> for it.
\<close>

theorem reregistration_loses_entry:
  assumes "ad_reachable parse enc a" and "adSub a (mServiceName msg) = Some old"
    and "exKeepalive (adExts a ! old) \<noteq> KaDone" and "register sc msg a = (None, a1)"
  shows "\<exists>a2 new. keepalive old out a1 = Some a2 \<and> adSub a1 (mServiceName msg) = Some new \<and> live (adExts a2 ! new)
     \<and> adSub a2 (mServiceName msg) = None
     \<and> (parse (mSource m) = (src, None) \<and> locService src = mServiceName msg
         \<longrightarrow> fst (forward parse enc out' m a2) = Some ErrNoService)"
proof -
  have inv: "ad_inv a" using ad_reachable_inv[OF assms(1)] .
  with assms(2) have old: "old < length (adExts a)" "exName (adExts a ! old) = mServiceName msg" by (auto simp: ad_inv_def)
  from register_ok[OF inv assms(4)] obtain i where i: "i = length (adExts a)" "adSub a1 = (adSub a)(mServiceName msg \<mapsto> i)"
    "length (adExts a1) = Suc i" "live (adExts a1 ! i)" "\<not> exOpen (adExts a1 ! old)" "exName (adExts a1 ! old) = mServiceName msg"
    "exKeepalive (adExts a1 ! old) \<noteq> KaDone"
    using assms(2,3) old by auto
  have lt: "old < length (adExts a1)" "old \<noteq> i" using i old by auto
  let ?a2 = "terminate old (setKa old KaDone a1)"
  have k: "keepalive old out a1 = Some ?a2" using i lt by (simp add: keepalive_def sockSend_def)
  have "adSub ?a2 (mServiceName msg) = None" using i lt by (simp add: terminate_Sub)
  moreover have "live (adExts ?a2 ! i)" using i lt by (simp add: terminate_Exts)
  moreover have "adSub a1 (mServiceName msg) = Some i" using i by simp
  ultimately show ?thesis using k by (auto simp: forward_def Let_def)
qed

theorem reregistration_loses_entry_witness:
  "\<exists>a1 a2. register okSock (registration ''config'') oneService = (None, a1) \<and> keepalive 0 None a1 = Some a2
     \<and> adSub a2 ''config'' = None"
proof -
  obtain a1 where r: "register okSock (registration ''config'') oneService = (None, a1)"
    by (auto simp: register_def newExternal_def okSock_def registration_def validateString_def Let_def)
  have s: "adSub oneService (mServiceName (registration ''config'')) = Some 0" by (simp add: oneService_eq registration_def)
  have k: "exKeepalive (adExts oneService ! 0) \<noteq> KaDone" by (simp add: oneService_eq)
  from reregistration_loses_entry[OF oneService_reachable s k r, of None empty_message "\<lparr>locScheme = [], locAuthority = [], locID = [], locService = []\<rparr>" None]
  show ?thesis using r by (auto simp: registration_def)
qed

text \<open>
  A registration that fails to dial deletes the entry of the live service of the same name without ending it; the next
  successful registration then leaves two open services subscribed under one name.
\<close>

theorem failed_reregistration_orphans:
  assumes "ad_reachable parse enc a" and "adSub a (mServiceName msg) = Some old"
    and "scNew sc = None" "scDeadline sc = None" "scQLen sc = None" "scDial sc = Some e"
    and "register sc msg a = (r, a1)" and "register sc' msg a1 = (None, a2)"
  shows "r = Some e \<and> adSub a1 (mServiceName msg) = None \<and> (\<exists>new. adSub a2 (mServiceName msg) = Some new \<and> new \<noteq> old
     \<and> live (adExts a2 ! old) \<and> live (adExts a2 ! new)
     \<and> exName (adExts a2 ! old) = mServiceName msg \<and> exName (adExts a2 ! new) = mServiceName msg)"
proof -
  have inv: "ad_inv a" using ad_reachable_inv[OF assms(1)] .
  have a1: "r = Some e" "a1 = forget (mServiceName msg) a"
    using assms(3-7) by (auto simp: register_def newExternal_def)
  have old: "old < length (adExts a)" "exName (adExts a ! old) = mServiceName msg" "live (adExts a ! old)"
    using inv assms(2) by (auto simp: ad_inv_def)
  have inv1: "ad_inv a1" using forget_inv[OF inv] a1 by simp
  from register_ok[OF inv1 assms(8)] obtain i where i: "i = length (adExts a1)" "adSub a2 = (adSub a1)(mServiceName msg \<mapsto> i)"
    "live (adExts a2 ! i)" "exName (adExts a2 ! i) = mServiceName msg" "adExts a2 ! old = adExts a1 ! old"
    using a1 old by auto
  with a1 old show ?thesis by auto
qed

theorem failed_reregistration_orphans_witness:
  "\<exists>a1 a2. register (okSock\<lparr>scDial := Some (Plain ''refused'')\<rparr>) (registration ''config'') oneService = (Some (Plain ''refused''), a1)
     \<and> register okSock (registration ''config'') a1 = (None, a2) \<and> live (adExts a2 ! 0)"
proof -
  let ?sc = "okSock\<lparr>scDial := Some (Plain ''refused'')\<rparr>"
  obtain a1 where r: "register ?sc (registration ''config'') oneService = (Some (Plain ''refused''), a1)"
    by (auto simp: register_def newExternal_def okSock_def)
  obtain a2 where r2: "register okSock (registration ''config'') a1 = (None, a2)"
    by (auto simp: register_def newExternal_def okSock_def registration_def validateString_def Let_def)
  have s: "adSub oneService (mServiceName (registration ''config'')) = Some 0" by (simp add: oneService_eq registration_def)
  from failed_reregistration_orphans[OF oneService_reachable s _ _ _ _ r r2] r r2 show ?thesis by (auto simp: okSock_def)
qed

text \<open>
  \<open>Stop\<close> empties the adapter: once every mapped name has been visited the map is empty and every service that was in
  it is closed.
\<close>

theorem Stop_lp_closes_all:
  assumes "ad_reachable parse enc a" and "dom (adSub a) \<subseteq> set names"
  shows "adSub (Stop_lp names a) = Map.empty
     \<and> (\<forall>name i. adSub a name = Some i \<longrightarrow> \<not> exOpen (adExts (Stop_lp names a) ! i))"
proof -
  define b where "b = (if adShutdown a then a\<lparr>adShutdown := False, adCtxDone := True, adExts := map (\<lambda>e. e\<lparr>exCtxDone := True\<rparr>) (adExts a)\<rparr> else a)"
  have inv: "ad_inv a" using ad_reachable_inv[OF assms(1)] .
  have sub: "adSub b = adSub a" by (simp add: b_def)
  have inv': "ad_inv b" using inv by (auto simp: b_def ad_inv_def live_def)
  have stop: "Stop_lp names a = fold cancelNamed names b" by (simp add: Stop_lp_def b_def Let_def)
  from fold_cancelNamed[OF inv', of names] assms(2) sub inv' show ?thesis
    unfolding stop by (auto simp: ad_inv_def ran_def) blast
qed

theorem Stop_lp_closes_all_witness:
  "adSub (Stop_lp [''config''] oneService) = Map.empty"
  using Stop_lp_closes_all[OF oneService_reachable, of "[''config'']"] by (simp add: oneService_eq)

text \<open>
  Every decoded message that is neither a registration nor one of the ignored types is published to pubsub once, before
  and whatever the outcome of handing it to the service of its source.
\<close>

theorem receive_publishes:
  assumes "mType msg \<notin> {ServiceRegistrationMessageType, Invalid0MessageType, Invalid1MessageType, ServiceAliveMessageType}"
  shows "adPublished (receive parse enc sc out (Inr msg) a) = adPublished a @ [msg]"
proof -
  have "adPublished (snd (forward parse enc out msg a)) = adPublished a @ [msg]"
    by (auto simp: forward_def HandleWrp_ext_def sockSend_def Let_def split: prod.splits option.splits)
  with assms show ?thesis by (auto simp: receive_def split: MessageType.splits)
qed

theorem receive_publishes_witness:
  "adPublished (receive noLocator (\<lambda>_. None) okSock None (Inr empty_message) oneService) = adPublished oneService @ [empty_message]"
  by (rule receive_publishes) (simp add: empty_message_def)

end
