(* ===== verification/Jwtxt.thy ===== *)
theory Jwtxt
  imports Prelude "HOL-Library.AList"
begin

text \<open>
  \<open>internal/jwtxt\<close>: the instructions that redirect the agent, a JWT kept in a DNS TXT record. The packages \<open>jwx\<close> (keys, key
  sets, JWT and JWS parsing), \<open>net/url\<close> and the device identifiers of \<open>wrp-go\<close> are operations of a record; what the resolver
  answers and what the clock reads are arguments of a call. The zero time is 0. A panic is \<open>None\<close>.
\<close>

definition ErrInvalidInput_jwtxt :: gerr where "ErrInvalidInput_jwtxt = Sentinel ''jwtxt.ErrInvalidInput''"
definition ErrInvalidJWT :: gerr where "ErrInvalidJWT = Sentinel ''jwtxt.ErrInvalidJWT''"
definition ErrUnspportedAlg :: gerr where "ErrUnspportedAlg = Sentinel ''jwtxt.ErrUnspportedAlg''"

definition DefaultTimeout :: duration where "DefaultTimeout = 15 * Second"

subsection \<open>The libraries\<close>

text \<open>A claim is a string or something else; the other claims of a token are not read.\<close>

datatype claim = ClaimString string | ClaimOther

record jwtToken =
  tkExpiration :: time
  tkEndpoint :: claim

record ('k, 's) jwxLib =
  jxParseKey :: "bytes \<Rightarrow> 'k option"
  jxAlgorithmsForKey :: "'k \<Rightarrow> string list option"
  jxNewSet :: 's
  jxAddKey :: "'k \<Rightarrow> 's \<Rightarrow> 's"
  jxParse :: "'s \<Rightarrow> time \<Rightarrow> string \<Rightarrow> gerr + jwtToken"
  jxPayload :: "string \<Rightarrow> gerr + bytes"
  jxHostname :: "string \<Rightarrow> string option"
  jxDeviceID :: "string \<Rightarrow> string option"

subsection \<open>Configuration\<close>

record ('k, 's) instructions =
  inBaseURL :: string
  inId :: string
  inFqdn :: string
  inTimeout :: duration
  inAlgorithms :: "string set"
  inPublicKeys :: "'k list"
  inSet :: 's
  inValidUntil :: time
  inEndpoint :: string
  inPayload :: bytes

type_synonym ('k, 's) jwOption = "('k, 's) instructions goption"

definition allowedSigningAlgorithms :: "string list" where
  "allowedSigningAlgorithms =
     [''EdDSA'', ''ES256'', ''ES384'', ''ES512'', ''PS256'', ''PS384'', ''PS512'', ''RS256'', ''RS384'', ''RS512'']"

definition errorOptionFn :: "gerr \<Rightarrow> ('k, 's) jwOption" where "errorOptionFn err ins = Inl err"

definition addAlgorithms :: "string list \<Rightarrow> ('k, 's) jwOption" where
  "addAlgorithms algs ins = Inr (ins\<lparr>inAlgorithms := inAlgorithms ins \<union> set algs\<rparr>)"

definition Algorithms :: "string list \<Rightarrow> ('k, 's) jwOption" where
  "Algorithms algs =
     (case filter (\<lambda>alg. alg \<notin> set allowedSigningAlgorithms) algs of
        [] \<Rightarrow> addAlgorithms algs
      | alg # _ \<Rightarrow> errorOptionFn (Wrapped alg ErrUnspportedAlg))"

definition Timeout :: "duration \<Rightarrow> ('k, 's) jwOption" where
  "Timeout timeout ins =
     (if timeout < 0 then Inl (Wrapped ''timeout is invalid'' ErrInvalidInput_jwtxt)
      else Inr (ins\<lparr>inTimeout := (if timeout = 0 then DefaultTimeout else timeout)\<rparr>))"

fun WithPEMs :: "('k, 's) jwxLib \<Rightarrow> bytes list \<Rightarrow> ('k, 's) jwOption" where
  "WithPEMs jx [] ins = Inr ins"
| "WithPEMs jx (single # pems) ins =
     (case jxParseKey jx single of
        None \<Rightarrow> Inl (Wrapped ''invalid pem'' ErrInvalidInput_jwtxt)
      | Some key \<Rightarrow>
          (case jxAlgorithmsForKey jx key of
             None \<Rightarrow> Inl (Wrapped ''invalid key'' ErrInvalidInput_jwtxt)
           | Some algs \<Rightarrow>
               (case filter (\<lambda>a. a \<notin> set allowedSigningAlgorithms) algs of
                  [] \<Rightarrow> WithPEMs jx pems (ins\<lparr>inPublicKeys := inPublicKeys ins @ [key]\<rparr>)
                | a # _ \<Rightarrow> Inl (Wrapped (''algorithm not allowed '' @ a) ErrInvalidInput_jwtxt))))"

definition BaseURL :: "('k, 's) jwxLib \<Rightarrow> string \<Rightarrow> ('k, 's) jwOption" where
  "BaseURL jx url ins =
     (case jxHostname jx url of
        None \<Rightarrow> Inl (Wrapped (''invalid url '' @ url) ErrInvalidInput_jwtxt)
      | Some host \<Rightarrow> Inr (ins\<lparr>inBaseURL := host\<rparr>))"

definition DeviceID_jwtxt :: "('k, 's) jwxLib \<Rightarrow> string \<Rightarrow> ('k, 's) jwOption" where
  "DeviceID_jwtxt jx i ins =
     (case jxDeviceID jx i of
        None \<Rightarrow> Inl (Wrapped (''invalid id '' @ i) ErrInvalidInput_jwtxt)
      | Some d \<Rightarrow> Inr (ins\<lparr>inId := d\<rparr>))"

text \<open>The algorithms of a key, none when the library does not know them.\<close>

definition keyAlgs :: "('k, 's) jwxLib \<Rightarrow> 'k \<Rightarrow> string list" where
  "keyAlgs jx k = (case jxAlgorithmsForKey jx k of None \<Rightarrow> [] | Some algs \<Rightarrow> algs)"

definition validateAlgs :: "('k, 's) jwxLib \<Rightarrow> ('k, 's) jwOption" where
  "validateAlgs jx ins =
     (if inAlgorithms ins = {} then Inl (Wrapped ''zero provided algorithms'' ErrInvalidInput_jwtxt)
      else if inPublicKeys ins = [] then Inl (Wrapped ''zero provided public keys'' ErrInvalidInput_jwtxt)
      else if list_all (\<lambda>k. list_ex (\<lambda>alg. alg \<in> inAlgorithms ins) (keyAlgs jx k)) (inPublicKeys ins) then Inr ins
      else Inl (Wrapped ''provided pem does not support allowed algorithm'' ErrInvalidInput_jwtxt))"

definition validateBase :: "('k, 's) jwOption" where
  "validateBase = vador (\<lambda>ins. inBaseURL ins = []) (Wrapped ''baseURL must be set'' ErrInvalidInput_jwtxt)"

definition validateTheID :: "('k, 's) jwOption" where
  "validateTheID = vador (\<lambda>ins. inId ins = []) (Wrapped ''id must be set'' ErrInvalidInput_jwtxt)"

definition makeSet :: "('k, 's) jwxLib \<Rightarrow> ('k, 's) jwOption" where
  "makeSet jx ins = Inr (ins\<lparr>inSet := fold (jxAddKey jx) (inPublicKeys ins) (jxNewSet jx)\<rparr>)"

definition zeroInstructions :: "('k, 's) jwxLib \<Rightarrow> ('k, 's) instructions" where
  "zeroInstructions jx =
     \<lparr>inBaseURL = [], inId = [], inFqdn = [], inTimeout = DefaultTimeout, inAlgorithms = {}, inPublicKeys = [],
      inSet = jxNewSet jx, inValidUntil = 0, inEndpoint = [], inPayload = []\<rparr>"

definition New_jwtxt :: "('k, 's) jwxLib \<Rightarrow> ('k, 's) jwOption option list \<Rightarrow> gerr + ('k, 's) instructions" where
  "New_jwtxt jx opts =
     (case applyOpts (opts @ [Some (validateAlgs jx), Some validateBase, Some validateTheID, Some (makeSet jx)])
             (zeroInstructions jx) of
        Inl e \<Rightarrow> Inl e
      | Inr ins \<Rightarrow> Inr (ins\<lparr>inFqdn := inId ins @ ''.'' @ inBaseURL ins\<rparr>))"

subsection \<open>Reassembling the record\<close>

abbreviation colon :: char where "colon \<equiv> CHR 0x3A"

text \<open>\<open>parts[segments[0]] = segments[1]\<close>; the map is an association list with one entry per key.\<close>

definition addPart :: "(string \<times> string) list \<Rightarrow> string \<Rightarrow> (string \<times> string) list" where
  "addPart parts line = (case Split line colon of [k, v] \<Rightarrow> AList.update k v parts | _ \<Rightarrow> parts)"

text \<open>The verb \<open>%0.2d\<close>: at least two digits.\<close>

definition getIndexString :: "nat \<Rightarrow> string" where
  "getIndexString i = (if i < 10 then ''0'' @ show_nat i else show_nat i)"

text \<open>The loop over the indices, \<open>n\<close> of which are left.\<close>

fun collectParts :: "(string \<rightharpoonup> string) \<Rightarrow> nat \<Rightarrow> nat \<Rightarrow> string" where
  "collectParts parts i 0 = []"
| "collectParts parts i (Suc n) =
     (case parts (getIndexString i) of None \<Rightarrow> [] | Some v \<Rightarrow> v @ collectParts parts (Suc i) n)"

definition reassemble :: "string list \<Rightarrow> string" where
  "reassemble lines =
     (let parts = foldl addPart [(''00'', [])] lines in collectParts (map_of parts) 0 (length parts))"

subsection \<open>Fetching\<close>

text \<open>\<open>validate\<close>; the endpoint claim is asserted to be a string.\<close>

definition validate ::
  "('k, 's) jwxLib \<Rightarrow> time \<Rightarrow> string \<Rightarrow> ('k, 's) instructions \<Rightarrow> (gerr option \<times> ('k, 's) instructions) option" where
  "validate jx now input ins =
     (case jxParse jx (inSet ins) now input of
        Inl e \<Rightarrow> Some (errorsJoin [Some e, Some ErrInvalidJWT], ins)
      | Inr token \<Rightarrow>
          (case jxPayload jx input of
             Inl e \<Rightarrow> Some (errorsJoin [Some e, Some ErrInvalidJWT], ins)
           | Inr payload \<Rightarrow>
               (case tkEndpoint token of
                  ClaimOther \<Rightarrow> None
                | ClaimString ep \<Rightarrow>
                    Some (None, ins\<lparr>inPayload := payload, inValidUntil := tkExpiration token, inEndpoint := ep\<rparr>))))"

text \<open>
  The answer of the resolver: the lines, or an error with the server and the flags of the \<open>net.DNSError\<close> in it, if there is
  one, and whether the context has ended.
\<close>

datatype lookup = Lines "string list" | LookupFailed gerr "(string \<times> bool \<times> bool) option" bool

record fetchEvent_jwtxt =
  jfFQDN :: string
  jfServer :: string
  jfFound :: bool
  jfTimeout :: bool
  jfPriorExpiration :: time
  jfExpiration :: time
  jfTemporaryErr :: bool
  jfEndpoint :: string
  jfPayload :: bytes
  jfErr :: "gerr option"

definition fetch_jwtxt ::
  "('k, 's) jwxLib \<Rightarrow> time \<Rightarrow> lookup \<Rightarrow> ('k, 's) instructions
   \<Rightarrow> (gerr option \<times> ('k, 's) instructions \<times> fetchEvent_jwtxt) option" where
  "fetch_jwtxt jx now answer ins =
     (let fe = \<lparr>jfFQDN = inFqdn ins, jfServer = [], jfFound = False, jfTimeout = False,
                jfPriorExpiration = inValidUntil ins, jfExpiration = 0, jfTemporaryErr = False, jfEndpoint = [],
                jfPayload = [], jfErr = None\<rparr>
      in case answer of
           LookupFailed e dns ctxErr \<Rightarrow>
             (let fe' = (case dns of
                           Some (server, timeout, temporary) \<Rightarrow>
                             fe\<lparr>jfServer := server, jfTimeout := timeout, jfTemporaryErr := temporary\<rparr>
                         | None \<Rightarrow> if ctxErr then fe\<lparr>jfTimeout := True, jfTemporaryErr := True\<rparr> else fe)
              in Some (Some e, ins, fe'\<lparr>jfErr := Some e\<rparr>))
         | Lines lines \<Rightarrow>
             (case validate jx now (reassemble lines) ins of
                None \<Rightarrow> None
              | Some (Some e, ins') \<Rightarrow> Some (Some e, ins', fe\<lparr>jfFound := True, jfErr := Some e\<rparr>)
              | Some (None, ins') \<Rightarrow>
                  Some (None, ins', fe\<lparr>jfFound := True, jfEndpoint := inEndpoint ins', jfExpiration := inValidUntil ins',
                                       jfPayload := inPayload ins'\<rparr>)))"

text \<open>
  \<open>Endpoint\<close>: the clock reads \<open>now\<close> first and \<open>now'\<close> while the token is validated. The result holds the endpoint or the
  error, the new state, and the event when there was a fetch.
\<close>

definition Endpoint ::
  "('k, 's) jwxLib \<Rightarrow> time \<Rightarrow> time \<Rightarrow> lookup \<Rightarrow> ('k, 's) instructions
   \<Rightarrow> ((gerr + string) \<times> ('k, 's) instructions \<times> fetchEvent_jwtxt option) option" where
  "Endpoint jx now now' answer ins =
     (if now < inValidUntil ins then Some (Inr (inEndpoint ins), ins, None)
      else case fetch_jwtxt jx now' answer ins of
        None \<Rightarrow> None
      | Some (Some e, ins', fe) \<Rightarrow> Some (Inl e, ins', Some fe)
      | Some (None, ins', fe) \<Rightarrow> Some (Inr (inEndpoint ins'), ins', Some fe))"

inductive jw_reachable :: "('k, 's) jwxLib \<Rightarrow> ('k, 's) instructions \<Rightarrow> ('k, 's) instructions \<Rightarrow> bool" for jx ins0 where
  start: "jw_reachable jx ins0 ins0"
| call: "jw_reachable jx ins0 ins \<Longrightarrow> Endpoint jx now now' answer ins = Some (r, ins', ev) \<Longrightarrow> jw_reachable jx ins0 ins'"

subsection \<open>Reassembly facts\<close>

lemma decimal_getIndexString [simp]: "decimal (getIndexString i) = i"
proof -
  have "decimal (''0'' @ s) = decimal s" for s by (simp add: decimal_def)
  then show ?thesis by (simp add: getIndexString_def)
qed

lemma getIndexString_inject [simp]: "getIndexString i = getIndexString j \<longleftrightarrow> i = j"
  by (metis decimal_getIndexString)

lemma show_nat_digits: "ch \<in> set (show_nat n) \<Longrightarrow> 48 \<le> (of_char ch :: nat) \<and> (of_char ch :: nat) \<le> 57"
proof (induction n rule: show_nat.induct)
  case (1 n)
  show ?case
  proof (cases "n < 10")
    case True
    with 1(2) show ?thesis by (subst (asm) show_nat.simps) simp
  next
    case False
    have "ch \<in> set (show_nat (n div 10)) \<or> ch = char_of (48 + n mod 10)"
      using 1(2) False by (subst (asm) show_nat.simps) auto
    with 1(1)[OF False] show ?thesis by auto
  qed
qed

lemma colon_not_index: "colon \<notin> set (getIndexString i)"
  using show_nat_digits[of colon i] by (auto simp: getIndexString_def split: if_splits)

text \<open>The pair on a well-formed line, and the folded map.\<close>

definition lineKV :: "string \<Rightarrow> (string \<times> string) option" where
  "lineKV line = (case Split line colon of [k, v] \<Rightarrow> Some (k, v) | _ \<Rightarrow> None)"

lemma addPart_alt: "addPart parts line = (case lineKV line of None \<Rightarrow> parts | Some (k, v) \<Rightarrow> AList.update k v parts)"
  by (simp add: addPart_def lineKV_def split: list.splits)

lemma map_of_foldl_addPart:
  "map_of (foldl addPart parts lines) = map_of parts ++ map_of (rev (List.map_filter lineKV lines))"
  by (induction lines arbitrary: parts)
     (auto simp: addPart_alt map_filter_simps update_conv map_add_def fun_eq_iff map_of_append split: option.splits)

lemma distinct_foldl_addPart:
  "distinct (map fst parts) \<Longrightarrow> distinct (map fst (foldl addPart parts lines))"
  by (induction lines arbitrary: parts) (auto simp: addPart_alt distinct_update split: option.splits)

lemma map_of_rev_distinct: "distinct (map fst xs) \<Longrightarrow> map_of (rev xs) = map_of xs"
  by (rule map_of_inject_set[THEN iffD2]) (simp_all flip: rev_map)

lemma length_distinct_alist: "distinct (map fst xs) \<Longrightarrow> length xs = card (dom (map_of xs))"
  by (metis distinct_card dom_map_of_conv_image_fst length_map list.set_map)

text \<open>The lines that carry a list of chunks, numbered from \<open>start\<close>.\<close>

definition chunkLines :: "nat \<Rightarrow> string list \<Rightarrow> string list" where
  "chunkLines start cs = map (\<lambda>i. getIndexString (start + i) @ [colon] @ cs ! i) [0..<length cs]"

definition chunkKVs :: "nat \<Rightarrow> string list \<Rightarrow> (string \<times> string) list" where
  "chunkKVs start cs = map (\<lambda>i. (getIndexString (start + i), cs ! i)) [0..<length cs]"

lemma map_filter_chunkLines:
  assumes "\<forall>c\<in>set cs. colon \<notin> set c"
  shows "List.map_filter lineKV (chunkLines start cs) = chunkKVs start cs"
proof -
  have line: "lineKV (getIndexString i @ [colon] @ c) = Some (getIndexString i, c)" if "colon \<notin> set c" for i c
    using Split_append_sep[OF colon_not_index, of i c] Split_no_sep[OF that] by (simp add: lineKV_def)
  have "lineKV x \<noteq> None" if "x \<in> set (chunkLines start cs)" for x
    using that assms line by (auto simp: chunkLines_def)
  then have "List.map_filter lineKV (chunkLines start cs) = map (the \<circ> lineKV) (chunkLines start cs)"
    by (auto simp: List.map_filter_def cong: filter_cong)
  also have "\<dots> = chunkKVs start cs"
    unfolding chunkLines_def chunkKVs_def using assms line by (auto simp: comp_def)
  finally show ?thesis .
qed

lemma distinct_chunkKVs: "distinct (map fst (chunkKVs start cs))"
  by (auto simp: chunkKVs_def comp_def distinct_map inj_on_def)

lemma map_of_chunkKVs:
  "map_of (chunkKVs start cs) (getIndexString j) = (if start \<le> j \<and> j < start + length cs then Some (cs ! (j - start)) else None)"
proof (cases "start \<le> j \<and> j < start + length cs")
  case True
  then have "(getIndexString j, cs ! (j - start)) \<in> set (chunkKVs start cs)"
    by (force simp: chunkKVs_def intro: image_eqI[where x = "j - start"])
  with distinct_chunkKVs True show ?thesis by (simp add: map_of_eq_Some_iff)
next
  case False
  then have "getIndexString j \<notin> fst ` set (chunkKVs start cs)" by (auto simp: chunkKVs_def)
  then have "map_of (chunkKVs start cs) (getIndexString j) = None" by (simp add: map_of_eq_None_iff)
  with False show ?thesis by simp
qed

lemma collectParts_all:
  "(\<And>j. i \<le> j \<Longrightarrow> j < i + n \<Longrightarrow> parts (getIndexString j) = Some (f j))
   \<Longrightarrow> collectParts parts i n = concat (map f [i..<i + n])"
proof (induction n arbitrary: i)
  case (Suc n)
  have "collectParts parts (Suc i) n = concat (map f [Suc i..<Suc i + n])" by (rule Suc.IH) (simp add: Suc.prems)
  with Suc.prems[of i] show ?case by (simp add: upt_conv_Cons del: upt_Suc)
qed simp

lemma concat_map_nth:
  assumes "\<And>i. i < length cs \<Longrightarrow> g i = cs ! i"
  shows "concat (map g [0..<length cs]) = concat cs"
proof -
  have "map g [0..<length cs] = map ((!) cs) [0..<length cs]" using assms by simp
  then show ?thesis by (simp add: map_nth)
qed

lemma chunks_parts:
  assumes "\<forall>c\<in>set cs. colon \<notin> set c"
    and "mset (filter (\<lambda>l. lineKV l \<noteq> None) ls) = mset (chunkLines start cs)"
  shows "map_of (foldl addPart [(''00'', [])] ls) = [''00'' \<mapsto> []] ++ map_of (chunkKVs start cs)"
proof -
  let ?kvs = "List.map_filter lineKV ls"
  have "mset ?kvs = image_mset (the \<circ> lineKV) (mset (filter (\<lambda>l. lineKV l \<noteq> None) ls))"
    by (simp add: List.map_filter_def)
  also have "\<dots> = mset (chunkKVs start cs)"
  proof -
    have "filter (\<lambda>l. lineKV l \<noteq> None) (chunkLines start cs) = chunkLines start cs"
      using arg_cong[OF assms(2), of set_mset] by (auto simp: filter_id_conv)
    then have "map (the \<circ> lineKV) (chunkLines start cs) = List.map_filter lineKV (chunkLines start cs)"
      by (simp add: List.map_filter_def)
    then show ?thesis using map_filter_chunkLines[OF assms(1), of start] assms(2) by (simp flip: mset_map)
  qed
  finally have eq: "mset ?kvs = mset (chunkKVs start cs)" .
  then have "mset (map fst ?kvs) = mset (map fst (chunkKVs start cs))" by simp
  with distinct_chunkKVs have "distinct (map fst ?kvs)" by (metis mset_eq_imp_distinct_iff)
  moreover have "set ?kvs = set (chunkKVs start cs)" using eq by (metis set_mset_mset)
  ultimately have "map_of (rev ?kvs) = map_of (chunkKVs start cs)"
    using distinct_chunkKVs by (simp add: map_of_rev_distinct map_of_inject_set)
  then show ?thesis by (simp add: map_of_foldl_addPart)
qed

lemma index_zero: "''00'' = getIndexString 0"
  by (simp add: getIndexString_def show_nat.simps char_of_def bit_numeral_rec bit_simps)

lemma chunks_length:
  assumes "start \<le> 1" and "\<forall>c\<in>set cs. colon \<notin> set c"
    and "mset (filter (\<lambda>l. lineKV l \<noteq> None) ls) = mset (chunkLines start cs)"
  shows "length (foldl addPart [(''00'', [])] ls) = max 1 (start + length cs)"
proof -
  have "dom (map_of (chunkKVs start cs)) = (\<lambda>i. getIndexString (start + i)) ` {0..<length cs}"
    by (auto simp: dom_map_of_conv_image_fst chunkKVs_def image_image)
  also have "\<dots> = getIndexString ` {start..<start + length cs}"
    using image_image[of getIndexString "(+) start" "{0..<length cs}"] by (simp add: add.commute)
  finally have "dom (map_of (foldl addPart [(''00'', [])] ls)) = getIndexString ` insert 0 {start..<start + length cs}"
    unfolding chunks_parts[OF assms(2,3)] by (auto simp: index_zero)
  also have "insert 0 {start..<start + length cs} = {0..<max 1 (start + length cs)}"
    using assms(1) by auto
  finally have "dom (map_of (foldl addPart [(''00'', [])] ls)) = getIndexString ` {0..<max 1 (start + length cs)}" .
  then have "card (dom (map_of (foldl addPart [(''00'', [])] ls))) = max 1 (start + length cs)"
    by (simp add: card_image inj_on_def)
  then show ?thesis by (subst length_distinct_alist) (simp_all add: distinct_foldl_addPart)
qed

text \<open>
  C38: A text cut into chunks without colons and put into lines numbered from 0 or from 1 is reassembled from these lines in
  any order, whatever malformed lines lie between them.
\<close>

theorem reassemble_chunks:
  assumes "start \<le> 1" and "\<forall>c\<in>set cs. colon \<notin> set c"
    and "mset (filter (\<lambda>l. lineKV l \<noteq> None) ls) = mset (chunkLines start cs)"
  shows "reassemble ls = concat cs"
proof -
  let ?N = "max 1 (start + length cs)"
  let ?f = "\<lambda>j. if start \<le> j \<and> j < start + length cs then cs ! (j - start) else []"
  have "collectParts (map_of (foldl addPart [(''00'', [])] ls)) 0 ?N = concat (map ?f [0..<0 + ?N])"
    unfolding chunks_parts[OF assms(2,3)]
    by (rule collectParts_all) (use assms(1) in \<open>auto simp: index_zero map_add_def map_of_chunkKVs\<close>)
  also have "\<dots> = concat cs"
  proof (cases "start = 0")
    case True
    then have "concat (map ?f [0..<length cs]) = concat cs" by (intro concat_map_nth) simp
    with True show ?thesis by (cases "cs = []") (simp_all add: max_def Suc_le_eq)
  next
    case False
    with assms(1) have "start = 1" by simp
    moreover from this have "concat (map (?f \<circ> Suc) [0..<length cs]) = concat cs" by (intro concat_map_nth) simp
    moreover have "[0..<Suc (length cs)] = 0 # map Suc [0..<length cs]" by (simp add: upt_conv_Cons map_Suc_upt del: upt_Suc)
    ultimately show ?thesis by (simp del: upt_Suc)
  qed
  finally show ?thesis by (simp add: reassemble_def chunks_length[OF assms] Let_def)
qed

theorem reassemble_chunks_witness:
  "reassemble [''02:b.c'', [], ''01:a.'', ''no colon''] = ''a.b.c''"
  using reassemble_chunks[of 1 "[''a.'', ''b.c'']" "[''02:b.c'', [], ''01:a.'', ''no colon'']"]
  by (simp add: chunkLines_def lineKV_def getIndexString_def show_nat.simps char_of_def bit_numeral_rec bit_simps add_mset_commute)

subsection \<open>Construction\<close>

text \<open>The options the package exports, as far as they touch the configuration.\<close>

definition jwOptions :: "('k, 's) jwxLib \<Rightarrow> ('k, 's) jwOption set" where
  "jwOptions jx = range Algorithms \<union> range Timeout \<union> range (WithPEMs jx) \<union> range (BaseURL jx) \<union> range (DeviceID_jwtxt jx)"

text \<open>What every exported option keeps.\<close>

definition jw_config :: "('k, 's) jwxLib \<Rightarrow> ('k, 's) instructions \<Rightarrow> bool" where
  "jw_config jx ins \<longleftrightarrow> 0 < inTimeout ins \<and> inAlgorithms ins \<subseteq> set allowedSigningAlgorithms
     \<and> (\<forall>k\<in>set (inPublicKeys ins). set (keyAlgs jx k) \<subseteq> set allowedSigningAlgorithms) \<and> inValidUntil ins = 0"

lemma Algorithms_config: "jw_config jx ins \<Longrightarrow> Algorithms algs ins = Inr ins' \<Longrightarrow> jw_config jx ins'"
  by (auto simp: Algorithms_def addAlgorithms_def errorOptionFn_def jw_config_def filter_empty_conv split: list.splits)

lemma Timeout_config: "jw_config jx ins \<Longrightarrow> Timeout t ins = Inr ins' \<Longrightarrow> jw_config jx ins'"
  by (auto simp: Timeout_def jw_config_def DefaultTimeout_def Second_def split: if_splits)

lemma WithPEMs_config: "jw_config jx ins \<Longrightarrow> WithPEMs jx pems ins = Inr ins' \<Longrightarrow> jw_config jx ins'"
proof (induction jx pems ins rule: WithPEMs.induct)
  case (2 jx single pems ins)
  from 2(3) obtain key algs where key: "jxParseKey jx single = Some key" "jxAlgorithmsForKey jx key = Some algs"
    "filter (\<lambda>a. a \<notin> set allowedSigningAlgorithms) algs = []"
    "WithPEMs jx pems (ins\<lparr>inPublicKeys := inPublicKeys ins @ [key]\<rparr>) = Inr ins'"
    by (auto split: option.splits list.splits)
  moreover have "jw_config jx (ins\<lparr>inPublicKeys := inPublicKeys ins @ [key]\<rparr>)"
    using 2(2) key(2,3) by (auto simp: jw_config_def keyAlgs_def filter_empty_conv)
  ultimately show ?case using 2(1)[OF key(1,2,3)] by simp
qed simp

lemma jwOption_config:
  assumes "f \<in> jwOptions jx" and "jw_config jx ins" and "f ins = Inr ins'"
  shows "jw_config jx ins'"
proof -
  have "jw_config jx ins'" if "f = BaseURL jx u" for u
    using assms(2,3) that by (auto simp: BaseURL_def jw_config_def split: option.splits)
  moreover have "jw_config jx ins'" if "f = DeviceID_jwtxt jx u" for u
    using assms(2,3) that by (auto simp: DeviceID_jwtxt_def jw_config_def split: option.splits)
  ultimately show ?thesis
    using assms Algorithms_config[OF assms(2)] Timeout_config[OF assms(2)] WithPEMs_config[OF assms(2)]
    unfolding jwOptions_def by blast
qed

lemma New_jwtxt_cases:
  assumes "New_jwtxt jx opts = Inr ins"
  obtains ins1 where "applyOpts opts (zeroInstructions jx) = Inr ins1" "validateAlgs jx ins1 = Inr ins1"
    "inBaseURL ins1 \<noteq> []" "inId ins1 \<noteq> []"
    "ins = ins1\<lparr>inSet := fold (jxAddKey jx) (inPublicKeys ins1) (jxNewSet jx), inFqdn := inId ins1 @ ''.'' @ inBaseURL ins1\<rparr>"
proof -
  from assms obtain ins1 where 1: "applyOpts opts (zeroInstructions jx) = Inr ins1"
    and 2: "applyOpts [Some (validateAlgs jx), Some validateBase, Some validateTheID, Some (makeSet jx)] ins1
              = Inr (ins1\<lparr>inSet := fold (jxAddKey jx) (inPublicKeys ins1) (jxNewSet jx)\<rparr>)"
    and 3: "ins = ins1\<lparr>inSet := fold (jxAddKey jx) (inPublicKeys ins1) (jxNewSet jx), inFqdn := inId ins1 @ ''.'' @ inBaseURL ins1\<rparr>"
    by (auto simp: New_jwtxt_def applyOpts_append validateAlgs_def validateBase_def validateTheID_def makeSet_def vador_def
        split: sum.splits if_splits)
  from 2 have "validateAlgs jx ins1 = Inr ins1" "inBaseURL ins1 \<noteq> []" "inId ins1 \<noteq> []"
    by (auto simp: validateAlgs_def validateBase_def validateTheID_def vador_def split: if_splits)
  from that[OF 1 this 3] show thesis .
qed

lemma New_jwtxt_config:
  assumes "New_jwtxt jx opts = Inr ins" and "set opts \<subseteq> insert None (Some ` jwOptions jx)"
  shows "jw_config jx ins"
proof -
  from assms(1) obtain ins1 where 1: "applyOpts opts (zeroInstructions jx) = Inr ins1"
    and ins: "ins = ins1\<lparr>inSet := fold (jxAddKey jx) (inPublicKeys ins1) (jxNewSet jx), inFqdn := inId ins1 @ ''.'' @ inBaseURL ins1\<rparr>"
    by (rule New_jwtxt_cases)
  have "jw_config jx ins1"
  proof (rule applyOpts_invariant[OF 1])
    show "jw_config jx (zeroInstructions jx)"
      by (simp add: jw_config_def zeroInstructions_def DefaultTimeout_def Second_def)
    show "jw_config jx d" if "Some f \<in> set opts" "jw_config jx c" "f c = Inr d" for f c d
      using that assms(2) jwOption_config[of f jx c d] by auto
  qed
  with ins show ?thesis by (simp add: jw_config_def)
qed

text \<open>
  Instructions that \<open>New\<close> returns are usable: their name is the device identifier under the base URL, both are set, the
  timeout is positive, the algorithms are permitted ones, there is a key, and each key is made for permitted algorithms one
  of which was configured.
\<close>

theorem New_jwtxt_safe:
  assumes "New_jwtxt jx opts = Inr ins" and "set opts \<subseteq> insert None (Some ` jwOptions jx)"
  shows "inFqdn ins = inId ins @ ''.'' @ inBaseURL ins \<and> inId ins \<noteq> [] \<and> inBaseURL ins \<noteq> [] \<and> 0 < inTimeout ins
     \<and> inAlgorithms ins \<noteq> {} \<and> inAlgorithms ins \<subseteq> set allowedSigningAlgorithms \<and> inPublicKeys ins \<noteq> []
     \<and> (\<forall>k\<in>set (inPublicKeys ins). set (keyAlgs jx k) \<subseteq> set allowedSigningAlgorithms
          \<and> set (keyAlgs jx k) \<inter> inAlgorithms ins \<noteq> {})
     \<and> inSet ins = fold (jxAddKey jx) (inPublicKeys ins) (jxNewSet jx)"
proof -
  have "jw_config jx ins" using assms by (rule New_jwtxt_config)
  with assms(1) show ?thesis
    by (auto elim!: New_jwtxt_cases simp: jw_config_def validateAlgs_def list_all_iff list_ex_iff split: if_splits) blast
qed

text \<open>A library with one key, a record that verifies under it, and the instructions built from them.\<close>

definition exampleJwx :: "(unit, nat) jwxLib" where
  "exampleJwx =
     \<lparr>jxParseKey = (\<lambda>b. if b = [1] then Some () else None), jxAlgorithmsForKey = (\<lambda>_. Some [''RS256'', ''PS256'']),
      jxNewSet = 0, jxAddKey = (\<lambda>_ n. n + 1),
      jxParse = (\<lambda>s now t. if s = 1 \<and> t = ''a.b.c'' then Inr \<lparr>tkExpiration = 50, tkEndpoint = ClaimString ''wss://x''\<rparr>
                           else Inl (Plain ''bad'')),
      jxPayload = (\<lambda>_. Inr []), jxHostname = Some, jxDeviceID = Some\<rparr>"

definition exampleJwOpts :: "(unit, nat) jwOption option list" where
  "exampleJwOpts = [Some (Algorithms [''RS256'']), None, Some (WithPEMs exampleJwx [[1]]),
     Some (BaseURL exampleJwx ''fabric''), Some (DeviceID_jwtxt exampleJwx ''mac'')]"

definition exampleIns :: "(unit, nat) instructions" where
  "exampleIns = \<lparr>inBaseURL = ''fabric'', inId = ''mac'', inFqdn = ''mac.fabric'', inTimeout = DefaultTimeout,
     inAlgorithms = {''RS256''}, inPublicKeys = [()], inSet = 1, inValidUntil = 0, inEndpoint = [], inPayload = []\<rparr>"

lemma exampleJwOpts_exported: "set exampleJwOpts \<subseteq> insert None (Some ` jwOptions exampleJwx)"
  by (auto simp: exampleJwOpts_def jwOptions_def)

lemma exampleIns_New: "New_jwtxt exampleJwx exampleJwOpts = Inr exampleIns"
  by (simp add: New_jwtxt_def exampleJwOpts_def exampleJwx_def exampleIns_def zeroInstructions_def Algorithms_def
      addAlgorithms_def allowedSigningAlgorithms_def BaseURL_def DeviceID_jwtxt_def validateAlgs_def validateBase_def
      validateTheID_def makeSet_def vador_def keyAlgs_def)

theorem New_jwtxt_safe_witness: "inFqdn exampleIns = ''mac.fabric'' \<and> inAlgorithms exampleIns \<subseteq> set allowedSigningAlgorithms"
  using New_jwtxt_safe[OF exampleIns_New exampleJwOpts_exported] by (simp add: exampleIns_def)

subsection \<open>Endpoints\<close>

lemma validate_cases:
  assumes "validate jx now input ins = Some (err, ins')"
  shows "(\<exists>e. err = Some e \<and> ins' = ins)
       \<or> (\<exists>tok ep p. err = None \<and> jxParse jx (inSet ins) now input = Inr tok \<and> tkEndpoint tok = ClaimString ep
            \<and> ins' = ins\<lparr>inPayload := p, inValidUntil := tkExpiration tok, inEndpoint := ep\<rparr>)"
proof -
  have joined: "\<exists>x. errorsJoin [Some e, Some ErrInvalidJWT] = Some x" for e by (simp flip: not_None_eq)
  consider (parse) e where "jxParse jx (inSet ins) now input = Inl e"
    | (payload) tok e where "jxParse jx (inSet ins) now input = Inr tok" "jxPayload jx input = Inl e"
    | (ok) tok p where "jxParse jx (inSet ins) now input = Inr tok" "jxPayload jx input = Inr p"
    by (cases "jxParse jx (inSet ins) now input"; cases "jxPayload jx input") auto
  then show ?thesis
  proof cases
    case (parse e)
    with assms joined[of e] show ?thesis by (auto simp: validate_def)
  next
    case (payload tok e)
    with assms joined[of e] show ?thesis by (auto simp: validate_def)
  next
    case (ok tok p)
    with assms show ?thesis by (cases "tkEndpoint tok") (auto simp: validate_def)
  qed
qed

lemma Endpoint_cases:
  assumes "Endpoint jx now now' answer ins = Some (r, ins', ev)"
  obtains (cached) "now < inValidUntil ins" "r = Inr (inEndpoint ins)" "ins' = ins" "ev = None"
  | (failed) e fe where "inValidUntil ins \<le> now" "r = Inl e" "ins' = ins" "ev = Some fe" "jfErr fe = Some e"
  | (fetched) lines tok ep p fe where "inValidUntil ins \<le> now" "answer = Lines lines"
      "jxParse jx (inSet ins) now' (reassemble lines) = Inr tok" "tkEndpoint tok = ClaimString ep"
      "ins' = ins\<lparr>inPayload := p, inValidUntil := tkExpiration tok, inEndpoint := ep\<rparr>" "r = Inr ep"
      "ev = Some fe" "jfErr fe = None" "jfEndpoint fe = ep" "jfExpiration fe = tkExpiration tok"
proof (cases "now < inValidUntil ins")
  case True
  with assms have "r = Inr (inEndpoint ins) \<and> ins' = ins \<and> ev = None" by (auto simp: Endpoint_def)
  with True cached show thesis by blast
next
  case False
  then have le: "inValidUntil ins \<le> now" by simp
  show thesis
  proof (cases answer)
    case (LookupFailed e dns ctxErr)
    then obtain fe where fe: "fetch_jwtxt jx now' answer ins = Some (Some e, ins, fe)" "jfErr fe = Some e"
      by (simp add: fetch_jwtxt_def Let_def)
    with assms False have "r = Inl e" "ins' = ins" "ev = Some fe" by (simp_all add: Endpoint_def)
    with le fe(2) show thesis by (intro failed)
  next
    case (Lines lines)
    from assms False Lines obtain err i where v: "validate jx now' (reassemble lines) ins = Some (err, i)"
      by (auto simp: Endpoint_def fetch_jwtxt_def Let_def split: option.splits)
    show thesis
    proof (cases err)
      case (Some e)
      with validate_cases[OF v] have i: "i = ins" by auto
      obtain fe where fe: "fetch_jwtxt jx now' answer ins = Some (Some e, ins, fe)" "jfErr fe = Some e"
        using Lines v[unfolded i] Some by (simp add: fetch_jwtxt_def Let_def)
      with assms False have "r = Inl e" "ins' = ins" "ev = Some fe" by (simp_all add: Endpoint_def)
      with le fe(2) show thesis by (intro failed)
    next
      case None
      with validate_cases[OF v] obtain tok ep p where t: "jxParse jx (inSet ins) now' (reassemble lines) = Inr tok"
        "tkEndpoint tok = ClaimString ep" "i = ins\<lparr>inPayload := p, inValidUntil := tkExpiration tok, inEndpoint := ep\<rparr>"
        by auto
      obtain fe where fe: "fetch_jwtxt jx now' answer ins = Some (None, i, fe)" "jfErr fe = None" "jfEndpoint fe = inEndpoint i"
        "jfExpiration fe = inValidUntil i"
        using Lines v None by (simp add: fetch_jwtxt_def Let_def)
      with assms False t have "r = Inr ep" "ins' = i" "ev = Some fe" by (simp_all add: Endpoint_def)
      with le fe(2-4) Lines t show thesis by (intro fetched[of lines tok ep p fe]) simp_all
    qed
  qed
qed

text \<open>The token the state was filled from, once it has been filled.\<close>

definition jw_inv :: "('k, 's) jwxLib \<Rightarrow> ('k, 's) instructions \<Rightarrow> ('k, 's) instructions \<Rightarrow> bool" where
  "jw_inv jx ins0 ins \<longleftrightarrow> inSet ins = inSet ins0 \<and>
     (inValidUntil ins = 0 \<or> (\<exists>t input tok. jxParse jx (inSet ins0) t input = Inr tok
        \<and> tkEndpoint tok = ClaimString (inEndpoint ins) \<and> tkExpiration tok = inValidUntil ins))"

lemma jw_reachable_inv:
  assumes "jw_reachable jx ins0 ins" and "inValidUntil ins0 = 0"
  shows "jw_inv jx ins0 ins"
  using assms(1)
proof (induction rule: jw_reachable.induct)
  case start
  then show ?case using assms(2) by (simp add: jw_inv_def)
next
  case (call ins now now' answer r ins' ev)
  from call.hyps(2) show ?case
  proof (cases rule: Endpoint_cases)
    case (fetched lines tok ep p fe)
    with call.IH show ?thesis by (auto simp: jw_inv_def)
  qed (use call.IH in simp_all)
qed



text \<open>
  The outcomes of \<open>Endpoint\<close>: before the expiry the cached endpoint, without a lookup and without a change; otherwise a
  lookup, reported by one event with the error that is returned. A failure changes nothing, so the expired endpoint stays
  but is not returned.
\<close>

theorem Endpoint_outcomes:
  assumes "Endpoint jx now now' answer ins = Some (r, ins', ev)"
  shows "(now < inValidUntil ins \<longrightarrow> r = Inr (inEndpoint ins) \<and> ins' = ins \<and> ev = None)
     \<and> (inValidUntil ins \<le> now \<longrightarrow> (\<exists>fe. ev = Some fe \<and> jfErr fe = (case r of Inl e \<Rightarrow> Some e | Inr _ \<Rightarrow> None)))
     \<and> (\<forall>e. r = Inl e \<longrightarrow> ins' = ins)"
  using assms by (cases rule: Endpoint_cases) auto

theorem Endpoint_outcomes_witness:
  "\<exists>fe. Endpoint exampleJwx 5 6 (LookupFailed (Plain ''dns'') None True) exampleIns = Some (Inl (Plain ''dns''), exampleIns, Some fe)
     \<and> jfErr fe = Some (Plain ''dns'')"
proof -
  obtain ins' ev where e: "Endpoint exampleJwx 5 6 (LookupFailed (Plain ''dns'') None True) exampleIns = Some (Inl (Plain ''dns''), ins', ev)"
    by (auto simp: Endpoint_def fetch_jwtxt_def exampleIns_def Let_def)
  from Endpoint_outcomes[OF e] e show ?thesis by (auto simp: exampleIns_def)
qed

text \<open>
  The configured algorithms play no part once \<open>New\<close> has returned: a record is accepted or refused whatever they are, so
  a token signed with any algorithm its key supports passes.
\<close>

theorem Endpoint_ignores_algorithms:
  "Endpoint jx now now' answer (ins\<lparr>inAlgorithms := algs\<rparr>)
     = map_option (\<lambda>(r, ins', ev). (r, ins'\<lparr>inAlgorithms := algs\<rparr>, ev)) (Endpoint jx now now' answer ins)"
  by (auto simp: Endpoint_def fetch_jwtxt_def validate_def Let_def split: lookup.splits sum.splits claim.splits option.splits)

text \<open>
  \<open>Endpoint\<close> panics exactly when a record verifies whose endpoint claim is not a string.
\<close>

theorem Endpoint_panics:
  "Endpoint jx now now' answer ins = None \<longleftrightarrow> inValidUntil ins \<le> now
     \<and> (\<exists>lines tok p. answer = Lines lines \<and> jxParse jx (inSet ins) now' (reassemble lines) = Inr tok
          \<and> jxPayload jx (reassemble lines) = Inr p \<and> tkEndpoint tok = ClaimOther)"
  by (auto simp: Endpoint_def fetch_jwtxt_def validate_def Let_def split: lookup.splits sum.splits claim.splits option.splits)

end
