(* ===== verification/Net.thy ===== *)
theory Net
  imports GoSort
begin

text \<open>
  \<open>internal/net/network_service.go\<close>: the interfaces the agent may use, in priority order. What the operating system reports
  is an argument, an interface has its name and its flags. The configuration is a Go map, whose iteration order
  changes from loop to loop: the list of its entries stands for one order, and \<open>iface_order_irrelevant\<close> shows when the order
  does not matter.
\<close>

record allowedInterface =
  aiPriority :: int
  aiEnabled :: bool

record iface =
  ifName :: string
  ifRunning :: bool

type_synonym allowedInterfaces = "(string \<times> allowedInterface) list"

fun isAllowed :: "allowedInterfaces \<Rightarrow> string \<Rightarrow> bool" where
  "isAllowed [] name = False"
| "isAllowed ((k, v) # rest) name = (if EqualFold name k then aiEnabled v else isAllowed rest name)"

fun getPriority :: "allowedInterfaces \<Rightarrow> string \<Rightarrow> int" where
  "getPriority [] name = 100"
| "getPriority ((k, v) # rest) name = (if EqualFold name k then aiPriority v else getPriority rest name)"

text \<open>\<open>sort.Slice\<close> takes a strict order; its three-way form is what the contract of the sort is stated for.\<close>

definition lessCmp :: "('a \<Rightarrow> 'a \<Rightarrow> bool) \<Rightarrow> 'a \<Rightarrow> 'a \<Rightarrow> int" where
  "lessCmp lt x y = (if lt x y then -1 else if lt y x then 1 else 0)"

definition GetInterfaces ::
  "((iface \<Rightarrow> iface \<Rightarrow> int) \<Rightarrow> iface list \<Rightarrow> iface list) \<Rightarrow> allowedInterfaces \<Rightarrow> gerr + iface list \<Rightarrow> gerr + iface list" where
  "GetInterfaces srt allowed ifaces =
     (case ifaces of
        Inl e \<Rightarrow> Inl e
      | Inr xs \<Rightarrow>
          (let running = filter (\<lambda>i. ifRunning i \<and> isAllowed allowed (ifName i)) xs
           in Inr (srt (lessCmp (\<lambda>i j. getPriority allowed (ifName i) < getPriority allowed (ifName j))) running)))"

definition GetInterfaceNames ::
  "((iface \<Rightarrow> iface \<Rightarrow> int) \<Rightarrow> iface list \<Rightarrow> iface list) \<Rightarrow> allowedInterfaces \<Rightarrow> gerr + iface list \<Rightarrow> gerr + string list" where
  "GetInterfaceNames srt allowed ifaces =
     (case GetInterfaces srt allowed ifaces of Inl e \<Rightarrow> Inl e | Inr xs \<Rightarrow> Inr (map ifName xs))"

subsection \<open>The order of the configuration\<close>

text \<open>No two entries match the same interface name.\<close>

definition fold_distinct :: "allowedInterfaces \<Rightarrow> bool" where
  "fold_distinct allowed \<longleftrightarrow> distinct (map (ToLower \<circ> fst) allowed)"

lemma lookup_fold:
  "isAllowed allowed name = (case map_of (map (\<lambda>(k, v). (ToLower k, v)) allowed) (ToLower name) of None \<Rightarrow> False | Some v \<Rightarrow> aiEnabled v)"
  "getPriority allowed name = (case map_of (map (\<lambda>(k, v). (ToLower k, v)) allowed) (ToLower name) of None \<Rightarrow> 100 | Some v \<Rightarrow> aiPriority v)"
  by (induction allowed) (auto simp: EqualFold_def)

lemma iface_order_irrelevant:
  assumes "fold_distinct allowed" and "mset allowed' = mset allowed"
  shows "isAllowed allowed' name = isAllowed allowed name" and "getPriority allowed' name = getPriority allowed name"
proof -
  let ?m = "map (\<lambda>(k, v). (ToLower k, v))"
  have "mset (map (ToLower \<circ> fst) allowed') = mset (map (ToLower \<circ> fst) allowed)" using assms(2) by simp
  then have "distinct (map (ToLower \<circ> fst) allowed')" "distinct (map (ToLower \<circ> fst) allowed)"
    using assms(1) mset_eq_imp_distinct_iff unfolding fold_distinct_def by blast+
  then have "distinct (map fst (?m allowed'))" "distinct (map fst (?m allowed))" by (simp_all add: comp_def case_prod_beta)
  moreover have "set (?m allowed') = set (?m allowed)" using mset_eq_setD[OF assms(2)] by simp
  ultimately have "map_of (?m allowed') = map_of (?m allowed)" by (simp add: map_of_inject_set)
  then show "isAllowed allowed' name = isAllowed allowed name" "getPriority allowed' name = getPriority allowed name"
    by (simp_all add: lookup_fold)
qed

lemma weak_order_lessCmp: "weak_order (lessCmp (\<lambda>i j. f i < (f j :: int)))"
  by (auto simp: weak_order_def lessCmp_def)

text \<open>
  \<open>GetInterfaces\<close> returns exactly the running interfaces that the configuration enables, as often as the system lists them,
  in the order of their priorities, whichever sort satisfies the contract of the library and in whatever order the
  configuration is iterated.
\<close>

theorem GetInterfaces_spec:
  assumes "sort_func srt" and "fold_distinct allowed" and "mset allowed' = mset allowed"
  shows "\<exists>ys. GetInterfaces srt allowed' (Inr xs) = Inr ys
     \<and> mset ys = filter_mset (\<lambda>i. ifRunning i \<and> isAllowed allowed (ifName i)) (mset xs)
     \<and> sorted (map (getPriority allowed \<circ> ifName) ys)"
proof -
  let ?keep = "\<lambda>a i. ifRunning i \<and> isAllowed a (ifName i)"
  let ?prio = "\<lambda>a i. getPriority a (ifName i)"
  have eq: "?keep allowed' = ?keep allowed" "?prio allowed' = ?prio allowed"
    using iface_order_irrelevant[OF assms(2,3)] by auto
  let ?ys = "srt (lessCmp (\<lambda>i j. ?prio allowed i < ?prio allowed j)) (filter (?keep allowed) xs)"
  have "sorted_wrt (\<lambda>x y. lessCmp (\<lambda>i j. ?prio allowed i < ?prio allowed j) x y \<le> 0) ?ys"
    using sort_func.srt_sorted[OF assms(1) weak_order_lessCmp] .
  then have "sorted_wrt (\<lambda>x y. ?prio allowed x \<le> ?prio allowed y) ?ys"
    by (rule sorted_wrt_mono_rel[rotated]) (auto simp: lessCmp_def split: if_splits)
  then have "sorted (map (getPriority allowed \<circ> ifName) ?ys)" by (simp add: sorted_wrt_map)
  moreover have "mset ?ys = filter_mset (?keep allowed) (mset xs)"
    using sort_func.srt_mset[OF assms(1)] by (metis mset_filter)
  moreover have "GetInterfaces srt allowed' (Inr xs) = Inr ?ys"
    unfolding GetInterfaces_def Let_def sum.case eq(1) fun_cong[OF eq(2)] ..
  ultimately show ?thesis by blast
qed

definition exampleAllowed :: allowedInterfaces where
  "exampleAllowed = [(''eth0'', \<lparr>aiPriority = 2, aiEnabled = True\<rparr>), (''wlan0'', \<lparr>aiPriority = 1, aiEnabled = True\<rparr>),
     (''docker0'', \<lparr>aiPriority = 0, aiEnabled = False\<rparr>)]"

theorem GetInterfaces_spec_witness:
  "\<exists>ys. GetInterfaces insertion_sort (rev exampleAllowed)
       (Inr [\<lparr>ifName = ''ETH0'', ifRunning = True\<rparr>, \<lparr>ifName = ''docker0'', ifRunning = True\<rparr>, \<lparr>ifName = ''wlan0'', ifRunning = True\<rparr>]) = Inr ys
     \<and> sorted (map (getPriority exampleAllowed \<circ> ifName) ys)"
  using GetInterfaces_spec[OF isort.sort_func_axioms, of exampleAllowed "rev exampleAllowed"]
  by (fastforce simp: fold_distinct_def exampleAllowed_def ToLower_def lower_char_def)

end
