(* ===== verification/Metadata.thy ===== *)
theory Metadata
  imports Wrp
begin

text \<open>
  \<open>internal/metadata\<close>: the facts about the device that go into the convey header of the connection and into the metadata of
  messages. The network service is the value its \<open>GetInterfaceNames\<close> returns at the call; \<open>encoding/json\<close> and \<open>encoding/base64\<close>
  are arguments, as is the decimal form of a floating-point number. A nil network service that is asked is a panic, \<open>None\<close>.
\<close>

definition ErrInvalidInput_metadata :: gerr where "ErrInvalidInput_metadata = Sentinel ''metadata.ErrInvalidInput''"

definition HeaderName :: string where "HeaderName = ''X-Webpa-Convey''"

definition Firmware :: string where "Firmware = ''fw-name''"
definition Hardware :: string where "Hardware = ''hw-model''"
definition Manufacturer :: string where "Manufacturer = ''hw-manufacturer''"
definition SerialNumber_md :: string where "SerialNumber_md = ''hw-serial-number''"
definition LastRebootReason_md :: string where "LastRebootReason_md = ''hw-last-reboot-reason''"
definition Protocol :: string where "Protocol = ''webpa-protocol''"
definition BootTime :: string where "BootTime = ''boot-time''"
definition BootTimeRetryDelay :: string where "BootTimeRetryDelay = ''boot-time-retry-wait''"
definition InterfaceUsed :: string where "InterfaceUsed = ''webpa-interface-used''"
definition InterfacesAvailable :: string where "InterfacesAvailable = ''interfaces-available''"

lemmas field_defs = Firmware_def Hardware_def Manufacturer_def SerialNumber_md_def LastRebootReason_md_def Protocol_def
  BootTime_def BootTimeRetryDelay_def InterfaceUsed_def InterfacesAvailable_def

record 'n metadataProvider =
  mdNetworkService :: "'n option"
  mdFields :: "string list"
  mdFirmware :: string
  mdHardware :: string
  mdManufacturer :: string
  mdSerialNumber :: string
  mdLastRebootReason :: string
  mdProtocol :: string
  mdBootTime :: string
  mdBootTimeRetryDelay :: string
  mdInterfaceUsed :: string

type_synonym 'n mdOption = "'n metadataProvider goption"

definition validFields :: "string list" where
  "validFields = [Firmware, Hardware, SerialNumber_md, Manufacturer, LastRebootReason_md, Protocol, BootTime,
     BootTimeRetryDelay, InterfaceUsed, InterfacesAvailable]"

definition NetworkServiceOpt :: "'n option \<Rightarrow> 'n mdOption" where
  "NetworkServiceOpt ns c =
     (case ns of None \<Rightarrow> Inl (Wrapped ''nil networkService'' ErrInvalidInput_metadata) | Some _ \<Rightarrow> Inr (c\<lparr>mdNetworkService := ns\<rparr>))"

definition FieldsOpt :: "string list \<Rightarrow> 'n mdOption" where
  "FieldsOpt fs c =
     (if list_all (\<lambda>field. list_ex (\<lambda>v. field = v) validFields) fs then Inr (c\<lparr>mdFields := fs\<rparr>)
      else Inl (Wrapped ''invalid metadata field'' ErrInvalidInput_metadata))"

definition SerialNumberOpt :: "string \<Rightarrow> 'n mdOption" where "SerialNumberOpt v c = Inr (c\<lparr>mdSerialNumber := v\<rparr>)"
definition HardwareModelOpt :: "string \<Rightarrow> 'n mdOption" where "HardwareModelOpt v c = Inr (c\<lparr>mdHardware := v\<rparr>)"
definition FirmwareOpt :: "string \<Rightarrow> 'n mdOption" where "FirmwareOpt v c = Inr (c\<lparr>mdFirmware := v\<rparr>)"
definition ManufacturerOpt :: "string \<Rightarrow> 'n mdOption" where "ManufacturerOpt v c = Inr (c\<lparr>mdManufacturer := v\<rparr>)"
definition LastRebootReasonOpt :: "string \<Rightarrow> 'n mdOption" where "LastRebootReasonOpt v c = Inr (c\<lparr>mdLastRebootReason := v\<rparr>)"
definition XmidtProtocolOpt :: "string \<Rightarrow> 'n mdOption" where "XmidtProtocolOpt v c = Inr (c\<lparr>mdProtocol := v\<rparr>)"
definition BootTimeOpt :: "string \<Rightarrow> 'n mdOption" where "BootTimeOpt v c = Inr (c\<lparr>mdBootTime := v\<rparr>)"
definition BootRetryWaitOpt :: "(duration \<Rightarrow> string) \<Rightarrow> duration \<Rightarrow> 'n mdOption" where
  "BootRetryWaitOpt seconds d c = Inr (c\<lparr>mdBootTimeRetryDelay := seconds d\<rparr>)"
definition InterfaceUsedOpt :: "string \<Rightarrow> 'n mdOption" where "InterfaceUsedOpt v c = Inr (c\<lparr>mdInterfaceUsed := v\<rparr>)"

definition New_metadata :: "'n mdOption option list \<Rightarrow> gerr + 'n metadataProvider" where
  "New_metadata opts = applyOpts opts
     \<lparr>mdNetworkService = None, mdFields = [], mdFirmware = [], mdHardware = [], mdManufacturer = [], mdSerialNumber = [],
      mdLastRebootReason = [], mdProtocol = [], mdBootTime = [], mdBootTimeRetryDelay = [], mdInterfaceUsed = []\<rparr>"

text \<open>The value of a field other than the available interfaces.\<close>

definition fieldValue :: "'n metadataProvider \<Rightarrow> string \<Rightarrow> string option" where
  "fieldValue c field =
     (if field = Firmware then Some (mdFirmware c)
      else if field = Hardware then Some (mdHardware c)
      else if field = Manufacturer then Some (mdManufacturer c)
      else if field = SerialNumber_md then Some (mdSerialNumber c)
      else if field = LastRebootReason_md then Some (mdLastRebootReason c)
      else if field = Protocol then Some (mdProtocol c)
      else if field = BootTime then Some (mdBootTime c)
      else if field = BootTimeRetryDelay then Some (mdBootTimeRetryDelay c)
      else if field = InterfaceUsed then Some (mdInterfaceUsed c)
      else None)"

text \<open>One field of \<open>GetMetadata\<close>, and the loop.\<close>

definition addField :: "('n \<Rightarrow> gerr + string list) \<Rightarrow> 'n metadataProvider \<Rightarrow> string \<Rightarrow> (string \<rightharpoonup> string) \<Rightarrow> (string \<rightharpoonup> string) option" where
  "addField getNames c field header =
     (if field = InterfacesAvailable
      then (case mdNetworkService c of
              None \<Rightarrow> None
            | Some ns \<Rightarrow> (case getNames ns of Inl e \<Rightarrow> Some header | Inr names \<Rightarrow> Some (header(field \<mapsto> Join names '',''))))
      else (case fieldValue c field of None \<Rightarrow> Some header | Some v \<Rightarrow> Some (header(field \<mapsto> v))))"

fun addFields :: "('n \<Rightarrow> gerr + string list) \<Rightarrow> 'n metadataProvider \<Rightarrow> string list \<Rightarrow> (string \<rightharpoonup> string) \<Rightarrow> (string \<rightharpoonup> string) option" where
  "addFields getNames c [] header = Some header"
| "addFields getNames c (field # fs) header =
     (case addField getNames c field header of None \<Rightarrow> None | Some h \<Rightarrow> addFields getNames c fs h)"

definition GetMetadata :: "('n \<Rightarrow> gerr + string list) \<Rightarrow> 'n metadataProvider \<Rightarrow> (string \<rightharpoonup> string) option" where
  "GetMetadata getNames c = addFields getNames c (mdFields c) Map.empty"

definition Decorate_md ::
  "('n \<Rightarrow> gerr + string list) \<Rightarrow> ((string \<rightharpoonup> string) \<Rightarrow> gerr + bytes) \<Rightarrow> (bytes \<Rightarrow> string) \<Rightarrow> 'n metadataProvider
   \<Rightarrow> (string \<rightharpoonup> string) \<Rightarrow> (gerr option \<times> (string \<rightharpoonup> string)) option" where
  "Decorate_md getNames marshal base64 c headers =
     (case GetMetadata getNames c of
        None \<Rightarrow> None
      | Some header \<Rightarrow>
          (case marshal header of
             Inl e \<Rightarrow> Some (Some (Wrapped ''error marshaling convey header'' e), headers)
           | Inr b \<Rightarrow> Some (None, headers(HeaderName \<mapsto> base64 b))))"

definition DecorateMsg :: "('n \<Rightarrow> gerr + string list) \<Rightarrow> 'n metadataProvider \<Rightarrow> message \<Rightarrow> message option" where
  "DecorateMsg getNames c msg =
     (case GetMetadata getNames c of
        None \<Rightarrow> None
      | Some header \<Rightarrow>
          Some (msg\<lparr>mMetadata := Some ((case mMetadata msg of None \<Rightarrow> Map.empty | Some m \<Rightarrow> m) ++ header)\<rparr>))"

subsection \<open>Lemmas\<close>

text \<open>What one field contributes, in one equation.\<close>

definition metaValue :: "('n \<Rightarrow> gerr + string list) \<Rightarrow> 'n metadataProvider \<Rightarrow> string \<Rightarrow> string option" where
  "metaValue getNames c field =
     (if field = InterfacesAvailable
      then (case mdNetworkService c of
              None \<Rightarrow> None | Some ns \<Rightarrow> (case getNames ns of Inl e \<Rightarrow> None | Inr names \<Rightarrow> Some (Join names '','')))
      else fieldValue c field)"

lemma addField_Some:
  "addField getNames c field header = Some h \<Longrightarrow>
   h = (case metaValue getNames c field of None \<Rightarrow> header | Some v \<Rightarrow> header(field \<mapsto> v))"
  by (auto simp: addField_def metaValue_def split: if_splits option.splits sum.splits)

lemma addField_None: "addField getNames c field header = None \<longleftrightarrow> field = InterfacesAvailable \<and> mdNetworkService c = None"
  by (auto simp: addField_def split: option.splits sum.splits)

lemma addFields_None: "addFields getNames c fs header = None \<longleftrightarrow> InterfacesAvailable \<in> set fs \<and> mdNetworkService c = None"
  by (induction fs arbitrary: header) (auto simp: addField_def split: option.splits sum.splits)

lemma addFields_Some:
  "addFields getNames c fs header = Some h \<Longrightarrow>
   h x = (if x \<in> set fs \<and> metaValue getNames c x \<noteq> None then metaValue getNames c x else header x)"
proof (induction fs arbitrary: header)
  case (Cons field fs)
  then obtain h1 where h1: "addField getNames c field header = Some h1" "addFields getNames c fs h1 = Some h"
    by (auto split: option.splits)
  from Cons.IH[OF h1(2)] addField_Some[OF h1(1)] show ?case
    by (auto split: option.splits)
qed simp

lemma validFields_value: "field \<in> set validFields \<Longrightarrow> field \<noteq> InterfacesAvailable \<Longrightarrow> fieldValue c field \<noteq> None"
  by (auto simp: validFields_def fieldValue_def)

text \<open>
  The metadata of a provider whose fields passed \<open>FieldsOpt\<close> has exactly the requested fields with their values; only the
  available interfaces are left out, when the network service fails.
\<close>

theorem GetMetadata_spec:
  assumes "FieldsOpt fs c0 = Inr c" and "mdNetworkService c = Some ns"
  shows "\<exists>h. GetMetadata getNames c = Some h
     \<and> dom h = set fs - (if \<exists>e. getNames ns = Inl e then {InterfacesAvailable} else {})
     \<and> (\<forall>x\<in>dom h. h x = metaValue getNames c x)"
proof -
  have ff: "mdFields c = fs" "set fs \<subseteq> set validFields"
    using assms(1) by (auto simp: FieldsOpt_def list_all_iff list_ex_iff split: if_splits)
  from assms(2) obtain h where h: "GetMetadata getNames c = Some h"
    using addFields_None[of getNames c fs Map.empty] by (auto simp: GetMetadata_def ff)
  then have hx: "h x = (if x \<in> set fs \<and> metaValue getNames c x \<noteq> None then metaValue getNames c x else None)" for x
    using addFields_Some[of getNames c fs Map.empty h x] by (simp add: GetMetadata_def ff)
  have "metaValue getNames c x = None \<longleftrightarrow> x = InterfacesAvailable \<and> (\<exists>e. getNames ns = Inl e)" if "x \<in> set fs" for x
    using that ff(2) assms(2) validFields_value[of x c] by (auto simp: metaValue_def split: sum.splits)
  with hx have "dom h = set fs - (if \<exists>e. getNames ns = Inl e then {InterfacesAvailable} else {})"
    by (auto simp: dom_def split: if_splits)
  moreover have "\<forall>x\<in>dom h. h x = metaValue getNames c x" using hx by (auto simp: dom_def)
  ultimately show ?thesis using h by blast
qed

definition exampleProvider :: "unit metadataProvider" where
  "exampleProvider = \<lparr>mdNetworkService = Some (), mdFields = [], mdFirmware = ''fw'', mdHardware = ''hw'', mdManufacturer = [],
     mdSerialNumber = [], mdLastRebootReason = [], mdProtocol = [], mdBootTime = [], mdBootTimeRetryDelay = [], mdInterfaceUsed = []\<rparr>"

theorem GetMetadata_spec_witness:
  "\<exists>h. GetMetadata (\<lambda>_. Inr [''eth0'', ''wlan0'']) (exampleProvider\<lparr>mdFields := [InterfacesAvailable, Firmware]\<rparr>) = Some h
     \<and> dom h = {InterfacesAvailable, Firmware}"
  using GetMetadata_spec[of "[InterfacesAvailable, Firmware]" exampleProvider
      "exampleProvider\<lparr>mdFields := [InterfacesAvailable, Firmware]\<rparr>" "()" "\<lambda>_. Inr [''eth0'', ''wlan0'']"]
  by (auto simp: exampleProvider_def FieldsOpt_def validFields_def)

text \<open>
  A provider without a network service panics exactly when the available interfaces are among its fields; \<open>New\<close> does not
  ask for the service.
\<close>

theorem GetMetadata_panics:
  "GetMetadata getNames c = None \<longleftrightarrow> InterfacesAvailable \<in> set (mdFields c) \<and> mdNetworkService c = None"
  by (simp add: GetMetadata_def addFields_None)

text \<open>
  Decorating a message overrides the metadata entries the provider has and keeps every other one; nothing else of the
  message changes.
\<close>

theorem DecorateMsg_spec:
  assumes "GetMetadata getNames c = Some h" and "DecorateMsg getNames c msg = Some msg'"
  shows "\<exists>m. mMetadata msg' = Some m \<and> msg'\<lparr>mMetadata := mMetadata msg\<rparr> = msg
     \<and> (\<forall>k. m k = (case h k of Some v \<Rightarrow> Some v | None \<Rightarrow> Option.bind (mMetadata msg) (\<lambda>old. old k)))"
  using assms by (auto simp: DecorateMsg_def map_add_def split: option.splits)

theorem DecorateMsg_spec_witness:
  "\<exists>msg' m. DecorateMsg (\<lambda>_. Inl (Plain [])) (exampleProvider\<lparr>mdFields := [Firmware]\<rparr>) (empty_message\<lparr>mMetadata := Some [''a'' \<mapsto> ''b'']\<rparr>) = Some msg'
     \<and> mMetadata msg' = Some m \<and> m ''a'' = Some ''b'' \<and> m Firmware = Some ''fw''"
proof -
  let ?c = "exampleProvider\<lparr>mdFields := [Firmware]\<rparr>" and ?g = "\<lambda>_. Inl (Plain []) :: gerr + string list"
  have h: "GetMetadata ?g ?c = Some [Firmware \<mapsto> ''fw'']"
    by (simp add: GetMetadata_def addField_def fieldValue_def exampleProvider_def field_defs)
  then obtain msg' where m: "DecorateMsg ?g ?c (empty_message\<lparr>mMetadata := Some [''a'' \<mapsto> ''b'']\<rparr>) = Some msg'"
    by (simp add: DecorateMsg_def)
  from DecorateMsg_spec[OF h m] m show ?thesis by (auto simp: field_defs)
qed

end
