(* ===== verification/GoBufio.thy ===== *)
theory GoBufio
  imports Frame
begin

text \<open>
  \<open>bufio.Writer\<close>, as far as the connection uses it: bytes are collected in a buffer and handed to the transport when the
  buffer is full, when a write does not fit an empty buffer, or on \<open>Flush\<close>. An error of the transport sticks. The buffer has
  \<open>Suc (bwRoom w)\<close> bytes, so that its size is positive. The locale \<open>byte_sink\<close> says what a writer promises, and both this
  writer and the one that only appends keep it.
\<close>

record bufw =
  bwRoom :: nat
  bwBuf :: bytes
  bwSent :: bytes
  bwErr :: "gerr option"
  bwDown :: "gerr option"

definition Available :: "bufw \<Rightarrow> nat" where "Available w = Suc (bwRoom w) - length (bwBuf w)"

text \<open>Handing bytes to the transport: \<open>bwDown\<close> is its error, if it has failed.\<close>

definition transportWrite :: "bytes \<Rightarrow> bufw \<Rightarrow> gerr option \<times> bufw" where
  "transportWrite p w =
     (case bwDown w of None \<Rightarrow> (None, w\<lparr>bwSent := bwSent w @ p\<rparr>) | Some e \<Rightarrow> (Some e, w\<lparr>bwErr := Some e\<rparr>))"

definition Flush :: "bufw \<Rightarrow> gerr option \<times> bufw" where
  "Flush w =
     (case bwErr w of
        Some e \<Rightarrow> (Some e, w)
      | None \<Rightarrow>
          if bwBuf w = [] then (None, w)
          else (case transportWrite (bwBuf w) w of (None, w') \<Rightarrow> (None, w'\<lparr>bwBuf := []\<rparr>) | (Some e, w') \<Rightarrow> (Some e, w')))"

definition bufAppend :: "bytes \<Rightarrow> bufw \<Rightarrow> bufw" where "bufAppend p w = w\<lparr>bwBuf := bwBuf w @ p\<rparr>"

definition bufWrite :: "bufw writer" where
  "bufWrite p w =
     (case bwErr w of
        Some e \<Rightarrow> (Some e, w)
      | None \<Rightarrow>
          if length p \<le> Available w then (None, bufAppend p w)
          else if bwBuf w = [] then transportWrite p w
          else (case Flush (bufAppend (take (Available w) p) w) of
                  (Some e, w') \<Rightarrow> (Some e, w')
                | (None, w') \<Rightarrow>
                    (let q = drop (Available w) p
                     in if length q \<le> Available w' then (None, bufAppend q w') else transportWrite q w')))"

text \<open>Everything the writer has been given, in order.\<close>

definition bwContent :: "bufw \<Rightarrow> bytes" where "bwContent w = bwSent w @ bwBuf w"

definition bwGood :: "bufw \<Rightarrow> bool" where
  "bwGood w \<longleftrightarrow> bwErr w = None \<and> bwDown w = None \<and> length (bwBuf w) \<le> Suc (bwRoom w)"

lemmas bufw_defs = Available_def transportWrite_def Flush_def bufAppend_def bufWrite_def bwContent_def bwGood_def

lemma Flush_good: "bwGood w \<Longrightarrow> \<exists>w'. Flush w = (None, w') \<and> bwContent w' = bwContent w \<and> bwGood w' \<and> bwBuf w' = []"
  by (auto simp: bufw_defs)

lemma bufWrite_good: "bwGood w \<Longrightarrow> \<exists>w'. bufWrite p w = (None, w') \<and> bwContent w' = bwContent w @ p \<and> bwGood w'"
  by (auto simp: bufw_defs Let_def split: if_splits)

text \<open>
  A writer that cannot fail in good states and keeps what it is given. The header of a frame arrives there as
  \<open>headerBytes\<close>, whatever the writer does with it.
\<close>

locale byte_sink =
  fixes wr :: "'w writer" and content :: "'w \<Rightarrow> bytes" and good :: "'w \<Rightarrow> bool"
  assumes write_good: "good w \<Longrightarrow> \<exists>w'. wr p w = (None, w') \<and> content w' = content w @ p \<and> good w'"
begin

lemma andThen_write:
  assumes "good w" and "\<And>w'. good w' \<Longrightarrow> \<exists>w''. f w' = (None, w'') \<and> content w'' = content w' @ q \<and> good w''"
  shows "\<exists>w'. andThen (wr p) f w = (None, w') \<and> content w' = content w @ p @ q \<and> good w'"
proof -
  from write_good[OF assms(1), of p] obtain w1 where w1: "wr p w = (None, w1)" "content w1 = content w @ p" "good w1"
    by blast
  from assms(2)[OF w1(3)] obtain w2 where "f w1 = (None, w2)" "content w2 = content w1 @ q" "good w2" by blast
  with w1 show ?thesis by (simp add: andThen_def)
qed

lemma write_if:
  "good w \<Longrightarrow> \<exists>w'. (if b then wr p else Pair None) w = (None, w') \<and> content w' = content w @ (if b then p else []) \<and> good w'"
  using write_good by auto

lemma writeFrameHeader_sink:
  assumes "good w"
  shows "\<exists>w'. writeFrameHeader h wr w = (None, w') \<and> content w' = content w @ headerBytes h \<and> good w'"
proof -
  let ?f3 = "andThen (if payloadLength h > 125 then wr (extendedLength h) else Pair None)
               (if masked h then wr (le_put 4 (maskKey h)) else Pair None)"
  have f3: "\<exists>w'. ?f3 w = (None, w') \<and> content w' = content w @ (extendedLength h @ (if masked h then le_put 4 (maskKey h) else [])) \<and> good w'"
    if "good w" for w
  proof -
    obtain w1 where w1: "(if payloadLength h > 125 then wr (extendedLength h) else Pair None) w = (None, w1)"
      "content w1 = content w @ (if payloadLength h > 125 then extendedLength h else [])" "good w1"
      using write_if[OF \<open>good w\<close>] by blast
    obtain w2 where "(if masked h then wr (le_put 4 (maskKey h)) else Pair None) w1 = (None, w2)"
      "content w2 = content w1 @ (if masked h then le_put 4 (maskKey h) else [])" "good w2"
      using write_if[OF w1(3)] by blast
    with w1 show ?thesis by (auto simp: andThen_def extendedLength_def)
  qed
  from andThen_write[OF assms andThen_write[OF _ f3]]
  obtain w' where "andThen (wr [firstByte h]) (andThen (wr [lengthByte h]) ?f3) w = (None, w')"
    "content w' = content w @ headerBytes h" "good w'"
    by (fastforce simp: headerBytes_def)
  then show ?thesis by (simp add: writeFrameHeader_def errdWrap_def)
qed

end

interpretation bufsink: byte_sink bufWrite bwContent bwGood
  by unfold_locales (rule bufWrite_good)

interpretation appsink: byte_sink appendWriter "\<lambda>w. w" "\<lambda>_. True"
  by unfold_locales (simp add: appendWriter_def)

end
