(* ===== verification/Conn.thy ===== *)
theory Conn
  imports GoBufio CloseFrame
begin

text \<open>
  \<open>internal/nhooyr.io/websocket\<close>, the connection (\<open>conn.go\<close>, \<open>read.go\<close>, \<open>write.go\<close>, the handshake of \<open>close.go\<close>), without
  compression, which the agent never negotiates. \<open>cFlate\<close> says whether it has been negotiated; what it then changes is in
  \<open>ConnFlate\<close>. The calls of one goroutine follow one another and the contexts they are given do not end meanwhile, so the
  timeout loop is idle; a call that could only return when its context ends returns
  \<open>DeadlineExceeded\<close>. The state has the bytes still to come from the peer, the buffered writer, the random mask keys and the
  fields of \<open>Conn\<close>, \<open>msgReader\<close>, \<open>limitReader\<close> and \<open>msgWriter\<close>. The text of an error is a function of the state.
\<close>

definition ErrNetClosed :: gerr where "ErrNetClosed = Sentinel ''net.ErrClosed''"
definition DeadlineExceeded :: gerr where "DeadlineExceeded = Sentinel ''context.DeadlineExceeded''"
definition ErrRand :: gerr where "ErrRand = Sentinel ''rand''"

definition MessageText :: opcode where "MessageText = 1"
definition MessageBinary :: opcode where "MessageBinary = 2"

text \<open>What the ping and pong listeners hear, and the pings that are told of their pong.\<close>

datatype connEvent = PingHeard bytes | PongHeard bytes | PongSignalled bytes

record conn =
  cClient :: bool
  cErrText :: "gerr \<Rightarrow> bytes"
  cRwcClose :: "gerr option"
  cFlate :: bool
  cIn :: bytes
  cBw :: bufw
  cRand :: "32 word list"
  cClosed :: bool
  cCloseErr :: "gerr option"
  cWroteClose :: bool
  cReadCloseFrameErr :: "gerr option"
  cPingCounter :: int
  cActivePings :: "bytes list"
  cEvents :: "connEvent list"
  mrFin :: bool
  mrPayloadLength :: nat
  mrMaskKey :: "32 word"
  lrLimit :: int
  lrN :: int
  mwClosed :: bool
  mwOpcode :: opcode

definition defaultReadLimit :: int where "defaultReadLimit = 32768"

definition newConn :: "bool \<Rightarrow> (gerr \<Rightarrow> bytes) \<Rightarrow> gerr option \<Rightarrow> bytes \<Rightarrow> bufw \<Rightarrow> 32 word list \<Rightarrow> conn" where
  "newConn client txt rwcClose inp bw rnd =
     \<lparr>cClient = client, cErrText = txt, cRwcClose = rwcClose, cFlate = False, cIn = inp, cBw = bw, cRand = rnd, cClosed = False,
      cCloseErr = None, cWroteClose = False, cReadCloseFrameErr = None, cPingCounter = 0, cActivePings = [], cEvents = [],
      mrFin = True, mrPayloadLength = 0, mrMaskKey = 0, lrLimit = defaultReadLimit + 1, lrN = defaultReadLimit + 1,
      mwClosed = False, mwOpcode = 0\<rparr>"

definition SetReadLimit :: "int \<Rightarrow> conn \<Rightarrow> conn" where
  "SetReadLimit n c = c\<lparr>lrLimit := (if n \<ge> 0 then wrap64 (n + 1) else n)\<rparr>"

subsection \<open>Closing\<close>

definition setCloseErr :: "gerr \<Rightarrow> conn \<Rightarrow> conn" where
  "setCloseErr err c = c\<lparr>cCloseErr := setCloseErrLocked (Some err) (cCloseErr c)\<rparr>"

definition closeConn :: "gerr option \<Rightarrow> conn \<Rightarrow> conn" where
  "closeConn err c =
     (if cClosed c then c
      else c\<lparr>cCloseErr := setCloseErrLocked (case err of None \<Rightarrow> cRwcClose c | Some e \<Rightarrow> Some e) (cCloseErr c),
             cClosed := True\<rparr>)"

definition CloseNow :: "conn \<Rightarrow> gerr option \<times> conn" where
  "CloseNow c =
     (if cClosed c then (errdWrap ''failed to close WebSocket'' (Some ErrNetClosed), c)
      else let c' = closeConn None c in (errdWrap ''failed to close WebSocket'' (cCloseErr c'), c'))"

subsection \<open>Writing\<close>

text \<open>
  The masked payload is copied into the free part of the buffer and masked there, part by part; the model masks a part
  before it copies it, which no flush can observe.
\<close>

lemma Flush_Available: "(None, w') = Flush w \<Longrightarrow> 0 < Available w'"
  by (auto simp: Flush_def Available_def transportWrite_def split: option.splits if_splits)

function maskedWrite :: "32 word \<Rightarrow> bytes \<Rightarrow> bufw \<Rightarrow> gerr option \<times> bufw" where
  "maskedWrite key p w =
     (if p = [] then (None, w)
      else case (if Available w = 0 then Flush w else (None, w)) of
        (Some e, w1) \<Rightarrow> (Some e, w1)
      | (None, w1) \<Rightarrow>
          (let j = min (length p) (Available w1)
           in case mask_frame key (take j p) of
                (m, key') \<Rightarrow>
                  (case bufWrite m w1 of
                     (Some e, w2) \<Rightarrow> (Some e, w2)
                   | (None, w2) \<Rightarrow> maskedWrite key' (drop j p) w2)))"
  by pat_completeness auto
termination
  by (relation "measure (\<lambda>(key, p, w). length p)") (auto split: if_splits dest: Flush_Available)

declare maskedWrite.simps [simp del]

definition writeFramePayload :: "header \<Rightarrow> bytes \<Rightarrow> bufw \<Rightarrow> gerr option \<times> bufw" where
  "writeFramePayload h p w =
     (case (if \<not> masked h then bufWrite p w else maskedWrite (maskKey h) p w) of
        (err, w') \<Rightarrow> (errdWrap ''failed to write frame payload'' err, w'))"

definition failFrame :: "gerr \<Rightarrow> conn \<Rightarrow> gerr option \<times> conn" where
  "failFrame err c = (Some (Wrapped ''failed to write frame'' err), closeConn (Some err) c)"

definition nextKey :: "conn \<Rightarrow> (32 word \<times> conn) option" where
  "nextKey c =
     (if cClient c then (case cRand c of [] \<Rightarrow> None | k # ks \<Rightarrow> Some (k, c\<lparr>cRand := ks\<rparr>)) else Some (0, c))"

definition frameHeader :: "bool \<Rightarrow> bool \<Rightarrow> opcode \<Rightarrow> nat \<Rightarrow> 32 word \<Rightarrow> header" where
  "frameHeader client f op n key =
     \<lparr>fin = f, rsv1 = False, rsv2 = False, rsv3 = False, hopcode = op, payloadLength = int n, masked = client, maskKey = key\<rparr>"

definition writeFrame :: "bool \<Rightarrow> opcode \<Rightarrow> bytes \<Rightarrow> conn \<Rightarrow> gerr option \<times> conn" where
  "writeFrame f op p c =
     (if cClosed c then (Some ErrNetClosed, c)
      else if cWroteClose c \<and> op \<noteq> opClose then (Some DeadlineExceeded, c)
      else case nextKey c of
        None \<Rightarrow> failFrame (Wrapped ''failed to generate masking key'' ErrRand) c
      | Some (key, c1) \<Rightarrow>
          (let h = frameHeader (cClient c) f op (length p) key
           in case writeFrameHeader h bufWrite (cBw c1) of
                (Some e, w) \<Rightarrow> failFrame e (c1\<lparr>cBw := w\<rparr>)
              | (None, w) \<Rightarrow>
                  (case writeFramePayload h p w of
                     (Some e, w1) \<Rightarrow> failFrame e (c1\<lparr>cBw := w1\<rparr>)
                   | (None, w1) \<Rightarrow>
                       if f
                       then (case Flush w1 of
                               (Some e, w2) \<Rightarrow> failFrame (Wrapped ''failed to flush'' e) (c1\<lparr>cBw := w2\<rparr>)
                             | (None, w2) \<Rightarrow> (None, c1\<lparr>cBw := w2\<rparr>))
                       else (None, c1\<lparr>cBw := w1\<rparr>))))"

definition writeControl :: "opcode \<Rightarrow> bytes \<Rightarrow> conn \<Rightarrow> gerr option \<times> conn" where
  "writeControl op p c =
     (case writeFrame True op p c of (err, c') \<Rightarrow> (errdWrap ''failed to write control frame'' err, c'))"

definition writeClose :: "StatusCode \<Rightarrow> bytes \<Rightarrow> conn \<Rightarrow> gerr option \<times> conn" where
  "writeClose code reason c =
     (if cWroteClose c then (Some ErrNetClosed, c)
      else case (if code \<noteq> StatusNoStatusRcvd then bytes_close \<lparr>Code = code, Reason = reason\<rparr> else ([], None)) of
        (p, marshalErr) \<Rightarrow>
          (case writeControl opClose p (c\<lparr>cWroteClose := True\<rparr>) of
             (writeErr, c1) \<Rightarrow>
               (case marshalErr of
                  Some e \<Rightarrow> Some e
                | None \<Rightarrow> (if CloseStatus writeErr \<noteq> -1 then None else writeErr),
                setCloseErr (Wrapped ''sent close frame'' (Coded code reason)) c1)))"

definition writeError :: "StatusCode \<Rightarrow> gerr \<Rightarrow> conn \<Rightarrow> conn" where
  "writeError code err c = closeConn None (snd (writeClose code (cErrText c err) (setCloseErr err c)))"

text \<open>The message writer: \<open>reset\<close>, \<open>Write\<close>, \<open>Close\<close>, and the one-frame \<open>Write\<close> of the connection.\<close>

definition mwReset :: "opcode \<Rightarrow> conn \<Rightarrow> gerr option \<times> conn" where
  "mwReset typ c =
     (if cClosed c then (Some ErrNetClosed, c) else (None, c\<lparr>mwOpcode := typ, mwClosed := False\<rparr>))"

definition mwWrite :: "bytes \<Rightarrow> conn \<Rightarrow> gerr option \<times> conn" where
  "mwWrite p c =
     (if cClosed c then (Some (Wrapped ''failed to write'' ErrNetClosed), c)
      else if mwClosed c then (Some (Plain ''cannot use closed writer''), c)
      else case writeFrame False (mwOpcode c) p c of
        (None, c1) \<Rightarrow> (None, c1\<lparr>mwOpcode := opContinuation\<rparr>)
      | (Some e, c1) \<Rightarrow>
          (let err = Wrapped ''failed to write'' (Wrapped ''failed to write data frame'' e)
           in (Some err, closeConn (Some err) c1)))"

definition mwClose :: "conn \<Rightarrow> gerr option \<times> conn" where
  "mwClose c =
     (if cClosed c then (errdWrap ''failed to close writer'' (Some ErrNetClosed), c)
      else if mwClosed c then (errdWrap ''failed to close writer'' (Some (Plain ''writer already closed'')), c)
      else case writeFrame True (mwOpcode c) [] (c\<lparr>mwClosed := True\<rparr>) of
        (None, c1) \<Rightarrow> (None, c1)
      | (Some e, c1) \<Rightarrow> (errdWrap ''failed to close writer'' (Some (Wrapped ''failed to write fin frame'' e)), c1))"

definition Write_conn :: "opcode \<Rightarrow> bytes \<Rightarrow> conn \<Rightarrow> gerr option \<times> conn" where
  "Write_conn typ p c =
     (case mwReset typ c of
        (Some e, c1) \<Rightarrow> (errdWrap ''failed to write msg'' (Some e), c1)
      | (None, c1) \<Rightarrow>
          (case writeFrame True (mwOpcode c1) p c1 of (err, c2) \<Rightarrow> (errdWrap ''failed to write msg'' err, c2)))"

text \<open>A streamed message: \<open>Writer\<close>, one \<open>Write\<close> for each part, \<open>Close\<close>.\<close>

fun writeParts :: "bytes list \<Rightarrow> conn \<Rightarrow> gerr option \<times> conn" where
  "writeParts [] c = mwClose c"
| "writeParts (p # ps) c = (case mwWrite p c of (Some e, c1) \<Rightarrow> (Some e, c1) | (None, c1) \<Rightarrow> writeParts ps c1)"

definition writeStream :: "opcode \<Rightarrow> bytes list \<Rightarrow> conn \<Rightarrow> gerr option \<times> conn" where
  "writeStream typ ps c =
     (case mwReset typ c of
        (Some e, c1) \<Rightarrow> (Some (Wrapped ''failed to get writer'' e), c1)
      | (None, c1) \<Rightarrow> writeParts ps c1)"

text \<open>\<open>Ping\<close> up to the point where it waits: the counter is an \<open>int32\<close>.\<close>

definition sendPing :: "conn \<Rightarrow> gerr option \<times> conn" where
  "sendPing c =
     (let n = sint (word_of_int (cPingCounter c + 1) :: 32 word);
          p = bytes_of (show_int n);
          c1 = c\<lparr>cPingCounter := n, cActivePings := p # cActivePings c\<rparr>
      in case writeControl opPing p c1 of
           (None, c2) \<Rightarrow> (None, c2)
         | (Some e, c2) \<Rightarrow> (Some (Wrapped ''failed to ping'' e), c2\<lparr>cActivePings := removeAll p (cActivePings c2)\<rparr>))"

subsection \<open>Reading frames\<close>

definition readFrameHeader_conn :: "conn \<Rightarrow> (gerr + header) \<times> conn" where
  "readFrameHeader_conn c =
     (if cClosed c then (Inl ErrNetClosed, c)
      else case readFrameHeader (cIn c) of
        Inl e \<Rightarrow> (Inl e, closeConn (Some e) c)
      | Inr (h, r) \<Rightarrow> (Inr h, c\<lparr>cIn := r\<rparr>))"

definition readFramePayload :: "nat \<Rightarrow> conn \<Rightarrow> (gerr + bytes) \<times> conn" where
  "readFramePayload n c =
     (if cClosed c then (Inl ErrNetClosed, c)
      else case ReadFull n (cIn c) of
        Inl e \<Rightarrow> (let err = Wrapped ''failed to read frame payload'' e in (Inl err, closeConn (Some err) c))
      | Inr (b, r) \<Rightarrow> (Inr b, c\<lparr>cIn := r\<rparr>))"

definition addEvent :: "connEvent \<Rightarrow> conn \<Rightarrow> conn" where "addEvent ev c = c\<lparr>cEvents := cEvents c @ [ev]\<rparr>"

text \<open>The control frames once their payload is there.\<close>

definition handlePing :: "bytes \<Rightarrow> conn \<Rightarrow> gerr option \<times> conn" where
  "handlePing b c = writeControl opPong b (addEvent (PingHeard b) c)"

definition handlePong :: "bytes \<Rightarrow> conn \<Rightarrow> gerr option \<times> conn" where
  "handlePong b c =
     (None, if b \<in> set (cActivePings c) then addEvent (PongSignalled b) (addEvent (PongHeard b) c) else addEvent (PongHeard b) c)"

definition handleClose :: "bytes \<Rightarrow> conn \<Rightarrow> gerr option \<times> conn" where
  "handleClose b c =
     (case parseClosePayload b of
        Inl e \<Rightarrow>
          (let err = Wrapped ''received invalid close payload'' e
           in (Some err, (writeError StatusProtocolError err c)\<lparr>cReadCloseFrameErr := Some err\<rparr>))
      | Inr ce \<Rightarrow>
          (let err = Wrapped ''received close frame'' (Coded (Code ce) (Reason ce))
           in (Some err, (closeConn (Some err) (snd (writeClose (Code ce) (Reason ce) (setCloseErr err c))))
                           \<lparr>cReadCloseFrameErr := Some err\<rparr>)))"

definition handleControl :: "header \<Rightarrow> conn \<Rightarrow> gerr option \<times> conn" where
  "handleControl h c =
     (if payloadLength h < 0 \<or> payloadLength h > maxControlPayload
      then (let err = Plain (''received control frame payload with invalid length: '' @ show_int (payloadLength h))
            in (Some err, writeError StatusProtocolError err c))
      else if \<not> fin h
      then (let err = Plain ''received fragmented control frame'' in (Some err, writeError StatusProtocolError err c))
      else case readFramePayload (nat (payloadLength h)) c of
        (Inl e, c1) \<Rightarrow> (Some e, c1)
      | (Inr b0, c1) \<Rightarrow>
          (let b = (if masked h then fst (mask_frame (maskKey h) b0) else b0)
           in if hopcode h = opPing then handlePing b c1
              else if hopcode h = opPong then handlePong b c1
              else handleClose b c1))"

text \<open>The first reserved bit marks a compressed message, on its first frame.\<close>

definition readRSV1Illegal :: "bool \<Rightarrow> header \<Rightarrow> bool" where
  "readRSV1Illegal flate h = (\<not> flate \<or> hopcode h \<noteq> opText \<and> hopcode h \<noteq> opBinary)"

definition opcodeString :: "opcode \<Rightarrow> string" where
  "opcodeString op =
     (if op = opContinuation then ''opContinuation'' else if op = opText then ''opText''
      else if op = opBinary then ''opBinary'' else if op = opClose then ''opClose''
      else if op = opPing then ''opPing'' else if op = opPong then ''opPong''
      else ''opcode('' @ show_int op @ '')'')"

definition showBool :: "bool \<Rightarrow> string" where "showBool b = (if b then ''true'' else ''false'')"

text \<open>
  What writing and closing may touch: the writer, the keys, and whether and why the connection is closed. A relation between
  states that is reflexive and transitive, so that a sequence of such steps is one.
\<close>

definition ioStep :: "conn \<Rightarrow> conn \<Rightarrow> bool" where
  "ioStep c c' \<longleftrightarrow> c' = c\<lparr>cBw := cBw c', cRand := cRand c', cClosed := cClosed c', cCloseErr := cCloseErr c',
     cWroteClose := cWroteClose c'\<rparr>"

lemma ioStep_refl [simp, intro]: "ioStep c c"
  by (simp add: ioStep_def)

lemma ioStep_trans: "ioStep c c' \<Longrightarrow> ioStep c' c'' \<Longrightarrow> ioStep c c''"
  unfolding ioStep_def by (cases c; cases c'; cases c'') simp

lemma ioStep_updates [simp]:
  "ioStep c (c'\<lparr>cBw := w\<rparr>) \<longleftrightarrow> ioStep c c'" "ioStep c (c'\<lparr>cRand := ks\<rparr>) \<longleftrightarrow> ioStep c c'"
  "ioStep c (c'\<lparr>cWroteClose := b\<rparr>) \<longleftrightarrow> ioStep c c'" "ioStep c (setCloseErr e c') \<longleftrightarrow> ioStep c c'"
  "ioStep c (closeConn err c') \<longleftrightarrow> ioStep c c'" "ioStep (c\<lparr>cWroteClose := b\<rparr>) c' \<longleftrightarrow> ioStep c c'"
  by (cases c; cases c'; simp add: ioStep_def setCloseErr_def closeConn_def)+

lemma ioStep_failFrame [simp]: "ioStep c (snd (failFrame e c')) \<longleftrightarrow> ioStep c c'"
  by (simp add: failFrame_def)

lemma ioStep_nextKey: "nextKey c = Some (k, c') \<Longrightarrow> ioStep c c'"
  by (auto simp: nextKey_def split: if_splits list.splits)

lemma ioStep_writeFrame [simp]: "ioStep c (snd (writeFrame f op p c))"
proof (cases "nextKey c")
  case None
  then show ?thesis by (simp add: writeFrame_def)
next
  case (Some kc)
  obtain k c1 where kc: "kc = (k, c1)" by (cases kc)
  with Some have "ioStep c c1" by (simp add: ioStep_nextKey)
  with Some kc show ?thesis by (simp add: writeFrame_def Let_def split: prod.split option.split)
qed

lemma ioStep_writeControl [simp]: "ioStep c (snd (writeControl op p c))"
  by (simp add: writeControl_def split_def)

lemma ioStep_writeClose [simp]: "ioStep c (snd (writeClose code reason c))"
proof -
  have "ioStep c (snd (writeControl opClose p (c\<lparr>cWroteClose := True\<rparr>)))" for p
    using ioStep_writeControl[of "c\<lparr>cWroteClose := True\<rparr>" opClose p] by (simp only: ioStep_updates)
  then show ?thesis by (simp add: writeClose_def split_def)
qed

lemma ioStep_writeError [simp]: "ioStep c (writeError code err c)"
  using ioStep_writeClose[of "setCloseErr err c"] ioStep_trans[of c "setCloseErr err c"] by (simp add: writeError_def)

lemma ioStep_fields:
  assumes "ioStep c c'"
  shows "cIn c' = cIn c" "cClient c' = cClient c" "mrFin c' = mrFin c" "mrPayloadLength c' = mrPayloadLength c"
    "mrMaskKey c' = mrMaskKey c" "lrLimit c' = lrLimit c" "lrN c' = lrN c" "cEvents c' = cEvents c"
    "cActivePings c' = cActivePings c"
  using assms by (cases c; cases c'; simp add: ioStep_def)+

lemmas cIn_io [simp] = ioStep_fields(1)[OF ioStep_writeControl] ioStep_fields(1)[OF ioStep_writeClose]
  ioStep_fields(1)[OF ioStep_writeError]

lemma cIn_simps [simp]:
  "cIn (setCloseErr e c) = cIn c" "cIn (closeConn err c) = cIn c" "cIn (addEvent ev c) = cIn c"
  by (simp_all add: setCloseErr_def closeConn_def addEvent_def)

lemma cIn_handleControl: "length (cIn (snd (handleControl h c))) \<le> length (cIn c)"
  by (auto simp: handleControl_def readFramePayload_def handlePing_def handlePong_def handleClose_def ReadFull_def Let_def
      split: sum.splits)

lemma readFrameHeader_shorter: "readFrameHeader r = Inr (h, r') \<Longrightarrow> length r' < length r"
  using readFrameHeader_consumes[of r h r'] by auto

subsection \<open>The read loop\<close>

text \<open>
  \<open>readLoop\<close> handles control frames until a data frame comes. Every round takes at least the header off the stream, which
  is why it ends.
\<close>

lemma readFrameHeader_conn_shorter: "readFrameHeader_conn c = (Inr h, c') \<Longrightarrow> length (cIn c') < length (cIn c)"
  by (auto simp: readFrameHeader_conn_def split: if_splits sum.splits dest: readFrameHeader_shorter)

function readLoop :: "conn \<Rightarrow> (gerr + header) \<times> conn" where
  "readLoop c =
     (case readFrameHeader_conn c of
        (Inl e, c1) \<Rightarrow> (Inl e, c1)
      | (Inr h, c1) \<Rightarrow>
          if rsv1 h \<and> readRSV1Illegal (cFlate c1) h \<or> rsv2 h \<or> rsv3 h
          then (let err = Plain (''received header with unexpected rsv bits set: '' @ showBool (rsv1 h) @ '':'' @ showBool (rsv2 h)
                                 @ '':'' @ showBool (rsv3 h))
                in (Inl err, writeError StatusProtocolError err c1))
          else if \<not> cClient c1 \<and> \<not> masked h then (Inl (Plain ''received unmasked frame from client''), c1)
          else if hopcode h = opClose \<or> hopcode h = opPing \<or> hopcode h = opPong
          then (case handleControl h c1 of
                  (None, c2) \<Rightarrow> readLoop c2
                | (Some e, c2) \<Rightarrow>
                    (Inl (if hopcode h = opClose \<and> CloseStatus (Some e) \<noteq> -1 then e
                          else Wrapped (''failed to handle control frame '' @ opcodeString (hopcode h)) e), c2))
          else if hopcode h = opContinuation \<or> hopcode h = opText \<or> hopcode h = opBinary then (Inr h, c1)
          else (let err = Plain (''received unknown opcode '' @ opcodeString (hopcode h))
                in (Inl err, writeError StatusProtocolError err c1)))"
  by pat_completeness auto

termination
proof (relation "measure (\<lambda>c. length (cIn c))")
  show "wf (measure (\<lambda>c. length (cIn c)))" by simp
next
  fix c x c1 h z c2
  assume "(x, c1) = readFrameHeader_conn c" "x = Inr h" "(z, c2) = handleControl h c1"
  then have "length (cIn c1) < length (cIn c)" "length (cIn c2) \<le> length (cIn c1)"
    using readFrameHeader_conn_shorter[of c h c1] cIn_handleControl[of h c1] by (metis, metis snd_conv)
  then show "(c2, c) \<in> measure (\<lambda>c. length (cIn c))" by simp
qed

declare readLoop.simps [simp del]

lemma readLoop_shorter: "readLoop c = (Inr h, c') \<Longrightarrow> length (cIn c') < length (cIn c)"
proof (induction c arbitrary: h c' rule: readLoop.induct)
  case (1 c)
  obtain x c1 where x: "readFrameHeader_conn c = (x, c1)" by (cases "readFrameHeader_conn c")
  with 1(2) obtain h1 where h1: "x = Inr h1" by (subst (asm) readLoop.simps) (auto split: sum.splits)
  have s1: "length (cIn c1) < length (cIn c)" using readFrameHeader_conn_shorter x h1 by simp
  show ?case
  proof (cases "hopcode h1 = opClose \<or> hopcode h1 = opPing \<or> hopcode h1 = opPong")
    case True
    then have ctl: "\<not> (rsv1 h1 \<and> readRSV1Illegal (cFlate c1) h1 \<or> rsv2 h1 \<or> rsv3 h1)" "\<not> (\<not> cClient c1 \<and> \<not> masked h1)"
      "\<exists>c2. handleControl h1 c1 = (None, c2) \<and> readLoop c2 = (Inr h, c')"
      using 1(2) x h1 by (subst (asm) readLoop.simps, auto simp: Let_def split: if_splits prod.splits option.splits)+
    then obtain c2 where c2: "handleControl h1 c1 = (None, c2)" "readLoop c2 = (Inr h, c')" by blast
    from 1(1)[OF x[symmetric] h1 ctl(1,2) True c2(1)[symmetric] refl c2(2)] s1 cIn_handleControl[of h1 c1] c2(1)
    show ?thesis by simp
  next
    case False
    with 1(2) x h1 s1 show ?thesis
      by (subst (asm) readLoop.simps) (auto simp: Let_def split: if_splits)
  qed
qed

subsection \<open>Messages\<close>

definition setFrame :: "header \<Rightarrow> conn \<Rightarrow> conn" where
  "setFrame h c = c\<lparr>mrFin := fin h, mrPayloadLength := nat (payloadLength h), mrMaskKey := maskKey h\<rparr>"

definition mrReset :: "header \<Rightarrow> conn \<Rightarrow> conn" where
  "mrReset h c = setFrame h (c\<lparr>lrN := lrLimit c\<rparr>)"

definition reader :: "conn \<Rightarrow> (gerr + opcode) \<times> conn" where
  "reader c =
     (let wrap = Wrapped ''failed to get reader'' in
      if cClosed c then (Inl (wrap ErrNetClosed), c)
      else if \<not> mrFin c
      then (let err = Plain ''previous message not read to completion'' in (Inl (wrap err), closeConn (Some (wrap err)) c))
      else case readLoop c of
        (Inl e, c1) \<Rightarrow> (Inl (wrap e), c1)
      | (Inr h, c1) \<Rightarrow>
          if hopcode h = opContinuation
          then (let err = Plain ''received continuation frame without text or binary frame''
                in (Inl (wrap err), writeError StatusProtocolError err c1))
          else (Inr (hopcode h), mrReset h c1))"

text \<open>\<open>msgReader.read\<close> into a buffer of \<open>n\<close> bytes.\<close>

function msgRead :: "nat \<Rightarrow> conn \<Rightarrow> (gerr + bytes) \<times> conn" where
  "msgRead n c =
     (if mrPayloadLength c = 0
      then if mrFin c then (Inl EOF, c)
           else (case readLoop c of
                   (Inl e, c1) \<Rightarrow> (Inl e, c1)
                 | (Inr h, c1) \<Rightarrow>
                     if hopcode h \<noteq> opContinuation
                     then (let err = Plain ''received new data message without finishing the previous message''
                           in (Inl err, writeError StatusProtocolError err c1))
                     else msgRead n (setFrame h c1))
      else case readFramePayload (min n (mrPayloadLength c)) c of
        (Inl e, c1) \<Rightarrow> (Inl e, c1)
      | (Inr b, c1) \<Rightarrow>
          (let c2 = c1\<lparr>mrPayloadLength := mrPayloadLength c1 - length b\<rparr>
           in if cClient c then (Inr b, c2)
              else (case mask_frame (mrMaskKey c2) b of (m, key) \<Rightarrow> (Inr m, c2\<lparr>mrMaskKey := key\<rparr>))))"
  by pat_completeness auto
termination
  by (relation "measure (\<lambda>(n, c). length (cIn c))") (auto simp: setFrame_def dest: readLoop_shorter[OF sym])

declare msgRead.simps [simp del]

definition limitRead :: "nat \<Rightarrow> conn \<Rightarrow> (gerr + bytes) \<times> conn" where
  "limitRead n c =
     (if lrN c < 0 then msgRead n c
      else if lrN c = 0
      then (let err = Plain (''read limited at '' @ show_int (lrLimit c) @ '' bytes'')
            in (Inl err, writeError StatusMessageTooBig err c))
      else case msgRead (min n (nat (lrN c))) c of
        (Inl e, c1) \<Rightarrow> (Inl e, c1)
      | (Inr b, c1) \<Rightarrow> (Inr b, c1\<lparr>lrN := max 0 (lrN c1 - int (length b))\<rparr>))"

definition mrRead :: "nat \<Rightarrow> conn \<Rightarrow> (gerr + bytes) \<times> conn" where
  "mrRead n c =
     (if cClosed c then (Inl (Wrapped ''failed to read'' ErrNetClosed), c)
      else case limitRead n c of
        (Inr b, c1) \<Rightarrow> (Inr b, c1)
      | (Inl e, c1) \<Rightarrow>
          if errIs e ''io.EOF'' then (Inl EOF, c1)
          else (let err = Wrapped ''failed to read'' e in (Inl err, closeConn (Some err) c1)))"

lemma mask_frame_length [simp]: "length (fst (mask_frame key b)) = length b"
  by (simp add: mask_frame_eq)

lemma msgRead_shorter: "0 < n \<Longrightarrow> msgRead n c = (Inr b, c') \<Longrightarrow> length (cIn c') < length (cIn c)"
proof (induction n c arbitrary: b c' rule: msgRead.induct)
  case (1 n c)
  show ?case
  proof (cases "mrPayloadLength c = 0")
    case True
    with 1(3) obtain h c1 where l: "readLoop c = (Inr h, c1)" "\<not> mrFin c" "hopcode h = opContinuation" "msgRead n (setFrame h c1) = (Inr b, c')"
      by (subst (asm) msgRead.simps) (auto simp: Let_def split: if_splits prod.splits sum.splits)
    from 1(1)[OF True l(2) l(1)[symmetric] refl _ 1(2) l(4)] l(3) have "length (cIn c') < length (cIn (setFrame h c1))" by simp
    then show ?thesis using readLoop_shorter[OF l(1)] by (simp add: setFrame_def)
  next
    case False
    with 1(2,3) show ?thesis
      by (subst (asm) msgRead.simps) (auto simp: readFramePayload_def ReadFull_def Let_def split: if_splits prod.splits sum.splits)
  qed
qed

lemma mrRead_shorter:
  assumes "0 < n" and "mrRead n c = (Inr b, c')"
  shows "length (cIn c') < length (cIn c)"
proof -
  have "limitRead n c = (Inr b, c')" using assms(2) by (auto simp: mrRead_def Let_def split: if_splits prod.splits sum.splits)
  then show ?thesis
    using assms(1) msgRead_shorter[of n c b c'] msgRead_shorter[of "min n (nat (lrN c))" c b]
    by (auto simp: limitRead_def Let_def split: if_splits prod.splits sum.splits)
qed

text \<open>
  \<open>io.ReadAll\<close>: the free part of its buffer, never empty, is \<open>Suc (sz k)\<close> bytes when \<open>k\<close> bytes have been read. The bytes read
  before an error are dropped.
\<close>

function readAll :: "(nat \<Rightarrow> nat) \<Rightarrow> bytes \<Rightarrow> conn \<Rightarrow> (gerr + bytes) \<times> conn" where
  "readAll sz acc c =
     (case mrRead (Suc (sz (length acc))) c of
        (Inr b, c1) \<Rightarrow> readAll sz (acc @ b) c1
      | (Inl e, c1) \<Rightarrow> (if e = EOF then Inr acc else Inl e, c1))"
  by pat_completeness auto
termination
  by (relation "measure (\<lambda>(sz, acc, c). length (cIn c))") (auto dest: mrRead_shorter[OF _ sym, rotated])

declare readAll.simps [simp del]

definition Read_conn :: "(nat \<Rightarrow> nat) \<Rightarrow> conn \<Rightarrow> (gerr + opcode \<times> bytes) \<times> conn" where
  "Read_conn sz c =
     (case reader c of
        (Inl e, c1) \<Rightarrow> (Inl e, c1)
      | (Inr typ, c1) \<Rightarrow> (case readAll sz [] c1 of (Inl e, c2) \<Rightarrow> (Inl e, c2) | (Inr b, c2) \<Rightarrow> (Inr (typ, b), c2)))"

subsection \<open>The closing handshake\<close>

text \<open>The data frames of the peer are skipped until an error ends the read loop, as a close frame does.\<close>

function skipData :: "conn \<Rightarrow> gerr \<times> conn" where
  "skipData c =
     (case readLoop c of
        (Inl e, c1) \<Rightarrow> (e, c1)
      | (Inr h, c1) \<Rightarrow>
          if nat (payloadLength h) \<le> length (cIn c1) then skipData (c1\<lparr>cIn := drop (nat (payloadLength h)) (cIn c1)\<rparr>)
          else (EOF, c1\<lparr>cIn := []\<rparr>))"
  by pat_completeness auto
termination
  by (relation "measure (\<lambda>c. length (cIn c))") (auto dest: readLoop_shorter[OF sym])

declare skipData.simps [simp del]

definition waitCloseHandshake :: "conn \<Rightarrow> gerr \<times> conn" where
  "waitCloseHandshake c =
     (if cClosed c then (ErrNetClosed, c)
      else case cReadCloseFrameErr c of
        Some e \<Rightarrow> (e, closeConn None c)
      | None \<Rightarrow>
          if mrPayloadLength c \<le> length (cIn c)
          then (case skipData (c\<lparr>cIn := drop (mrPayloadLength c) (cIn c)\<rparr>) of (e, c1) \<Rightarrow> (e, closeConn None c1))
          else (EOF, closeConn None (c\<lparr>cIn := []\<rparr>)))"

text \<open>\<open>errors.Is(net.ErrClosed, err)\<close>, with its arguments in this order, holds for \<open>net.ErrClosed\<close> itself only.\<close>

definition Close_conn :: "StatusCode \<Rightarrow> bytes \<Rightarrow> conn \<Rightarrow> gerr option \<times> conn" where
  "Close_conn code reason c =
     (case writeClose code reason c of
        (writeErr, c1) \<Rightarrow>
          (case waitCloseHandshake c1 of
             (hsErr, c2) \<Rightarrow>
               (errdWrap ''failed to close WebSocket''
                  (case writeErr of
                     Some e \<Rightarrow> Some e
                   | None \<Rightarrow> if CloseStatus (Some hsErr) = -1 \<and> hsErr \<noteq> ErrNetClosed then Some hsErr else None), c2)))"

end
