(* ===== verification/ConnMessages.thy ===== *)
theory ConnMessages
  imports Conn
begin

text \<open>
  What the connection does with whole messages. The wire form of a message is a list of items, the parts of the message in
  order and the control frames among them; \<open>Read\<close> returns the parts joined, whatever the fragmentation and whatever
  the sizes of the reads, answers every ping once and in order, and leaves the stream at the end of the message. The message
  writer produces such a wire form, so two connections back to back transmit messages.
\<close>

subsection \<open>Frames on the wire\<close>

definition frameBytes :: "bool \<Rightarrow> bool \<Rightarrow> opcode \<Rightarrow> bytes \<Rightarrow> 32 word \<Rightarrow> bytes" where
  "frameBytes client f op p key =
     headerBytes (frameHeader client f op (length p) key) @ (if client then fst (mask_frame key p) else p)"

definition connOK :: "conn \<Rightarrow> bool" where
  "connOK c \<longleftrightarrow> \<not> cClosed c \<and> \<not> cWroteClose c \<and> bwGood (cBw c)"

lemma mask_frame_append:
  "mask_frame key (a @ b) = (case mask_frame key a of (x, k) \<Rightarrow> (case mask_frame k b of (y, k') \<Rightarrow> (x @ y, k')))"
  by (simp add: mask_frame_eq maskTail_append)

lemma mask_frame_twice: "fst (mask_frame key (fst (mask_frame key b))) = b"
  by (simp add: mask_frame_eq maskTail_involution)

lemma mask_frame_key_length: "length a = length b \<Longrightarrow> snd (mask_frame key a) = snd (mask_frame key b)"
  by (simp add: mask_frame_eq maskTail_key)

lemma mask_frame_Nil [simp]: "mask_frame key [] = ([], key)"
  by (simp add: mask_frame_eq)

lemma maskedWrite_good:
  "bwGood w \<Longrightarrow> \<exists>w'. maskedWrite key p w = (None, w') \<and> bwContent w' = bwContent w @ fst (mask_frame key p) \<and> bwGood w'"
proof (induction key p w rule: maskedWrite.induct)
  case (1 key p w)
  show ?case
  proof (cases "p = []")
    case True
    with 1(2) show ?thesis by (simp add: maskedWrite.simps)
  next
    case False
    obtain w1 where w1: "(if Available w = 0 then Flush w else (None, w)) = (None, w1)" "bwContent w1 = bwContent w" "bwGood w1"
      using Flush_good[OF 1(2)] 1(2) by (cases "Available w = 0") auto
    define j where "j = min (length p) (Available w1)"
    obtain m key' where m: "mask_frame key (take j p) = (m, key')" by (cases "mask_frame key (take j p)")
    from bufWrite_good[OF w1(3), of m] obtain w2 where w2: "bufWrite m w1 = (None, w2)" "bwContent w2 = bwContent w1 @ m" "bwGood w2"
      by blast
    from 1(1)[OF False w1(1)[symmetric] refl j_def m[symmetric] w2(1)[symmetric] refl w2(3)]
    obtain w' where w': "maskedWrite key' (drop j p) w2 = (None, w')" "bwContent w' = bwContent w2 @ fst (mask_frame key' (drop j p))" "bwGood w'"
      by blast
    have "fst (mask_frame key p) = m @ fst (mask_frame key' (drop j p))"
      using mask_frame_append[of key "take j p" "drop j p"] m by (simp add: split_def)
    with False w1 m w2 w' show ?thesis by (simp add: maskedWrite.simps[of key p w] j_def[symmetric] Let_def)
  qed
qed

lemma writeFramePayload_good:
  "bwGood w \<Longrightarrow> \<exists>w'. writeFramePayload h p w = (None, w')
     \<and> bwContent w' = bwContent w @ (if masked h then fst (mask_frame (maskKey h) p) else p) \<and> bwGood w'"
  using maskedWrite_good[of w "maskKey h" p] bufWrite_good[of w p] by (auto simp: writeFramePayload_def errdWrap_def)

text \<open>On a connection in order a frame is written with the next key, and nothing else changes.\<close>

lemma writeFrame_ok:
  assumes "connOK c \<or> (op = opClose \<and> \<not> cClosed c \<and> bwGood (cBw c))" and "nextKey c = Some (key, c1)"
  shows "\<exists>w. writeFrame f op p c = (None, c1\<lparr>cBw := w\<rparr>) \<and> bwContent w = bwContent (cBw c) @ frameBytes (cClient c) f op p key \<and> bwGood w
          \<and> (f \<longrightarrow> bwBuf w = [])"
proof -
  let ?h = "frameHeader (cClient c) f op (length p) key"
  have bw: "cBw c1 = cBw c" using assms(2) by (auto simp: nextKey_def split: if_splits list.splits)
  have g: "bwGood (cBw c)" using assms(1) by (auto simp: connOK_def)
  from bufsink.writeFrameHeader_sink[OF g, of ?h] obtain w1 where w1: "writeFrameHeader ?h bufWrite (cBw c) = (None, w1)"
    "bwContent w1 = bwContent (cBw c) @ headerBytes ?h" "bwGood w1" by blast
  from writeFramePayload_good[OF w1(3), of ?h p] obtain w2 where w2: "writeFramePayload ?h p w1 = (None, w2)"
    "bwContent w2 = bwContent w1 @ (if cClient c then fst (mask_frame key p) else p)" "bwGood w2"
    by (auto simp: frameHeader_def)
  from Flush_good[OF w2(3)] obtain w3 where w3: "Flush w2 = (None, w3)" "bwContent w3 = bwContent w2" "bwGood w3" "bwBuf w3 = []" by blast
  have go: "\<not> cClosed c" "\<not> (cWroteClose c \<and> op \<noteq> opClose)" using assms(1) by (auto simp: connOK_def)
  show ?thesis
  proof (cases f)
    case True
    with go assms(2) bw w1(1) w2(1) w3(1) have "writeFrame f op p c = (None, c1\<lparr>cBw := w3\<rparr>)"
      by (auto simp: writeFrame_def Let_def)
    moreover have "bwContent w3 = bwContent (cBw c) @ frameBytes (cClient c) f op p key"
      using w1(2) w2(2) w3(2) by (simp add: frameBytes_def)
    ultimately show ?thesis using w3(3,4) by blast
  next
    case False
    with go assms(2) bw w1(1) w2(1) have "writeFrame f op p c = (None, c1\<lparr>cBw := w2\<rparr>)"
      by (auto simp: writeFrame_def Let_def)
    moreover have "bwContent w2 = bwContent (cBw c) @ frameBytes (cClient c) f op p key"
      using w1(2) w2(2) by (simp add: frameBytes_def)
    ultimately show ?thesis using w2(3) False by blast
  qed
qed

text \<open>The frames of the peer: it masks exactly when it is the client.\<close>

abbreviation peerKey :: "conn \<Rightarrow> 32 word \<Rightarrow> 32 word" where "peerKey c key \<equiv> (if cClient c then 0 else key)"

lemma readFrameHeader_peer:
  assumes "\<not> cClosed c" and "0 \<le> op" "op < 16" "length p < 2 ^ 63"
    and "cIn c = frameBytes (\<not> cClient c) f op p (peerKey c key) @ rest"
  shows "readFrameHeader_conn c = (Inr (frameHeader (\<not> cClient c) f op (length p) (peerKey c key)),
           c\<lparr>cIn := (if cClient c then p else fst (mask_frame key p)) @ rest\<rparr>)"
proof -
  let ?h = "frameHeader (\<not> cClient c) f op (length p) (peerKey c key)"
  have "int (length p) < 2 ^ 63" using assms(4) by (metis of_nat_less_iff of_nat_numeral of_nat_power)
  then have "wfHeader ?h" using assms(2,3) by (auto simp: wfHeader_def frameHeader_def)
  from readFrameHeader_headerBytes[OF this] show ?thesis
    using assms(1,5) by (simp add: readFrameHeader_conn_def frameBytes_def)
qed

datatype wireItem = Part bytes "32 word" | Ctl bool bytes "32 word"

text \<open>\<open>Ctl True\<close> is a ping, \<open>Ctl False\<close> a pong. The frame of an item for a reader that is a client or not.\<close>

definition peerFrame :: "bool \<Rightarrow> bool \<Rightarrow> opcode \<Rightarrow> bytes \<Rightarrow> 32 word \<Rightarrow> bytes" where
  "peerFrame client f op p key = frameBytes (\<not> client) f op p (if client then 0 else key)"

fun isPart :: "wireItem \<Rightarrow> bool" where "isPart (Part p k) = True" | "isPart (Ctl b p k) = False"

fun wireBytes :: "bool \<Rightarrow> opcode \<Rightarrow> wireItem list \<Rightarrow> bytes" where
  "wireBytes client op [] = []"
| "wireBytes client op (Ctl ping b k # items) =
     peerFrame client True (if ping then opPing else opPong) b k @ wireBytes client op items"
| "wireBytes client op (Part p k # items) =
     peerFrame client (\<not> list_ex isPart items) op p k @ wireBytes client opContinuation items"

fun partsOf :: "wireItem list \<Rightarrow> bytes" where
  "partsOf [] = []"
| "partsOf (Part p k # items) = p @ partsOf items"
| "partsOf (Ctl b p k # items) = partsOf items"

fun itemOK :: "wireItem \<Rightarrow> bool" where
  "itemOK (Part p k) \<longleftrightarrow> length p < 2 ^ 63" | "itemOK (Ctl b p k) \<longleftrightarrow> length p \<le> 125"

subsection \<open>Serving control frames\<close>

definition npings :: "wireItem list \<Rightarrow> nat" where
  "npings items = length (filter (\<lambda>i. case i of Ctl b p k \<Rightarrow> b | Part p k \<Rightarrow> False) items)"

fun pongs :: "bool \<Rightarrow> 32 word list \<Rightarrow> wireItem list \<Rightarrow> bytes" where
  "pongs client rnd [] = []"
| "pongs client rnd (Part p k # items) = pongs client rnd items"
| "pongs client rnd (Ctl ping b k # items) =
     (if ping then frameBytes client True opPong b (if client then List.hd rnd else 0) @ pongs client (if client then tl rnd else rnd) items
      else pongs client rnd items)"

fun heard :: "bytes list \<Rightarrow> wireItem list \<Rightarrow> connEvent list" where
  "heard active [] = []"
| "heard active (Part p k # items) = heard active items"
| "heard active (Ctl ping b k # items) =
     (if ping then [PingHeard b] else if b \<in> set active then [PongHeard b, PongSignalled b] else [PongHeard b]) @ heard active items"

text \<open>From \<open>c\<close> to \<open>c'\<close> the control frames among the items have been heard and every ping has been answered.\<close>

definition served :: "wireItem list \<Rightarrow> conn \<Rightarrow> conn \<Rightarrow> bool" where
  "served items c c' \<longleftrightarrow> connOK c' \<and> cClient c' = cClient c \<and> cActivePings c' = cActivePings c \<and> lrLimit c' = lrLimit c \<and> cFlate c' = cFlate c
     \<and> cEvents c' = cEvents c @ heard (cActivePings c) items
     \<and> bwContent (cBw c') = bwContent (cBw c) @ pongs (cClient c) (cRand c) items
     \<and> cRand c' = (if cClient c then drop (npings items) (cRand c) else cRand c)
     \<and> (bwBuf (cBw c) = [] \<longrightarrow> bwBuf (cBw c') = [])"

lemma heard_append [simp]: "heard active (xs @ ys) = heard active xs @ heard active ys"
  by (induction active xs rule: heard.induct) auto

lemma npings_simps [simp]:
  "npings [] = 0" "npings (Part p k # items) = npings items"
  "npings (Ctl ping b k # items) = (if ping then Suc (npings items) else npings items)"
  "npings (xs @ ys) = npings xs + npings ys"
  by (auto simp: npings_def)

lemma pongs_append: "pongs client rnd (xs @ ys) = pongs client rnd xs @ pongs client (if client then drop (npings xs) rnd else rnd) ys"
proof (induction client rnd xs rule: pongs.induct)
  case (3 client rnd ping b k items)
  then show ?case by (cases client; cases ping) (simp_all add: drop_Suc)
qed auto

lemma served_refl: "connOK c \<Longrightarrow> served [] c c"
  by (simp add: served_def)

lemma served_trans: "served xs c c' \<Longrightarrow> served ys c' c'' \<Longrightarrow> served (xs @ ys) c c''"
  by (auto simp: served_def pongs_append add.commute)

lemma served_Part: "served items c c' \<Longrightarrow> served (items @ [Part p k]) c c'"
  by (auto simp: served_def pongs_append)

text \<open>Enough keys to answer the pings.\<close>

definition keysFor :: "wireItem list \<Rightarrow> conn \<Rightarrow> bool" where
  "keysFor items c \<longleftrightarrow> (cClient c \<longrightarrow> npings items \<le> length (cRand c))"

lemma keysFor_append: "keysFor (xs @ ys) c \<Longrightarrow> served xs c c' \<Longrightarrow> keysFor xs c \<and> keysFor ys c'"
  by (auto simp: keysFor_def served_def)

definition sameMr :: "conn \<Rightarrow> conn \<Rightarrow> bool" where
  "sameMr c c' \<longleftrightarrow> mrFin c' = mrFin c \<and> mrPayloadLength c' = mrPayloadLength c \<and> mrMaskKey c' = mrMaskKey c \<and> lrN c' = lrN c"

lemma handlePing_served:
  assumes "connOK c" and "keysFor [Ctl True b k] c"
  shows "\<exists>c'. handlePing b c = (None, c') \<and> served [Ctl True b k] c c' \<and> sameMr c c' \<and> cIn c' = cIn c"
proof -
  let ?c = "addEvent (PingHeard b) c"
  have ok: "connOK ?c" using assms(1) by (simp add: connOK_def addEvent_def)
  obtain key c1 where k: "nextKey ?c = Some (key, c1)" "c1 = ?c\<lparr>cRand := (if cClient c then tl (cRand c) else cRand c)\<rparr>"
    "key = (if cClient c then List.hd (cRand c) else 0)"
    using assms(2) by (cases "cRand c") (auto simp: nextKey_def keysFor_def addEvent_def)
  from writeFrame_ok[OF disjI1[OF ok] k(1), of True opPong b] obtain w where
    w: "writeFrame True opPong b ?c = (None, c1\<lparr>cBw := w\<rparr>)"
    "bwContent w = bwContent (cBw c) @ frameBytes (cClient c) True opPong b key" "bwGood w" "bwBuf w = []"
    by (auto simp: addEvent_def)
  have "handlePing b c = (None, c1\<lparr>cBw := w\<rparr>)" using w(1) by (simp add: handlePing_def writeControl_def errdWrap_def)
  moreover have "served [Ctl True b k] c (c1\<lparr>cBw := w\<rparr>)"
    using ok w(2-4) k(2,3) by (auto simp: served_def connOK_def addEvent_def drop_Suc)
  moreover have "sameMr c (c1\<lparr>cBw := w\<rparr>)" "cIn (c1\<lparr>cBw := w\<rparr>) = cIn c" using k(2) by (simp_all add: sameMr_def addEvent_def)
  ultimately show ?thesis by blast
qed

lemma handlePong_served:
  assumes "connOK c"
  shows "\<exists>c'. handlePong b c = (None, c') \<and> served [Ctl False b k] c c' \<and> sameMr c c' \<and> cIn c' = cIn c"
  using assms by (auto simp: handlePong_def served_def sameMr_def connOK_def addEvent_def)

lemma connOK_cIn [simp]: "connOK (c\<lparr>cIn := r\<rparr>) = connOK c"
  by (simp add: connOK_def)

lemma served_cIn [simp]: "served items (c\<lparr>cIn := r\<rparr>) c' = served items c c'" "served items c (c'\<lparr>cIn := r\<rparr>) = served items c c'"
  by (simp_all add: served_def)

lemma sameMr_cIn [simp]: "sameMr (c\<lparr>cIn := r\<rparr>) c' = sameMr c c'"
  by (simp add: sameMr_def)

lemma keysFor_cIn [simp]: "keysFor items (c\<lparr>cIn := r\<rparr>) = keysFor items c"
  by (simp add: keysFor_def)

lemma handleControl_peer:
  assumes "connOK c" and "length b \<le> 125" and "keysFor [Ctl ping b k] c"
    and "cIn c = (if cClient c then b else fst (mask_frame k b)) @ r"
    and "h = frameHeader (\<not> cClient c) True (if ping then opPing else opPong) (length b) (peerKey c k)"
  shows "\<exists>c'. handleControl h c = (None, c') \<and> served [Ctl ping b k] c c' \<and> sameMr c c' \<and> cIn c' = r"
proof -
  let ?b0 = "if cClient c then b else fst (mask_frame k b)"
  have len: "length ?b0 = length b" by simp
  have rd: "readFramePayload (length b) c = (Inr ?b0, c\<lparr>cIn := r\<rparr>)"
    using assms(1,4) ReadFull_append[OF len[symmetric], of r] by (simp add: readFramePayload_def connOK_def)
  have unm: "(if masked h then fst (mask_frame (maskKey h) ?b0) else ?b0) = b"
    using mask_frame_twice by (simp add: assms(5) frameHeader_def)
  have "handleControl h c = (if ping then handlePing b (c\<lparr>cIn := r\<rparr>) else handlePong b (c\<lparr>cIn := r\<rparr>))"
    using assms(2) rd unm by (auto simp: handleControl_def assms(5) frameHeader_def maxControlPayload_def opcode_defs Let_def)
  moreover have "connOK (c\<lparr>cIn := r\<rparr>)" using assms(1) by simp
  ultimately show ?thesis
    using handlePing_served[of "c\<lparr>cIn := r\<rparr>" b k] handlePong_served[of "c\<lparr>cIn := r\<rparr>" b k] assms(3) by (cases ping) simp_all
qed

lemma readLoop_ctl:
  assumes "connOK c" and "length b \<le> 125" and "keysFor [Ctl ping b k] c"
    and "cIn c = peerFrame (cClient c) True (if ping then opPing else opPong) b k @ r"
  shows "\<exists>c'. readLoop c = readLoop c' \<and> served [Ctl ping b k] c c' \<and> sameMr c c' \<and> cIn c' = r"
proof -
  let ?op = "if ping then opPing else opPong"
  let ?h = "frameHeader (\<not> cClient c) True ?op (length b) (peerKey c k)"
  let ?c1 = "c\<lparr>cIn := (if cClient c then b else fst (mask_frame k b)) @ r\<rparr>"
  have hd: "readFrameHeader_conn c = (Inr ?h, ?c1)"
    using readFrameHeader_peer[of c ?op b True k r] assms by (auto simp: peerFrame_def connOK_def opcode_defs)
  from handleControl_peer[of ?c1 b ping k r ?h] assms obtain c' where
    c': "handleControl ?h ?c1 = (None, c')" "served [Ctl ping b k] c c'" "sameMr c c'" "cIn c' = r" by auto
  have "readLoop c = readLoop c'"
    using hd c'(1) by (subst readLoop.simps) (auto simp: frameHeader_def opcode_defs)
  with c' show ?thesis by blast
qed

lemma readLoop_data:
  assumes "\<not> cClosed c" and "length p < 2 ^ 63" and "op \<in> {opContinuation, opText, opBinary}"
    and "cIn c = peerFrame (cClient c) f op p k @ r"
  shows "readLoop c = (Inr (frameHeader (\<not> cClient c) f op (length p) (peerKey c k)),
           c\<lparr>cIn := (if cClient c then p else fst (mask_frame k p)) @ r\<rparr>)"
proof -
  have hd: "readFrameHeader_conn c = (Inr (frameHeader (\<not> cClient c) f op (length p) (peerKey c k)),
           c\<lparr>cIn := (if cClient c then p else fst (mask_frame k p)) @ r\<rparr>)"
    using readFrameHeader_peer[of c op p f k r] assms by (auto simp: peerFrame_def opcode_defs)
  show ?thesis using assms(3) hd by (subst readLoop.simps) (auto simp: frameHeader_def opcode_defs)
qed

text \<open>The read loop over the control frames in front of the next part.\<close>

lemma readLoop_items:
  assumes "connOK c" and "list_all (\<lambda>i. \<not> isPart i) cs" and "list_all itemOK (cs @ [Part p k])" and "keysFor cs c"
    and "op \<in> {opContinuation, opText, opBinary}"
    and "cIn c = wireBytes (cClient c) op (cs @ Part p k # items) @ r"
  shows "\<exists>c'. readLoop c = (Inr (frameHeader (\<not> cClient c) (\<not> list_ex isPart items) op (length p) (peerKey c k)), c')
     \<and> served cs c c' \<and> sameMr c c'
     \<and> cIn c' = (if cClient c then p else fst (mask_frame k p)) @ wireBytes (cClient c) opContinuation items @ r"
  using assms
proof (induction cs arbitrary: c)
  case Nil
  with readLoop_data[of c p op "\<not> list_ex isPart items" k] show ?case
    by (auto simp: connOK_def served_def sameMr_def)
next
  case (Cons i cs)
  then obtain ping b kk where i: "i = Ctl ping b kk" by (cases i) auto
  have ks: "keysFor [Ctl ping b kk] c" using Cons.prems(4) by (auto simp: keysFor_def i)
  from readLoop_ctl[of c b ping kk "wireBytes (cClient c) op (cs @ Part p k # items) @ r"] Cons.prems i ks
  obtain c1 where c1: "readLoop c = readLoop c1" "served [Ctl ping b kk] c c1" "sameMr c c1"
    "cIn c1 = wireBytes (cClient c) op (cs @ Part p k # items) @ r" by auto
  have cl: "cClient c1 = cClient c" "connOK c1" using c1(2) by (auto simp: served_def)
  have "keysFor cs c1" using keysFor_append[of "[Ctl ping b kk]" cs c c1] c1(2) Cons.prems(4) by (simp add: i)
  with Cons.IH[of c1] Cons.prems c1(4) cl obtain c' where
    "readLoop c1 = (Inr (frameHeader (\<not> cClient c) (\<not> list_ex isPart items) op (length p) (peerKey c k)), c')"
    "served cs c1 c'" "sameMr c1 c'"
    "cIn c' = (if cClient c then p else fst (mask_frame k p)) @ wireBytes (cClient c) opContinuation items @ r"
    by auto
  with c1 served_trans[OF c1(2), of cs c'] show ?case by (auto simp: i sameMr_def)
qed

subsection \<open>Inside a message\<close>

text \<open>
  Where the reader stands: \<open>q\<close> is what is left of the current frame, \<open>items\<close> what is left of the message behind it.
\<close>

definition positioned :: "conn \<Rightarrow> bytes \<Rightarrow> wireItem list \<Rightarrow> bytes \<Rightarrow> bool" where
  "positioned c q items rest \<longleftrightarrow>
     cIn c = (if cClient c then q else fst (mask_frame (mrMaskKey c) q)) @ wireBytes (cClient c) opContinuation items @ rest
     \<and> mrPayloadLength c = length q \<and> mrFin c = (\<not> list_ex isPart items) \<and> list_all itemOK items
     \<and> (items \<noteq> [] \<longrightarrow> isPart (last items))"

lemma positioned_fin: "positioned c q items rest \<Longrightarrow> mrFin c \<longleftrightarrow> items = []"
  by (cases items rule: rev_cases) (auto simp: positioned_def)

lemma next_part:
  assumes "items \<noteq> []" and "isPart (last items)"
  obtains cs p k items' where "items = cs @ Part p k # items'" "list_all (\<lambda>i. \<not> isPart i) cs"
proof -
  have "\<exists>x\<in>set items. isPart x" using assms last_in_set by blast
  from split_list_first_prop[OF this] obtain cs x items' where "items = cs @ x # items'" "isPart x" "\<forall>y\<in>set cs. \<not> isPart y"
    by blast
  moreover from \<open>isPart x\<close> obtain p k where "x = Part p k" by (cases x) auto
  ultimately show thesis using that by (auto simp: list_all_iff)
qed

lemma msgRead_payload:
  assumes "positioned c q items rest" and "q \<noteq> []" and "connOK c"
  shows "\<exists>c'. msgRead n c = (Inr (take n q), c') \<and> positioned c' (drop n q) items rest \<and> served [] c c' \<and> lrN c' = lrN c"
proof -
  let ?j = "min n (length q)"
  define enc where "enc = (if cClient c then q else fst (mask_frame (mrMaskKey c) q))"
  define tl' where "tl' = wireBytes (cClient c) opContinuation items @ rest"
  obtain m1 k1 where m1: "mask_frame (mrMaskKey c) (take n q) = (m1, k1)" by (cases "mask_frame (mrMaskKey c) (take n q)")
  have len1: "length m1 = ?j" using mask_frame_length[of "mrMaskKey c" "take n q"] by (simp add: m1 min.commute)
  have enc: "enc = (if cClient c then take n q else m1) @ (if cClient c then drop n q else fst (mask_frame k1 (drop n q)))"
    using mask_frame_append[of "mrMaskKey c" "take n q" "drop n q"] m1 by (simp add: enc_def split_def)
  have cin: "cIn c = enc @ tl'" using assms(1) by (simp add: positioned_def enc_def tl'_def)
  have unmask: "mask_frame (mrMaskKey c) m1 = (take n q, k1)"
    using mask_frame_twice[of "mrMaskKey c" "take n q"] mask_frame_key_length[of m1 "take n q" "mrMaskKey c"] len1 m1
    by (metis fst_conv length_take min.commute prod.collapse snd_conv)
  have rd: "readFramePayload ?j c = (Inr (if cClient c then take n q else m1),
      c\<lparr>cIn := (if cClient c then drop n q else fst (mask_frame k1 (drop n q))) @ tl'\<rparr>)"
    using assms(3) len1 by (simp add: readFramePayload_def connOK_def cin enc ReadFull_append min.commute)
  have "mrPayloadLength c = length q" using assms(1) by (simp add: positioned_def)
  define c' where "c' = (c\<lparr>cIn := (if cClient c then drop n q else fst (mask_frame k1 (drop n q))) @ tl',
     mrPayloadLength := length q - ?j, mrMaskKey := (if cClient c then mrMaskKey c else k1)\<rparr>)"
  have "msgRead n c = (Inr (take n q), c')"
    using assms(2) \<open>mrPayloadLength c = length q\<close> rd unmask len1
    by (subst msgRead.simps) (auto simp: c'_def Let_def min.commute)
  moreover have "positioned c' (drop n q) items rest"
    using assms(1) by (auto simp: positioned_def c'_def tl'_def)
  moreover have "served [] c c'" "lrN c' = lrN c" using assms(3) by (auto simp: served_def c'_def connOK_def)
  ultimately show ?thesis by blast
qed

lemma connOK_setFrame [simp]: "connOK (setFrame h c) = connOK c"
  by (simp add: setFrame_def connOK_def)

lemma served_setFrame [simp]: "served items c (setFrame h c') = served items c c'"
  by (auto simp: served_def setFrame_def connOK_def)

lemma lrN_setFrame [simp]: "lrN (setFrame h c) = lrN c"
  by (simp add: setFrame_def)

lemma positioned_setFrame:
  assumes "cIn c = (if cClient c then p else fst (mask_frame k p)) @ wireBytes (cClient c) opContinuation items @ rest"
    and "list_all itemOK items" and "items \<noteq> [] \<longrightarrow> isPart (last items)"
  shows "positioned (setFrame (frameHeader (\<not> cClient c) (\<not> list_ex isPart items) op (length p) (peerKey c k)) c) p items rest"
  using assms by (auto simp: positioned_def setFrame_def frameHeader_def)

lemma partsOf_skip: "list_all (\<lambda>i. \<not> isPart i) cs \<Longrightarrow> partsOf (cs @ items) = partsOf items"
  by (induction cs rule: partsOf.induct) auto

text \<open>At the end of a frame that is not the last one, the reader goes on with the next part.\<close>

lemma msgRead_next:
  assumes "positioned c [] items rest" and "connOK c" and "keysFor items c" and "items \<noteq> []"
  obtains cs p k items' c2 where "items = cs @ Part p k # items'" "msgRead n c = msgRead n c2" "positioned c2 p items' rest"
    "served (cs @ [Part p k]) c c2" "keysFor items' c2" "lrN c2 = lrN c" "partsOf items = p @ partsOf items'"
proof -
  from assms(1,4) have "isPart (last items)" by (simp add: positioned_def)
  with assms(4) obtain cs p k items' where it: "items = cs @ Part p k # items'" "list_all (\<lambda>i. \<not> isPart i) cs"
    by (rule next_part)
  have ok: "list_all itemOK items" "items' \<noteq> [] \<longrightarrow> isPart (last items')" using assms(1) it(1) by (auto simp: positioned_def)
  have ks: "keysFor cs c" using assms(3) by (auto simp: keysFor_def it(1))
  have "cIn c = wireBytes (cClient c) opContinuation (cs @ Part p k # items') @ rest"
    using assms(1) it(1) by (simp add: positioned_def)
  from readLoop_items[OF assms(2) it(2) _ ks _ this] ok(1) it(1) obtain c1 where
    c1: "readLoop c = (Inr (frameHeader (\<not> cClient c) (\<not> list_ex isPart items') opContinuation (length p) (peerKey c k)), c1)"
    "served cs c c1" "sameMr c c1"
    "cIn c1 = (if cClient c then p else fst (mask_frame k p)) @ wireBytes (cClient c) opContinuation items' @ rest"
    by auto
  define c2 where "c2 = setFrame (frameHeader (\<not> cClient c) (\<not> list_ex isPart items') opContinuation (length p) (peerKey c k)) c1"
  have cl: "cClient c1 = cClient c" using c1(2) by (auto simp: served_def)
  have step: "msgRead n c = msgRead n c2"
    using c1(1) positioned_fin[OF assms(1)] assms(1,4) by (subst msgRead.simps) (simp add: positioned_def frameHeader_def c2_def)
  have pos: "positioned c2 p items' rest"
    using positioned_setFrame[of c1 p k items' rest opContinuation] c1(4) ok it(1) cl by (simp add: c2_def)
  have srv: "served (cs @ [Part p k]) c c2" using c1(2) by (simp add: served_Part c2_def)
  have "keysFor items' c2" using keysFor_append[of "cs @ [Part p k]" items' c c2] assms(3) srv it(1) by simp
  moreover have "lrN c2 = lrN c" using c1(3) by (simp add: sameMr_def c2_def)
  moreover have "partsOf items = p @ partsOf items'" unfolding it(1) using it(2) by (simp add: partsOf_skip)
  ultimately show thesis using that it(1) step pos srv by blast
qed

text \<open>One read: either the next bytes of the message, or its end once all its control frames have been served.\<close>

lemma msgRead_message:
  assumes "positioned c q items rest" and "connOK c" and "keysFor items c" and "0 < n"
  shows "(\<exists>b c' q' items' past. msgRead n c = (Inr b, c') \<and> b \<noteq> [] \<and> items = past @ items' \<and> positioned c' q' items' rest
            \<and> served past c c' \<and> q @ partsOf items = b @ q' @ partsOf items' \<and> lrN c' = lrN c)
       \<or> (\<exists>c'. msgRead n c = (Inl EOF, c') \<and> q @ partsOf items = [] \<and> served items c c' \<and> positioned c' [] [] rest \<and> lrN c' = lrN c)"
  using assms
proof (induction "length items" arbitrary: c q items rule: less_induct)
  case less
  consider (payload) "q \<noteq> []" | (fin) "q = []" "items = []" | (frame) "q = []" "items \<noteq> []" by blast
  then show ?case
  proof cases
    case payload
    from msgRead_payload[OF less.prems(1) payload less.prems(2), of n] obtain c' where
      "msgRead n c = (Inr (take n q), c')" "positioned c' (drop n q) items rest" "served [] c c'" "lrN c' = lrN c" by blast
    moreover have "take n q \<noteq> []" using payload less.prems(4) by simp
    moreover have "q @ partsOf items = take n q @ drop n q @ partsOf items" by simp
    ultimately show ?thesis by (metis append_Nil)
  next
    case fin
    have "msgRead n c = (Inl EOF, c)"
      using less.prems(1) positioned_fin[OF less.prems(1)] fin by (subst msgRead.simps) (simp add: positioned_def)
    with fin less.prems(1,2) show ?thesis by (auto simp: served_refl)
  next
    case frame
    with less.prems obtain cs p k items' c2 where n: "items = cs @ Part p k # items'" "msgRead n c = msgRead n c2"
      "positioned c2 p items' rest" "served (cs @ [Part p k]) c c2" "keysFor items' c2" "lrN c2 = lrN c"
      "partsOf items = p @ partsOf items'" by (metis msgRead_next)
    have "connOK c2" using n(4) by (simp add: served_def)
    from less.hyps[OF _ n(3) this n(5) less.prems(4)] n(1)
    consider (data) b c' q' items'' past where "msgRead n c2 = (Inr b, c')" "b \<noteq> []" "items' = past @ items''"
        "positioned c' q' items'' rest" "served past c2 c'" "p @ partsOf items' = b @ q' @ partsOf items''" "lrN c' = lrN c2"
      | (eof) c' where "msgRead n c2 = (Inl EOF, c')" "p @ partsOf items' = []" "served items' c2 c'" "positioned c' [] [] rest" "lrN c' = lrN c2"
      by auto
    then show ?thesis
    proof cases
      case data
      have "items = (cs @ [Part p k] @ past) @ items''" "served (cs @ [Part p k] @ past) c c'"
        using n(1) data(3) served_trans[OF n(4) data(5)] by simp_all
      with data n(2,6,7) frame show ?thesis by (intro disjI1) (metis append_Nil)
    next
      case eof
      have "served items c c'" using served_trans[OF n(4) eof(3)] n(1) by simp
      with eof n(2,6,7) frame show ?thesis by auto
    qed
  qed
qed

subsection \<open>Whole messages\<close>

definition withinLimit :: "conn \<Rightarrow> nat \<Rightarrow> bool" where
  "withinLimit c n \<longleftrightarrow> lrN c < 0 \<or> int n < lrN c"

lemma positioned_lrN [simp]: "positioned (c\<lparr>lrN := x\<rparr>) q items rest = positioned c q items rest"
  by (simp add: positioned_def)

lemma served_lrN [simp]: "served items c (c'\<lparr>lrN := x\<rparr>) = served items c c'"
  by (simp add: served_def connOK_def)

lemma EOF_is_EOF [simp]: "errIs EOF ''io.EOF''"
  by (simp add: EOF_def)

lemma mrRead_message:
  assumes "positioned c q items rest" and "connOK c" and "keysFor items c" and "0 < n"
    and "withinLimit c (length (q @ partsOf items))"
  shows "(\<exists>b c' q' items' past. mrRead n c = (Inr b, c') \<and> b \<noteq> [] \<and> items = past @ items' \<and> positioned c' q' items' rest
            \<and> served past c c' \<and> q @ partsOf items = b @ q' @ partsOf items' \<and> withinLimit c' (length (q' @ partsOf items')))
       \<or> (\<exists>c'. mrRead n c = (Inl EOF, c') \<and> q @ partsOf items = [] \<and> served items c c' \<and> positioned c' [] [] rest)"
proof -
  define m where "m = (if lrN c < 0 then n else min n (nat (lrN c)))"
  have m: "0 < m" using assms(4,5) by (auto simp: m_def withinLimit_def)
  have nc: "\<not> cClosed c" using assms(2) by (simp add: connOK_def)
  have lr: "lrN c \<noteq> 0" using assms(5) by (auto simp: withinLimit_def)
  from msgRead_message[OF assms(1-3) m] show ?thesis
  proof (elim disjE exE conjE)
    fix b c' q' items' past
    assume d: "msgRead m c = (Inr b, c')" "b \<noteq> []" "items = past @ items'" "positioned c' q' items' rest" "served past c c'"
      "q @ partsOf items = b @ q' @ partsOf items'" "lrN c' = lrN c"
    define c2 where "c2 = (if lrN c < 0 then c' else c'\<lparr>lrN := max 0 (lrN c' - int (length b))\<rparr>)"
    have "mrRead n c = (Inr b, c2)" using nc lr d(1) by (auto simp: mrRead_def limitRead_def m_def c2_def)
    moreover have "withinLimit c2 (length (q' @ partsOf items'))"
      using assms(5) d(7) arg_cong[OF d(6), of length] by (auto simp: withinLimit_def c2_def)
    moreover have "positioned c2 q' items' rest" "served past c c2" using d(4,5) by (auto simp: c2_def)
    ultimately show ?thesis using d(2,3,6) by blast
  next
    fix c'
    assume e: "msgRead m c = (Inl EOF, c')" "q @ partsOf items = []" "served items c c'" "positioned c' [] [] rest"
    have "mrRead n c = (Inl EOF, c')" using nc lr e(1) by (auto simp: mrRead_def limitRead_def m_def)
    with e show ?thesis by blast
  qed
qed

lemma readAll_message:
  assumes "positioned c q items rest" and "connOK c" and "keysFor items c" and "withinLimit c (length (q @ partsOf items))"
  shows "\<exists>c'. readAll sz acc c = (Inr (acc @ q @ partsOf items), c') \<and> served items c c' \<and> positioned c' [] [] rest"
  using assms
proof (induction "length (q @ partsOf items)" arbitrary: c q items acc rule: less_induct)
  case less
  from mrRead_message[OF less.prems(1-3) _ less.prems(4), of "Suc (sz (length acc))"]
  consider (data) b c1 q' items' past where "mrRead (Suc (sz (length acc))) c = (Inr b, c1)" "b \<noteq> []" "items = past @ items'"
      "positioned c1 q' items' rest" "served past c c1" "q @ partsOf items = b @ q' @ partsOf items'"
      "withinLimit c1 (length (q' @ partsOf items'))"
    | (eof) c' where "mrRead (Suc (sz (length acc))) c = (Inl EOF, c')" "q @ partsOf items = []" "served items c c'" "positioned c' [] [] rest"
    by blast
  then show ?case
  proof cases
    case data
    have "length (q' @ partsOf items') < length (q @ partsOf items)" using data(2,6) by simp
    moreover have "connOK c1" "keysFor items' c1"
      using data(5) keysFor_append[of past items' c c1] less.prems(3) data(3) by (auto simp: served_def)
    ultimately obtain c' where "readAll sz (acc @ b) c1 = (Inr ((acc @ b) @ q' @ partsOf items'), c')" "served items' c1 c'" "positioned c' [] [] rest"
      using less.hyps[of q' items' c1 "acc @ b"] data(4,7) by blast
    with data(1,6) served_trans[OF data(5)] data(3) show ?thesis by (subst readAll.simps) simp
  next
    case eof
    then show ?thesis by (subst readAll.simps) simp
  qed
qed

text \<open>A message between two others: the reader is done with the previous one.\<close>

definition idle :: "conn \<Rightarrow> bool" where
  "idle c \<longleftrightarrow> connOK c \<and> mrFin c \<and> mrPayloadLength c = 0"

lemma mrReset_alt: "mrReset h c = setFrame h (c\<lparr>lrN := lrLimit c\<rparr>)"
  by (simp add: mrReset_def)

text \<open>The start of a message, shared by the reads that succeed and those that do not.\<close>

lemma reader_message:
  assumes "connOK c" and "mrFin c" and "mt \<in> {opText, opBinary}" and "items \<noteq> []" "isPart (last items)" "list_all itemOK items"
    and "keysFor items c" and "cIn c = wireBytes (cClient c) mt items @ rest"
  obtains past c2 p items' where "reader c = (Inr mt, c2)" "positioned c2 p items' rest" "connOK c2" "keysFor items' c2"
    "lrN c2 = lrLimit c" "lrLimit c2 = lrLimit c" "partsOf items = p @ partsOf items'"
    "items = past @ items'" "served past c c2"
proof -
  from assms(4,5) obtain cs p k items' where it: "items = cs @ Part p k # items'" "list_all (\<lambda>i. \<not> isPart i) cs" by (rule next_part)
  have ks: "keysFor cs c" using assms(7) by (auto simp: keysFor_def it(1))
  let ?h = "frameHeader (\<not> cClient c) (\<not> list_ex isPart items') mt (length p) (peerKey c k)"
  from readLoop_items[OF assms(1) it(2) _ ks, of p k mt items' rest] assms(3,6,8) it(1) obtain c1 where
    c1: "readLoop c = (Inr ?h, c1)" "served cs c c1" "sameMr c c1"
    "cIn c1 = (if cClient c then p else fst (mask_frame k p)) @ wireBytes (cClient c) opContinuation items' @ rest" by auto
  have cl: "cClient c1 = cClient c" "lrLimit c1 = lrLimit c" using c1(2) by (auto simp: served_def)
  let ?c2 = "mrReset ?h c1"
  have "reader c = (Inr mt, ?c2)"
    using assms(1-3) c1(1) by (auto simp: reader_def connOK_def frameHeader_def opcode_defs Let_def)
  moreover have "positioned ?c2 p items' rest"
    using positioned_setFrame[of "c1\<lparr>lrN := lrLimit c1\<rparr>" p k items' rest mt] c1(4) assms(5,6) it(1) cl
    by (auto simp: mrReset_alt split: if_splits)
  moreover have srv: "served (cs @ [Part p k]) c ?c2" using c1(2) by (simp add: served_Part mrReset_alt)
  moreover have "keysFor items' ?c2" using keysFor_append[of "cs @ [Part p k]" items' c ?c2] assms(7) srv it(1) by simp
  moreover have "lrN ?c2 = lrLimit c" "lrLimit ?c2 = lrLimit c" "connOK ?c2" using cl srv by (simp_all add: mrReset_alt served_def)
  moreover have "partsOf items = p @ partsOf items'" unfolding it(1) using it(2) by (simp add: partsOf_skip)
  moreover have "items = (cs @ [Part p k]) @ items'" using it(1) by simp
  ultimately show thesis using that by blast
qed

lemma Read_conn_message:
  assumes "connOK c" and "mrFin c" and "mt \<in> {opText, opBinary}" and "items \<noteq> []" "isPart (last items)" "list_all itemOK items"
    and "keysFor items c" and "lrLimit c < 0 \<or> int (length (partsOf items)) < lrLimit c"
    and "cIn c = wireBytes (cClient c) mt items @ rest"
  shows "\<exists>c'. Read_conn sz c = (Inr (mt, partsOf items), c') \<and> served items c c' \<and> idle c' \<and> cIn c' = rest"
proof -
  from reader_message[OF assms(1-7,9)] obtain past c2 p items' where
    r: "reader c = (Inr mt, c2)" "positioned c2 p items' rest" "connOK c2" "keysFor items' c2" "lrN c2 = lrLimit c"
      "partsOf items = p @ partsOf items'" "items = past @ items'" "served past c c2" by metis
  have "withinLimit c2 (length (p @ partsOf items'))" using assms(8) r(5,6) by (simp add: withinLimit_def)
  from readAll_message[OF r(2-4) this, of sz "[]"] obtain c' where
    c': "readAll sz [] c2 = (Inr (p @ partsOf items'), c')" "served items' c2 c'" "positioned c' [] [] rest" by auto
  have "served items c c'" using served_trans[OF r(8) c'(2)] r(7) by simp
  moreover have "idle c'" "cIn c' = rest" using c'(2,3) by (auto simp: idle_def served_def positioned_def)
  moreover have "Read_conn sz c = (Inr (mt, partsOf items), c')" using r(1,6) c'(1) by (simp add: Read_conn_def)
  ultimately show ?thesis by blast
qed

text \<open>
  C10: Reading a message: whatever its fragmentation, whatever pings and pongs lie between the fragments, and whatever sizes
  \<open>io.ReadAll\<close> asks for, a message within the read limit is returned whole with its type; every ping is answered by one pong
  with its payload, in order, and heard by the listeners, and the connection stands at the byte after the message.
\<close>

theorem Read_message:
  assumes "idle c" and "mt \<in> {opText, opBinary}" and "items \<noteq> []" "isPart (last items)" "list_all itemOK items"
    and "keysFor items c" and "lrLimit c < 0 \<or> int (length (partsOf items)) < lrLimit c"
    and "cIn c = wireBytes (cClient c) mt items @ rest"
  shows "\<exists>c'. Read_conn sz c = (Inr (mt, partsOf items), c') \<and> idle c' \<and> cIn c' = rest
     \<and> cEvents c' = cEvents c @ heard (cActivePings c) items
     \<and> bwContent (cBw c') = bwContent (cBw c) @ pongs (cClient c) (cRand c) items"
  using Read_conn_message[OF _ _ assms(2-8), of sz] assms(1) by (auto simp: idle_def served_def)

definition emptyBw :: bufw where "emptyBw = \<lparr>bwRoom = 7, bwBuf = [], bwSent = [], bwErr = None, bwDown = None\<rparr>"

definition exampleConn :: "bytes \<Rightarrow> conn" where
  "exampleConn inp = newConn True (\<lambda>_. []) None inp emptyBw [1, 2, 3]"

lemma exampleConn_idle: "idle (exampleConn inp)"
  by (simp add: exampleConn_def newConn_def idle_def connOK_def emptyBw_def bwGood_def)

theorem Read_message_witness:
  "\<exists>c'. Read_conn (\<lambda>_. 0) (exampleConn (wireBytes True opText [Part [1, 2] 0, Ctl True [9] 0, Part [3] 0] @ [7])) = (Inr (opText, [1, 2, 3]), c')
     \<and> cIn c' = [7] \<and> cEvents c' = [PingHeard [9]]"
proof -
  let ?items = "[Part [1, 2] 0, Ctl True [9] 0, Part [3] 0]" and ?c = "exampleConn (wireBytes True opText [Part [1, 2] 0, Ctl True [9] 0, Part [3] 0] @ [7])"
  have "keysFor ?items ?c" "lrLimit ?c < 0 \<or> int (length (partsOf ?items)) < lrLimit ?c" "cIn ?c = wireBytes (cClient ?c) opText ?items @ [7]"
    by (simp_all add: exampleConn_def newConn_def keysFor_def defaultReadLimit_def del: wireBytes.simps)
  from Read_message[OF exampleConn_idle _ _ _ _ this, of "\<lambda>_. 0"] show ?thesis
    by (auto simp: exampleConn_def newConn_def simp del: wireBytes.simps)
qed


subsection \<open>Writing messages\<close>

text \<open>
  A writer that takes turns: what it has handed over is on the wire. The wire form is the one of a reader at the other end,
  with one key for every frame.
\<close>

definition drained :: "conn \<Rightarrow> bool" where "drained c \<longleftrightarrow> connOK c \<and> bwBuf (cBw c) = []"

definition writeKeys :: "nat \<Rightarrow> conn \<Rightarrow> 32 word list" where
  "writeKeys n c = (if cClient c then take n (cRand c) else replicate n 0)"

definition canWrite :: "nat \<Rightarrow> conn \<Rightarrow> bool" where
  "canWrite n c \<longleftrightarrow> (cClient c \<longrightarrow> n \<le> length (cRand c))"

definition dropKeys :: "nat \<Rightarrow> conn \<Rightarrow> 32 word list" where
  "dropKeys n c = (if cClient c then drop n (cRand c) else cRand c)"

lemma nextKey_eq:
  "canWrite (Suc n) c \<Longrightarrow> nextKey c = Some (if cClient c then List.hd (cRand c) else 0, c\<lparr>cRand := dropKeys 1 c\<rparr>)"
  by (cases c; cases "cRand c") (auto simp: canWrite_def nextKey_def dropKeys_def)

lemma nextKey_canWrite:
  assumes "canWrite (Suc n) c"
  obtains key where "nextKey c = Some (key, c\<lparr>cRand := dropKeys 1 c\<rparr>)" "writeKeys (Suc n) c = key # writeKeys n (c\<lparr>cRand := dropKeys 1 c\<rparr>)"
    "canWrite n (c\<lparr>cRand := dropKeys 1 c\<rparr>)"
  using assms that[OF nextKey_eq[OF assms]] by (cases "cRand c") (auto simp: canWrite_def writeKeys_def dropKeys_def)

lemma list_ex_isPart_map2: "length ks = length ps \<Longrightarrow> list_ex isPart (map2 Part ps ks) \<longleftrightarrow> ps \<noteq> []"
  by (cases ps; cases ks) auto

lemma writeParts_ok:
  assumes "connOK c" and "\<not> mwClosed c" and "canWrite (Suc (length ps)) c" and "mwOpcode c = op"
  shows "\<exists>c'. writeParts ps c = (None, c') \<and> drained c' \<and> cClient c' = cClient c
           \<and> bwContent (cBw c') = bwContent (cBw c) @ wireBytes (\<not> cClient c) op (map2 Part (ps @ [[]]) (writeKeys (Suc (length ps)) c))
           \<and> cRand c' = dropKeys (Suc (length ps)) c"
  using assms
proof (induction ps arbitrary: c op)
  case Nil
  define key where "key = (if cClient c then List.hd (cRand c) else 0)"
  have "canWrite (Suc 0) (c\<lparr>mwClosed := True\<rparr>)" using Nil.prems(3) by (simp add: canWrite_def)
  from nextKey_eq[OF this] have k: "nextKey (c\<lparr>mwClosed := True\<rparr>) = Some (key, c\<lparr>mwClosed := True, cRand := dropKeys 1 c\<rparr>)"
    by (simp add: key_def dropKeys_def)
  have wk: "writeKeys 1 c = [key]" using Nil.prems(3) by (cases "cRand c") (auto simp: key_def writeKeys_def canWrite_def)
  have "connOK (c\<lparr>mwClosed := True\<rparr>)" using Nil.prems(1) by (simp add: connOK_def)
  from writeFrame_ok[OF disjI1[OF this] k(1), of True op "[]"] obtain w where
    w: "writeFrame True op [] (c\<lparr>mwClosed := True\<rparr>) = (None, c\<lparr>mwClosed := True, cRand := dropKeys 1 c, cBw := w\<rparr>)"
    "bwContent w = bwContent (cBw c) @ frameBytes (cClient c) True op [] key" "bwGood w" "bwBuf w = []" by auto
  have "key = (if cClient c then key else 0)" by (simp add: key_def)
  then have f: "wireBytes (\<not> cClient c) op [Part [] key] = frameBytes (cClient c) True op [] key"
    by (cases "cClient c") (simp_all add: peerFrame_def)
  have "writeParts [] c = (None, c\<lparr>mwClosed := True, cRand := dropKeys 1 c, cBw := w\<rparr>)"
    using Nil.prems(1,2,4) w(1) by (simp add: mwClose_def connOK_def)
  with w f wk Nil.prems(1) show ?case by (auto simp: drained_def connOK_def)
next
  case (Cons p ps)
  let ?n = "Suc (length ps)"
  from Cons.prems(3) have cw: "canWrite (Suc ?n) c" by simp
  obtain key where k: "nextKey c = Some (key, c\<lparr>cRand := dropKeys 1 c\<rparr>)" "writeKeys (Suc ?n) c = key # writeKeys ?n (c\<lparr>cRand := dropKeys 1 c\<rparr>)"
    "canWrite ?n (c\<lparr>cRand := dropKeys 1 c\<rparr>)" by (rule nextKey_canWrite[OF cw])
  from writeFrame_ok[OF disjI1[OF Cons.prems(1)] k(1), of False op p] obtain w where
    w: "writeFrame False op p c = (None, c\<lparr>cRand := dropKeys 1 c, cBw := w\<rparr>)"
    "bwContent w = bwContent (cBw c) @ frameBytes (cClient c) False op p key" "bwGood w" by auto
  let ?c1 = "c\<lparr>cRand := dropKeys 1 c, cBw := w, mwOpcode := opContinuation\<rparr>"
  have m: "mwWrite p c = (None, ?c1)" using Cons.prems(1,2,4) w(1) by (simp add: mwWrite_def connOK_def)
  have keys: "writeKeys ?n ?c1 = writeKeys ?n (c\<lparr>cRand := dropKeys 1 c\<rparr>)" by (simp add: writeKeys_def)
  have "connOK ?c1" "\<not> mwClosed ?c1" "canWrite ?n ?c1" "mwOpcode ?c1 = opContinuation"
    using Cons.prems(1,2) w(3) k(3) by (auto simp: connOK_def canWrite_def)
  from Cons.IH[OF this] obtain c' where c': "writeParts ps ?c1 = (None, c')" "drained c'" "cClient c' = cClient c"
    "bwContent (cBw c') = bwContent w @ wireBytes (\<not> cClient c) opContinuation (map2 Part (ps @ [[]]) (writeKeys ?n ?c1))"
    "cRand c' = dropKeys ?n ?c1" by auto
  have len: "length (writeKeys ?n ?c1) = length (ps @ [[]])" using k(3) by (auto simp: writeKeys_def canWrite_def)
  have "key = (if cClient c then key else 0)" using k(2) by (auto simp: writeKeys_def split: if_splits)
  then have "peerFrame (\<not> cClient c) False op p key = frameBytes (cClient c) False op p key"
    by (cases "cClient c") (simp_all add: peerFrame_def)
  then have "wireBytes (\<not> cClient c) op (map2 Part ((p # ps) @ [[]]) (writeKeys (Suc ?n) c))
      = frameBytes (cClient c) False op p key @ wireBytes (\<not> cClient c) opContinuation (map2 Part (ps @ [[]]) (writeKeys ?n ?c1))"
    using k(2) keys list_ex_isPart_map2[OF len] by simp
  moreover have "cRand c' = dropKeys (Suc ?n) c" using c'(5) by (simp add: dropKeys_def)
  ultimately show ?case using m c' w(2) by auto
qed

end
