(* ===== verification/ConnLink.thy ===== *)
theory ConnLink
  imports ConnMessages
begin

text \<open>
  Two connections back to back, of opposite roles, refine a queue of messages: what one writes, whole with \<open>Write\<close> or in
  parts with \<open>Writer\<close>, the other reads, in order and once. Then the closing handshake, and where reading departs
  from what its comments say.
\<close>

subsection \<open>Messages without control frames\<close>

definition message :: "bytes list \<Rightarrow> 32 word list \<Rightarrow> wireItem list" where
  "message ps ks = map2 Part ps ks"

lemma message_simps:
  assumes "length ks = length ps"
  shows "npings (message ps ks) = 0" "partsOf (message ps ks) = concat ps" "list_ex isPart (message ps ks) \<longleftrightarrow> ps \<noteq> []"
    "heard active (message ps ks) = []" "pongs client rnd (message ps ks) = []" "message ps ks = [] \<longleftrightarrow> ps = []"
    "ps \<noteq> [] \<Longrightarrow> isPart (last (message ps ks))" "list_all (\<lambda>p. length p < 2 ^ 63) ps \<Longrightarrow> list_all itemOK (message ps ks)"
  using assms unfolding message_def by (induction ps ks rule: list_induct2'; auto)+

lemma writeStream_ok:
  assumes "drained c" and "canWrite (Suc (length ps)) c"
  shows "\<exists>c'. writeStream mt ps c = (None, c') \<and> drained c' \<and> cClient c' = cClient c
           \<and> bwSent (cBw c') = bwSent (cBw c) @ wireBytes (\<not> cClient c) mt (message (ps @ [[]]) (writeKeys (Suc (length ps)) c))
           \<and> cRand c' = dropKeys (Suc (length ps)) c"
proof -
  let ?c = "c\<lparr>mwOpcode := mt, mwClosed := False\<rparr>"
  have "connOK ?c" "\<not> mwClosed ?c" "canWrite (Suc (length ps)) ?c" "mwOpcode ?c = mt"
    using assms by (simp_all add: drained_def connOK_def canWrite_def)
  from writeParts_ok[OF this] obtain c' where c': "writeParts ps ?c = (None, c')" "drained c'" "cClient c' = cClient c"
    "bwContent (cBw c') = bwContent (cBw c) @ wireBytes (\<not> cClient c) mt (map2 Part (ps @ [[]]) (writeKeys (Suc (length ps)) ?c))"
    "cRand c' = dropKeys (Suc (length ps)) ?c" by auto
  have k: "writeKeys n ?c = writeKeys n c" "dropKeys n ?c = dropKeys n c" for n by (simp_all add: writeKeys_def dropKeys_def)
  have r: "mwReset mt c = (None, ?c)" using assms(1) by (simp add: mwReset_def drained_def connOK_def)
  have "writeStream mt ps c = (None, c')" using r c'(1) by (simp add: writeStream_def)
  with c' assms(1) k show ?thesis by (auto simp: drained_def bwContent_def message_def)
qed

lemma Write_conn_ok:
  assumes "drained c" and "canWrite 1 c"
  shows "\<exists>c'. Write_conn mt p c = (None, c') \<and> drained c' \<and> cClient c' = cClient c
           \<and> bwSent (cBw c') = bwSent (cBw c) @ wireBytes (\<not> cClient c) mt (message [p] (writeKeys 1 c)) \<and> cRand c' = dropKeys 1 c"
proof -
  let ?c = "c\<lparr>mwOpcode := mt, mwClosed := False\<rparr>" and ?k = "if cClient c then List.hd (cRand c) else 0"
  have ok: "connOK ?c" "canWrite (Suc 0) ?c" using assms by (simp_all add: drained_def connOK_def canWrite_def)
  from nextKey_eq[OF ok(2)] have k: "nextKey ?c = Some (?k, ?c\<lparr>cRand := dropKeys 1 c\<rparr>)" by (simp add: dropKeys_def)
  from writeFrame_ok[OF disjI1[OF ok(1)] k, of True mt p] obtain w where
    w: "writeFrame True mt p ?c = (None, ?c\<lparr>cRand := dropKeys 1 c, cBw := w\<rparr>)"
    "bwContent w = bwContent (cBw c) @ frameBytes (cClient c) True mt p ?k" "bwGood w" "bwBuf w = []" by auto
  have wk: "writeKeys 1 c = [?k]" using assms(2) by (cases "cRand c") (auto simp: writeKeys_def canWrite_def)
  have f: "wireBytes (\<not> cClient c) mt (message [p] [?k]) = frameBytes (cClient c) True mt p ?k"
    by (simp add: message_def peerFrame_def)
  have r: "mwReset mt c = (None, ?c)" using assms(1) by (simp add: mwReset_def drained_def connOK_def)
  have "Write_conn mt p c = (None, ?c\<lparr>cRand := dropKeys 1 c, cBw := w\<rparr>)" using r w(1) by (simp add: Write_conn_def errdWrap_def)
  with w(2-4) f wk assms(1) show ?thesis by (auto simp: drained_def connOK_def bwContent_def)
qed

subsection \<open>A link\<close>

text \<open>The bytes a call hands to the transport arrive at the other end.\<close>

datatype linkOp = SendStream opcode "bytes list" | SendWhole opcode bytes | Recv "nat \<Rightarrow> nat"

type_synonym msg = "opcode \<times> bytes"

definition deliver :: "conn \<Rightarrow> conn \<Rightarrow> conn \<Rightarrow> conn" where
  "deliver w w' r = r\<lparr>cIn := cIn r @ drop (length (bwSent (cBw w))) (bwSent (cBw w'))\<rparr>"

fun linkStep :: "linkOp \<Rightarrow> conn \<times> conn \<Rightarrow> (gerr + msg list) \<times> conn \<times> conn" where
  "linkStep (SendStream mt ps) (w, r) =
     (case writeStream mt ps w of (e, w') \<Rightarrow> (case e of None \<Rightarrow> Inr [] | Some x \<Rightarrow> Inl x, w', deliver w w' r))"
| "linkStep (SendWhole mt p) (w, r) =
     (case Write_conn mt p w of (e, w') \<Rightarrow> (case e of None \<Rightarrow> Inr [] | Some x \<Rightarrow> Inl x, w', deliver w w' r))"
| "linkStep (Recv sz) (w, r) =
     (case Read_conn sz r of (Inl e, r') \<Rightarrow> (Inl e, w, r') | (Inr m, r') \<Rightarrow> (Inr [m], w, r'))"

fun linkRun :: "linkOp list \<Rightarrow> conn \<times> conn \<Rightarrow> (gerr + msg list) \<times> conn \<times> conn" where
  "linkRun [] s = (Inr [], s)"
| "linkRun (x # xs) s =
     (case linkStep x s of
        (Inl e, s1) \<Rightarrow> (Inl e, s1)
      | (Inr out, s1) \<Rightarrow> (case linkRun xs s1 of (Inl e, s2) \<Rightarrow> (Inl e, s2) | (Inr out', s2) \<Rightarrow> (Inr (out @ out'), s2)))"

text \<open>The specification: a queue of messages, from which a receive takes the oldest.\<close>

fun fifoRun :: "linkOp list \<Rightarrow> msg list \<Rightarrow> (msg list \<times> msg list) option" where
  "fifoRun [] q = Some ([], q)"
| "fifoRun (SendStream mt ps # xs) q = fifoRun xs (q @ [(mt, concat ps)])"
| "fifoRun (SendWhole mt p # xs) q = fifoRun xs (q @ [(mt, p)])"
| "fifoRun (Recv sz # xs) q = (case q of [] \<Rightarrow> None | m # q' \<Rightarrow> map_option (apfst ((#) m)) (fifoRun xs q'))"

text \<open>What a sender has to respect: the message types, the sizes of the parts and the read limit of the peer.\<close>

definition fits :: "int \<Rightarrow> bytes list \<Rightarrow> bool" where
  "fits limit ps \<longleftrightarrow> list_all (\<lambda>p. length p < 2 ^ 63) ps \<and> (limit < 0 \<or> int (length (concat ps)) < limit)"

fun opFits :: "int \<Rightarrow> linkOp \<Rightarrow> bool" where
  "opFits limit (SendStream mt ps) \<longleftrightarrow> mt \<in> {opText, opBinary} \<and> fits limit ps"
| "opFits limit (SendWhole mt p) \<longleftrightarrow> mt \<in> {opText, opBinary} \<and> fits limit [p]"
| "opFits limit (Recv sz) \<longleftrightarrow> True"

fun opKeys :: "linkOp \<Rightarrow> nat" where
  "opKeys (SendStream mt ps) = Suc (length ps)" | "opKeys (SendWhole mt p) = 1" | "opKeys (Recv sz) = 0"

text \<open>The simulation relation: the unread bytes are the wire forms of the queued messages.\<close>

definition wireOf :: "bool \<Rightarrow> msg \<Rightarrow> bytes \<Rightarrow> bool" where
  "wireOf client m b \<longleftrightarrow> fst m \<in> {opText, opBinary} \<and> (\<exists>ps ks. length ks = length ps \<and> ps \<noteq> [] \<and> list_all (\<lambda>p. length p < 2 ^ 63) ps
     \<and> concat ps = snd m \<and> b = wireBytes client (fst m) (message ps ks))"

definition linked :: "int \<Rightarrow> msg list \<Rightarrow> conn \<times> conn \<Rightarrow> bool" where
  "linked limit q s \<longleftrightarrow> (case s of (w, r) \<Rightarrow> drained w \<and> idle r \<and> cClient r \<noteq> cClient w \<and> lrLimit r = limit
     \<and> list_all (\<lambda>m. limit < 0 \<or> int (length (snd m)) < limit) q
     \<and> (\<exists>bs. list_all2 (wireOf (cClient r)) q bs \<and> cIn r = concat bs))"

lemma idle_cIn [simp]: "idle (c\<lparr>cIn := x\<rparr>) = idle c"
  by (simp add: idle_def)

lemma linked_send:
  assumes "linked limit q (w, r)" and "drained w'" "cClient w' = cClient w"
    and "bwSent (cBw w') = bwSent (cBw w) @ wireBytes (\<not> cClient w) mt (message ps ks)"
    and "length ks = length ps" "ps \<noteq> []" "fits limit ps" "mt \<in> {opText, opBinary}"
  shows "linked limit (q @ [(mt, concat ps)]) (w', deliver w w' r)"
proof -
  from assms(1) obtain bs where bs: "list_all2 (wireOf (cClient r)) q bs" "cIn r = concat bs" and rc: "cClient r = (\<not> cClient w)"
    unfolding linked_def prod.case by blast
  let ?b = "wireBytes (cClient r) mt (message ps ks)"
  have wo: "wireOf (cClient r) (mt, concat ps) ?b" using assms(5-8) by (auto simp: wireOf_def fits_def)
  have cin: "cIn (deliver w w' r) = concat (bs @ [?b])" using assms(4) bs(2) rc by (simp add: deliver_def)
  show ?thesis unfolding linked_def prod.case
  proof (intro conjI exI[of _ "bs @ [?b]"])
    show "list_all2 (wireOf (cClient (deliver w w' r))) (q @ [(mt, concat ps)]) (bs @ [?b])"
      using bs(1) wo by (simp add: list_all2_appendI deliver_def)
  qed (use assms(1-3,7) cin in \<open>auto simp: linked_def fits_def deliver_def\<close>)
qed

lemma linked_recv:
  assumes "linked limit (m # q) (w, r)"
  shows "\<exists>r'. Read_conn sz r = (Inr m, r') \<and> linked limit q (w, r')"
proof -
  from assms obtain b bs where bs: "wireOf (cClient r) m b" "list_all2 (wireOf (cClient r)) q bs" "cIn r = b @ concat bs"
    unfolding linked_def prod.case list_all2_Cons1 by (metis concat.simps(2))
  from bs(1) obtain ps ks where ps: "length ks = length ps" "ps \<noteq> []" "list_all (\<lambda>p. length p < 2 ^ 63) ps" "concat ps = snd m"
    "b = wireBytes (cClient r) (fst m) (message ps ks)" "fst m \<in> {opText, opBinary}" by (auto simp: wireOf_def)
  note ms = message_simps[OF ps(1)]
  have r: "connOK r" "mrFin r" using assms by (auto simp: linked_def idle_def)
  have ne: "message ps ks \<noteq> []" "isPart (last (message ps ks))" "list_all itemOK (message ps ks)" "keysFor (message ps ks) r"
    "lrLimit r < 0 \<or> int (length (partsOf (message ps ks))) < lrLimit r"
    using ms ps(2,3,4) assms by (auto simp: keysFor_def linked_def)
  have "cIn r = wireBytes (cClient r) (fst m) (message ps ks) @ concat bs" using bs(3) ps(5) by simp
  from Read_conn_message[OF r ps(6) ne this, of sz] obtain r' where
    r': "Read_conn sz r = (Inr (fst m, snd m), r')" "served (message ps ks) r r'" "idle r'" "cIn r' = concat bs"
    using ms(2) ps(4) by auto
  with assms bs(2) have "linked limit q (w, r')" by (auto simp: linked_def served_def)
  with r'(1) show ?thesis by auto
qed
lemma length_writeKeys: "canWrite n w \<Longrightarrow> length (writeKeys n w) = n"
  by (simp add: canWrite_def writeKeys_def)

lemma canWrite_le: "canWrite (m + n) w \<Longrightarrow> canWrite m w"
  by (auto simp: canWrite_def)

lemma canWrite_rest: "canWrite (m + n) w \<Longrightarrow> cRand w' = dropKeys m w \<Longrightarrow> cClient w' = cClient w \<Longrightarrow> canWrite n w'"
  by (auto simp: canWrite_def dropKeys_def)

lemma linkStep_stream:
  assumes "linked limit q (w, r)" and "opFits limit (SendStream mt ps)" and "canWrite (Suc (length ps) + n) w"
  shows "\<exists>w' r'. linkStep (SendStream mt ps) (w, r) = (Inr [], w', r') \<and> linked limit (q @ [(mt, concat ps)]) (w', r') \<and> canWrite n w'"
proof -
  have d: "drained w" and cw: "canWrite (Suc (length ps)) w"
    using assms(1,3) canWrite_le[of "Suc (length ps)" n w] by (auto simp: linked_def)
  from writeStream_ok[OF d cw, of mt] obtain w' where w': "writeStream mt ps w = (None, w')" "drained w'" "cClient w' = cClient w"
    "bwSent (cBw w') = bwSent (cBw w) @ wireBytes (\<not> cClient w) mt (message (ps @ [[]]) (writeKeys (Suc (length ps)) w))"
    "cRand w' = dropKeys (Suc (length ps)) w" by blast
  have "fits limit (ps @ [[]])" "mt \<in> {opText, opBinary}" using assms(2) by (auto simp: fits_def)
  then have "linked limit (q @ [(mt, concat ps)]) (w', deliver w w' r)"
    using linked_send[OF assms(1) w'(2-4)] length_writeKeys[OF cw] by simp
  with w'(1) canWrite_rest[OF assms(3) w'(5,3)] show ?thesis by simp
qed

lemma linkStep_whole:
  assumes "linked limit q (w, r)" and "opFits limit (SendWhole mt p)" and "canWrite (1 + n) w"
  shows "\<exists>w' r'. linkStep (SendWhole mt p) (w, r) = (Inr [], w', r') \<and> linked limit (q @ [(mt, p)]) (w', r') \<and> canWrite n w'"
proof -
  have d: "drained w" and cw: "canWrite 1 w" using assms(1,3) canWrite_le[of 1 n w] by (auto simp: linked_def)
  from Write_conn_ok[OF d cw, of mt p] obtain w' where w': "Write_conn mt p w = (None, w')" "drained w'" "cClient w' = cClient w"
    "bwSent (cBw w') = bwSent (cBw w) @ wireBytes (\<not> cClient w) mt (message [p] (writeKeys 1 w))" "cRand w' = dropKeys 1 w" by blast
  have "linked limit (q @ [(mt, p)]) (w', deliver w w' r)"
    using linked_send[OF assms(1) w'(2-4)] length_writeKeys[OF cw] assms(2) by simp
  with w'(1) canWrite_rest[OF assms(3) w'(5,3)] show ?thesis by simp
qed

text \<open>
  C3: A link refines a queue of messages: for every sequence of writes (whole or in parts, either role masking) and reads of
  which none finds the queue empty, with messages within the read limit of the peer, every call succeeds, the reads return
  exactly the messages of the queue, in order, with their types, and the link stands for the queue that is left.
\<close>

theorem link_refines_queue:
  assumes "linked limit q (w, r)" and "list_all (opFits limit) xs" and "canWrite (sum_list (map opKeys xs)) w"
    and "fifoRun xs q = Some (out, q')"
  shows "\<exists>w' r'. linkRun xs (w, r) = (Inr out, w', r') \<and> linked limit q' (w', r')"
  using assms
proof (induction xs q arbitrary: w r out rule: fifoRun.induct)
  case (2 mt ps xs q)
  then have "opFits limit (SendStream mt ps)" "canWrite (Suc (length ps) + sum_list (map opKeys xs)) w" by simp_all
  from linkStep_stream[OF 2(2) this] obtain w1 r1 where s: "linkStep (SendStream mt ps) (w, r) = (Inr [], w1, r1)"
    "linked limit (q @ [(mt, concat ps)]) (w1, r1)" "canWrite (sum_list (map opKeys xs)) w1" by blast
  from 2(1)[OF s(2) _ s(3)] 2(3,5) obtain w' r' where "linkRun xs (w1, r1) = (Inr out, w', r')" "linked limit q' (w', r')" by auto
  with s(1) show ?case by simp
next
  case (3 mt p xs q)
  then have "opFits limit (SendWhole mt p)" "canWrite (1 + sum_list (map opKeys xs)) w" by simp_all
  from linkStep_whole[OF 3(2) this] obtain w1 r1 where s: "linkStep (SendWhole mt p) (w, r) = (Inr [], w1, r1)"
    "linked limit (q @ [(mt, p)]) (w1, r1)" "canWrite (sum_list (map opKeys xs)) w1" by blast
  from 3(1)[OF s(2) _ s(3)] 3(3,5) obtain w' r' where "linkRun xs (w1, r1) = (Inr out, w', r')" "linked limit q' (w', r')" by auto
  with s(1) show ?case by simp
next
  case (4 sz xs q)
  then obtain m q1 out1 where q: "q = m # q1" "fifoRun xs q1 = Some (out1, q')" "out = m # out1" by (auto split: list.splits)
  from 4(2) linked_recv[of limit m q1 w r sz] q(1) obtain r1 where r1: "Read_conn sz r = (Inr m, r1)" "linked limit q1 (w, r1)" by auto
  from 4(1)[OF q(1) r1(2) _ _ q(2)] 4(3,4) obtain w' r' where "linkRun xs (w, r1) = (Inr out1, w', r')" "linked limit q' (w', r')" by auto
  with r1(1) q(3) show ?case by simp
qed simp

lemma example_linked: "linked 32769 [] (exampleConn [], newConn False (\<lambda>_. []) None [] emptyBw [])"
  by (simp add: linked_def drained_def exampleConn_def newConn_def idle_def connOK_def emptyBw_def bwGood_def defaultReadLimit_def)

theorem link_refines_queue_witness:
  "\<exists>w' r'. linkRun [SendStream opText [[1], [2, 3]], Recv (\<lambda>_. 0)] (exampleConn [], newConn False (\<lambda>_. []) None [] emptyBw [])
     = (Inr [(opText, [1, 2, 3])], w', r') \<and> linked 32769 [] (w', r')"
  by (rule link_refines_queue[OF example_linked])
    (simp_all add: fits_def canWrite_def exampleConn_def newConn_def)

subsection \<open>The read limit\<close>

lemma cClosed_writeError [simp]: "cClosed (writeError code err c)"
  by (simp add: writeError_def closeConn_def)

lemma wroteClose_kept [simp]: "cWroteClose (setCloseErr e c) = cWroteClose c" "cWroteClose (closeConn err c) = cWroteClose c"
  by (simp_all add: setCloseErr_def closeConn_def)

lemma wroteClose_writeFrame: "cWroteClose (snd (writeFrame f op p c)) = cWroteClose c"
  by (auto simp: writeFrame_def failFrame_def nextKey_def Let_def split: option.split prod.split list.split)

lemma wroteClose_writeClose [simp]: "cWroteClose (snd (writeClose code reason c))"
  using wroteClose_writeFrame[of True opClose _ "c\<lparr>cWroteClose := True\<rparr>"] by (simp add: writeClose_def writeControl_def split_def)

lemma wroteClose_writeError [simp]: "cWroteClose (writeError code err c)"
  by (simp add: writeError_def)

abbreviation tooBig :: "int \<Rightarrow> gerr" where
  "tooBig limit \<equiv> Wrapped ''failed to read'' (Plain (''read limited at '' @ show_int limit @ '' bytes''))"

lemma mrRead_tooBig:
  assumes "\<not> cClosed c" and "lrN c = 0"
  shows "\<exists>c'. mrRead n c = (Inl (tooBig (lrLimit c)), c') \<and> cClosed c' \<and> cWroteClose c'"
  using assms by (auto simp: mrRead_def limitRead_def Let_def closeConn_def)

lemma mrRead_towards_limit:
  assumes "positioned c q items rest" and "connOK c" and "keysFor items c" and "0 < n"
    and "0 < lrN c" and "lrN c \<le> int (length (q @ partsOf items))"
  shows "\<exists>b c' q' items'. mrRead n c = (Inr b, c') \<and> positioned c' q' items' rest \<and> connOK c' \<and> keysFor items' c' \<and> lrLimit c' = lrLimit c
            \<and> 0 \<le> lrN c' \<and> lrN c' \<le> int (length (q' @ partsOf items')) \<and> length (q' @ partsOf items') < length (q @ partsOf items)"
proof -
  define m where "m = min n (nat (lrN c))"
  have m: "0 < m" using assms(4,5) by (auto simp: m_def)
  have ne: "q @ partsOf items \<noteq> []" using assms(5,6) by (cases "q @ partsOf items") auto
  from msgRead_message[OF assms(1-3) m] ne obtain b c' q' items' past where
    d: "msgRead m c = (Inr b, c')" "b \<noteq> []" "items = past @ items'" "positioned c' q' items' rest" "served past c c'"
      "q @ partsOf items = b @ q' @ partsOf items'" "lrN c' = lrN c" by blast
  define c2 where "c2 = c'\<lparr>lrN := max 0 (lrN c' - int (length b))\<rparr>"
  have len: "length (q @ partsOf items) = length b + length (q' @ partsOf items')" using d(6) by simp
  have s: "served past c c2" "positioned c2 q' items' rest" using d(4,5) by (simp_all add: c2_def)
  have "mrRead n c = (Inr b, c2)" using assms(2,5) d(1) by (auto simp: mrRead_def limitRead_def m_def c2_def connOK_def)
  moreover have "connOK c2" "lrLimit c2 = lrLimit c" using s(1) by (auto simp: served_def)
  moreover have "keysFor items' c2" using keysFor_append[OF _ s(1)] assms(3) d(3) by blast
  moreover have "0 \<le> lrN c2" "lrN c2 \<le> int (length (q' @ partsOf items'))" using assms(6) len d(7) by (auto simp: c2_def)
  moreover have "length (q' @ partsOf items') < length (q @ partsOf items)" using len d(2) by simp
  ultimately show ?thesis using s(2) by blast
qed

lemma readAll_tooBig:
  assumes "positioned c q items rest" and "connOK c" and "keysFor items c" and "0 \<le> lrN c" and "lrN c \<le> int (length (q @ partsOf items))"
  shows "\<exists>c'. readAll sz acc c = (Inl (tooBig (lrLimit c)), c') \<and> cClosed c' \<and> cWroteClose c'"
  using assms
proof (induction "length (q @ partsOf items)" arbitrary: c q items acc rule: less_induct)
  case less
  show ?case
  proof (cases "lrN c = 0")
    case True
    have "\<not> cClosed c" using less.prems(2) by (simp add: connOK_def)
    from mrRead_tooBig[OF this True] obtain c' where
      "mrRead (Suc (sz (length acc))) c = (Inl (tooBig (lrLimit c)), c')" "cClosed c'" "cWroteClose c'" by blast
    then show ?thesis by (subst readAll.simps) (simp add: EOF_def)
  next
    case False
    with less.prems(4) have "0 < lrN c" by simp
    from mrRead_towards_limit[OF less.prems(1-3) _ this less.prems(5)] obtain b c1 q' items' where
      s: "mrRead (Suc (sz (length acc))) c = (Inr b, c1)" "positioned c1 q' items' rest" "connOK c1" "keysFor items' c1" "lrLimit c1 = lrLimit c"
        "0 \<le> lrN c1" "lrN c1 \<le> int (length (q' @ partsOf items'))" "length (q' @ partsOf items') < length (q @ partsOf items)" by blast
    from less.hyps[OF s(8,2-4,6,7), of "acc @ b"] s(1,5) show ?thesis by (subst readAll.simps) simp
  qed
qed



text \<open>The largest limit is one too many: the extra byte wraps around and the limit is off, as for -1.\<close>

lemma SetReadLimit_overflow: "lrLimit (SetReadLimit (2 ^ 63 - 1) c) < 0"
  by (simp add: SetReadLimit_def wrap64_def)

subsection \<open>A message cut short\<close>

lemma readLoop_end:
  assumes "\<not> cClosed c" and "cIn c = []"
  shows "\<exists>e c'. readLoop c = (Inl e, c') \<and> errIs e ''io.EOF'' \<and> cClosed c'"
proof -
  obtain e where "readFrameHeader [] = Inl e" "errIs e ''io.EOF''"
    by (simp add: readFrameHeader_def readFrameHeader_inner_def EOF_def)
  with assms show ?thesis by (subst readLoop.simps) (auto simp: readFrameHeader_conn_def closeConn_def)
qed

lemma msgRead_client:
  assumes "cClient c" and "\<not> cClosed c" and "cIn c = q" and "mrPayloadLength c = length q" and "q \<noteq> []"
  shows "msgRead n c = (Inr (take n q), c\<lparr>cIn := drop n q, mrPayloadLength := length (drop n q)\<rparr>)"
proof -
  have "ReadFull (min n (length q)) q = Inr (take n q, drop n q)"
    using ReadFull_append[of "min n (length q)" "take n q" "drop n q"] by (simp add: min.commute)
  with assms show ?thesis
    by (subst msgRead.simps) (auto simp: readFramePayload_def Let_def min_def)
qed

lemma readAll_cut:
  assumes "cClient c" and "\<not> cClosed c" and "\<not> mrFin c" and "cIn c = q" and "mrPayloadLength c = length q"
    and "withinLimit c (length q)"
  shows "\<exists>c'. readAll sz acc c = (Inr (acc @ q), c') \<and> cClosed c'"
  using assms
proof (induction "length q" arbitrary: c q acc rule: less_induct)
  case less
  let ?n = "Suc (sz (length acc))"
  define m where "m = (if lrN c < 0 then ?n else min ?n (nat (lrN c)))"
  have lr: "lrN c \<noteq> 0" "0 < m" using less.prems(6) by (auto simp: withinLimit_def m_def)
  show ?case
  proof (cases "q = []")
    case True
    from readLoop_end[of c] less.prems(2,4) True obtain e c' where
      r: "readLoop c = (Inl e, c')" "errIs e ''io.EOF''" "cClosed c'" by auto
    have "msgRead k c = (Inl e, c')" for k using r(1) less.prems(3,5) True by (subst msgRead.simps) simp
    then have "mrRead ?n c = (Inl EOF, c')" using r(2) lr(1) less.prems(2) by (simp add: mrRead_def limitRead_def)
    with True r(3) show ?thesis by (subst readAll.simps) simp
  next
    case False
    let ?c1 = "c\<lparr>cIn := drop m q, mrPayloadLength := length (drop m q)\<rparr>"
    define c2 where "c2 = (if lrN c < 0 then ?c1 else ?c1\<lparr>lrN := max 0 (lrN c - int (length (take m q)))\<rparr>)"
    have "msgRead m c = (Inr (take m q), ?c1)" using msgRead_client[OF less.prems(1,2,4,5) False] .
    then have rd: "mrRead ?n c = (Inr (take m q), c2)"
      using lr(1) less.prems(2) by (auto simp: mrRead_def limitRead_def m_def c2_def)
    have short: "length (drop m q) < length q" using False lr(2) by (cases q; cases m) auto
    have "cClient c2" "\<not> cClosed c2" "\<not> mrFin c2" "cIn c2 = drop m q" "mrPayloadLength c2 = length (drop m q)"
      using less.prems(1-3) by (simp_all add: c2_def)
    moreover have "withinLimit c2 (length (drop m q))" using less.prems(6) by (auto simp: withinLimit_def c2_def)
    ultimately obtain c' where "readAll sz (acc @ take m q) c2 = (Inr ((acc @ take m q) @ drop m q), c')" "cClosed c'"
      using less.hyps[OF short, of c2 "acc @ take m q"] by blast
    with rd show ?thesis by (subst readAll.simps) simp
  qed
qed

text \<open>
  A message cut short is taken for a whole one: when the stream ends behind a fragment that is not the last, the wrapped
  \<open>io.EOF\<close> of the frame header passes for the end of the message, and \<open>Read\<close> returns what had come, without an error.
\<close>

theorem cut_message_accepted:
  assumes "idle c" and "cClient c" and "mt \<in> {opText, opBinary}" and "length p < 2 ^ 63" and "lrLimit c < 0 \<or> int (length p) < lrLimit c"
    and "cIn c = peerFrame True False mt p k"
  shows "\<exists>c'. Read_conn sz c = (Inr (mt, p), c') \<and> cClosed c'"
proof -
  let ?h = "frameHeader False False mt (length p) 0" and ?c1 = "c\<lparr>cIn := p\<rparr>"
  have ok: "\<not> cClosed c" "mrFin c" using assms(1) by (auto simp: idle_def connOK_def)
  have "readLoop c = (Inr ?h, ?c1)" using readLoop_data[of c p mt False k "[]"] assms ok(1) by auto
  then have "reader c = (Inr mt, mrReset ?h ?c1)"
    using ok assms(3) by (auto simp: reader_def frameHeader_def opcode_defs Let_def)
  moreover have "\<exists>c'. readAll sz [] (mrReset ?h ?c1) = (Inr ([] @ p), c') \<and> cClosed c'"
    by (rule readAll_cut) (use assms ok in \<open>auto simp: mrReset_def setFrame_def frameHeader_def withinLimit_def\<close>)
  ultimately show ?thesis by (auto simp: Read_conn_def)
qed

theorem cut_message_accepted_witness:
  "\<exists>c'. Read_conn (\<lambda>_. 511) (exampleConn (peerFrame True False opBinary [1, 2, 3] 0)) = (Inr (opBinary, [1, 2, 3]), c') \<and> cClosed c'"
  by (rule cut_message_accepted[OF exampleConn_idle]) (auto simp: exampleConn_def newConn_def defaultReadLimit_def)

subsection \<open>The closing handshake\<close>

definition framesBytes :: "bool \<Rightarrow> (bool \<times> opcode \<times> bytes \<times> 32 word) list \<Rightarrow> bytes" where
  "framesBytes client fs = concat (map (\<lambda>(f, op, p, k). peerFrame client f op p k) fs)"

definition dataFrame :: "bool \<times> opcode \<times> bytes \<times> 32 word \<Rightarrow> bool" where
  "dataFrame fr \<longleftrightarrow> (case fr of (f, op, p, k) \<Rightarrow> op \<in> {opContinuation, opText, opBinary} \<and> length p < 2 ^ 63)"

lemma skipData_frames:
  assumes "\<not> cClosed c" and "list_all dataFrame fs" and "cIn c = framesBytes (cClient c) fs @ r"
  shows "skipData c = skipData (c\<lparr>cIn := r\<rparr>)"
  using assms
proof (induction fs arbitrary: c)
  case Nil
  then have "c = c\<lparr>cIn := r\<rparr>" by (simp add: framesBytes_def)
  then show ?case by (rule arg_cong)
next
  case (Cons fr fs)
  obtain f op p k where fr: "fr = (f, op, p, k)" by (cases fr)
  let ?h = "frameHeader (\<not> cClient c) f op (length p) (peerKey c k)"
  let ?enc = "if cClient c then p else fst (mask_frame k p)" and ?r = "framesBytes (cClient c) fs @ r"
  have "readLoop c = (Inr ?h, c\<lparr>cIn := ?enc @ ?r\<rparr>)"
    using readLoop_data[of c p op f k ?r] Cons.prems by (simp add: fr dataFrame_def framesBytes_def)
  then have "skipData c = skipData (c\<lparr>cIn := ?r\<rparr>)" by (subst skipData.simps) (simp add: frameHeader_def)
  also have "\<dots> = skipData (c\<lparr>cIn := r\<rparr>)" using Cons.IH[of "c\<lparr>cIn := ?r\<rparr>"] Cons.prems by simp
  finally show ?case .
qed

lemma parseClosePayload_code: "parseClosePayload b = Inr ce \<Longrightarrow> 0 \<le> Code ce"
  by (auto simp: parseClosePayload_def status_defs Let_def split: if_splits)

abbreviation gotClose :: "CloseError \<Rightarrow> gerr" where
  "gotClose ce \<equiv> Wrapped ''received close frame'' (Coded (Code ce) (Reason ce))"

lemma gotClose_status: "parseClosePayload b = Inr ce \<Longrightarrow> CloseStatus (Some (gotClose ce)) \<noteq> -1"
  using parseClosePayload_code[of b ce] by (simp add: CloseStatus_def)

text \<open>The close frame of the peer, first in any state, then once our own has gone out: nothing more is written.\<close>

lemma readLoop_handleClose:
  assumes "\<not> cClosed c" and "parseClosePayload b = Inr ce" and "length b \<le> 125"
    and "cIn c = peerFrame (cClient c) True opClose b k @ r"
  shows "readLoop c = (Inl (gotClose ce), snd (handleClose b (c\<lparr>cIn := r\<rparr>)))"
proof -
  let ?h = "frameHeader (\<not> cClient c) True opClose (length b) (peerKey c k)"
  let ?b0 = "if cClient c then b else fst (mask_frame k b)"
  let ?c1 = "c\<lparr>cIn := ?b0 @ r\<rparr>" and ?c2 = "c\<lparr>cIn := r\<rparr>"
  have hd: "readFrameHeader_conn c = (Inr ?h, ?c1)"
    using readFrameHeader_peer[of c opClose b True k r] assms by (auto simp: peerFrame_def opcode_defs)
  have len: "length b = length ?b0" by simp
  have rd: "readFramePayload (length b) ?c1 = (Inr ?b0, ?c2)"
    using assms(1) ReadFull_append[OF len, of r] by (simp add: readFramePayload_def)
  have unm: "(if masked ?h then fst (mask_frame (maskKey ?h) ?b0) else ?b0) = b"
    using mask_frame_twice by (simp add: frameHeader_def)
  have "handleControl ?h ?c1 = handleClose b ?c2"
    using assms(3) rd unm by (auto simp: handleControl_def frameHeader_def maxControlPayload_def opcode_defs Let_def)
  moreover have "fst (handleClose b ?c2) = Some (gotClose ce)" using assms(2) by (simp add: handleClose_def Let_def)
  ultimately have h: "handleControl ?h ?c1 = (Some (gotClose ce), snd (handleClose b ?c2))" by (metis prod.collapse)
  have "CloseStatus (Some (gotClose ce)) \<noteq> -1" using gotClose_status[OF assms(2)] .
  with hd h show ?thesis by (subst readLoop.simps) (auto simp: frameHeader_def opcode_defs)
qed

lemma readLoop_close:
  assumes "\<not> cClosed c" and "cWroteClose c" and "parseClosePayload b = Inr ce" and "length b \<le> 125"
    and "cIn c = peerFrame (cClient c) True opClose b k @ r"
  shows "\<exists>c'. readLoop c = (Inl (gotClose ce), c') \<and> cClosed c' \<and> cBw c' = cBw c"
  using readLoop_handleClose[OF assms(1,3-5)] assms(2,3)
  by (simp add: handleClose_def writeClose_def setCloseErr_def closeConn_def Let_def)

lemma writeClose_ok:
  assumes "connOK c" and "canWrite 1 c" and "bytesErr \<lparr>Code = code, Reason = reason\<rparr> = Inr p" and "code \<noteq> StatusNoStatusRcvd"
  shows "\<exists>c'. writeClose code reason c = (None, c') \<and> \<not> cClosed c' \<and> cWroteClose c' \<and> cIn c' = cIn c \<and> cClient c' = cClient c
     \<and> mrPayloadLength c' = mrPayloadLength c \<and> cReadCloseFrameErr c' = cReadCloseFrameErr c
     \<and> bwSent (cBw c') = bwContent (cBw c) @ frameBytes (cClient c) True opClose p (if cClient c then List.hd (cRand c) else 0)"
proof -
  let ?c = "c\<lparr>cWroteClose := True\<rparr>" and ?k = "if cClient c then List.hd (cRand c) else 0"
  have "canWrite (Suc 0) ?c" using assms(2) by (simp add: canWrite_def)
  from nextKey_eq[OF this] have k: "nextKey ?c = Some (?k, ?c\<lparr>cRand := dropKeys 1 c\<rparr>)" by (simp add: dropKeys_def)
  have "connOK ?c \<or> (opClose = opClose \<and> \<not> cClosed ?c \<and> bwGood (cBw ?c))" using assms(1) by (simp add: connOK_def)
  from writeFrame_ok[OF this k, of True p] obtain w where
    w: "writeFrame True opClose p ?c = (None, ?c\<lparr>cRand := dropKeys 1 c, cBw := w\<rparr>)"
    "bwContent w = bwContent (cBw c) @ frameBytes (cClient c) True opClose p ?k" "bwBuf w = []" by auto
  have "bytes_close \<lparr>Code = code, Reason = reason\<rparr> = (p, None)" using assms(3) by (simp add: bytes_close_def)
  with w assms(1,4) show ?thesis
    by (simp add: writeClose_def writeControl_def connOK_def errdWrap_def setCloseErr_def bwContent_def)
qed

text \<open>
  C32: The closing handshake: whatever is unread of the current frame and whatever data frames the peer still sends are skipped,
  and when its close frame comes \<open>Close\<close> succeeds: exactly one close frame with the asked code and reason has gone out, and
  the connection is closed.
\<close>

theorem Close_handshake:
  assumes "connOK c" and "canWrite 1 c" and "bytesErr \<lparr>Code = code, Reason = reason\<rparr> = Inr p" and "code \<noteq> StatusNoStatusRcvd"
    and "cReadCloseFrameErr c = None" and "length u = mrPayloadLength c" and "list_all dataFrame fs"
    and "parseClosePayload b = Inr ce" and "length b \<le> 125"
    and "cIn c = u @ framesBytes (cClient c) fs @ peerFrame (cClient c) True opClose b k @ rest"
  shows "\<exists>c'. Close_conn code reason c = (None, c') \<and> cClosed c'
     \<and> bwSent (cBw c') = bwContent (cBw c) @ frameBytes (cClient c) True opClose p (if cClient c then List.hd (cRand c) else 0)"
proof -
  from writeClose_ok[OF assms(1-4)] obtain c1 where
    c1: "writeClose code reason c = (None, c1)" "\<not> cClosed c1" "cWroteClose c1" "cIn c1 = cIn c" "cClient c1 = cClient c"
      "mrPayloadLength c1 = mrPayloadLength c" "cReadCloseFrameErr c1 = cReadCloseFrameErr c"
      "bwSent (cBw c1) = bwContent (cBw c) @ frameBytes (cClient c) True opClose p (if cClient c then List.hd (cRand c) else 0)" by blast
  let ?fin = "peerFrame (cClient c) True opClose b k @ rest" and ?c2 = "c1\<lparr>cIn := peerFrame (cClient c) True opClose b k @ rest\<rparr>"
  from readLoop_close[of ?c2 b ce k rest] c1 assms(8,9) obtain c3 where
    c3: "readLoop ?c2 = (Inl (gotClose ce), c3)" "cClosed c3" "cBw c3 = cBw c1" by auto
  have "skipData (c1\<lparr>cIn := drop (length u) (cIn c)\<rparr>) = skipData ?c2"
    using skipData_frames[of "c1\<lparr>cIn := framesBytes (cClient c) fs @ ?fin\<rparr>" fs ?fin] c1 assms(7,10) by simp
  moreover have "skipData ?c2 = (gotClose ce, c3)" using c3(1) by (subst skipData.simps) simp
  ultimately have "waitCloseHandshake c1 = (gotClose ce, closeConn None c3)"
    using c1(2,4,6,7) assms(5,6,10) by (simp add: waitCloseHandshake_def)
  moreover have "closeConn None c3 = c3" using c3(2) by (simp add: closeConn_def)
  moreover have "CloseStatus (Some (gotClose ce)) \<noteq> -1" using gotClose_status[OF assms(8)] .
  ultimately have "Close_conn code reason c = (None, c3)" using c1(1) by (simp add: Close_conn_def errdWrap_def)
  with c3(2,3) c1(8) show ?thesis by simp
qed

lemma example_close: "bytesErr \<lparr>Code = 1000, Reason = []\<rparr> = Inr [3, 232]"
proof -
  have "le_put (Suc (Suc 0)) (1000 :: 16 word) = [232, 3]" by simp
  then have "be_put 2 (1000 :: 16 word) = [3, 232]" unfolding be_put_def numeral_2_eq_2 by simp
  then show ?thesis by (simp add: bytesErr_def maxCloseReason_def maxControlPayload_def validWireCloseCode_def status_defs)
qed

theorem Close_handshake_witness:
  "\<exists>c'. Close_conn 1000 [] (exampleConn (framesBytes True [(True, opText, [5], 0)] @ peerFrame True True opClose [] 0 @ [])) = (None, c')
     \<and> cClosed c' \<and> bwSent (cBw c') = frameBytes True True opClose [3, 232] 1"
proof -
  let ?c = "exampleConn (framesBytes True [(True, opText, [5], 0)] @ peerFrame True True opClose [] 0 @ [])"
  have "connOK ?c" using exampleConn_idle by (simp add: idle_def)
  from Close_handshake[OF this _ example_close, of "[]" "[(True, opText, [5], 0)]" "[]" "\<lparr>Code = 1005, Reason = []\<rparr>" 0 "[]"]
  show ?thesis
    by (simp add: exampleConn_def newConn_def canWrite_def dataFrame_def parseClosePayload_def status_defs emptyBw_def bwContent_def)
qed

text \<open>
  A ping of the peer during the closing handshake makes \<open>Close\<close> fail: after the close frame no pong may be written, the write
  waits for its deadline, and the handshake ends with that error though the peer answers in order.
\<close>

theorem Close_fails_on_ping:
  assumes "connOK c" and "canWrite 1 c" and "bytesErr \<lparr>Code = code, Reason = reason\<rparr> = Inr p" and "code \<noteq> StatusNoStatusRcvd"
    and "cReadCloseFrameErr c = None" and "mrPayloadLength c = 0" and "length b \<le> 125"
    and "cIn c = peerFrame (cClient c) True opPing b k @ rest"
  shows "\<exists>e c'. Close_conn code reason c = (Some e, c') \<and> errIs e ''context.DeadlineExceeded'' \<and> cClosed c'"
proof -
  from writeClose_ok[OF assms(1-4)] obtain c1 where
    c1: "writeClose code reason c = (None, c1)" "\<not> cClosed c1" "cWroteClose c1" "cIn c1 = cIn c" "cClient c1 = cClient c"
      "mrPayloadLength c1 = mrPayloadLength c" "cReadCloseFrameErr c1 = cReadCloseFrameErr c" by blast
  let ?h = "frameHeader (\<not> cClient c1) True opPing (length b) (peerKey c1 k)"
  let ?b0 = "if cClient c1 then b else fst (mask_frame k b)"
  have hd: "readFrameHeader_conn c1 = (Inr ?h, c1\<lparr>cIn := ?b0 @ rest\<rparr>)"
    using readFrameHeader_peer[of c1 opPing b True k rest] c1 assms(7,8) by (auto simp: peerFrame_def opcode_defs)
  have len: "length b = length ?b0" by simp
  have rd: "readFramePayload (length b) (c1\<lparr>cIn := ?b0 @ rest\<rparr>) = (Inr ?b0, c1\<lparr>cIn := rest\<rparr>)"
    using c1(2) ReadFull_append[OF len, of rest] by (simp add: readFramePayload_def)
  have "\<exists>e c2. handlePing b' (c1\<lparr>cIn := rest\<rparr>) = (Some e, c2) \<and> e = Wrapped ''failed to write control frame'' DeadlineExceeded" for b'
    using c1(2,3) by (simp add: handlePing_def addEvent_def writeControl_def writeFrame_def errdWrap_def opcode_defs)
  then obtain c2 where hc: "handleControl ?h (c1\<lparr>cIn := ?b0 @ rest\<rparr>) = (Some (Wrapped ''failed to write control frame'' DeadlineExceeded), c2)"
    using assms(7) rd by (auto simp: handleControl_def frameHeader_def maxControlPayload_def opcode_defs Let_def)
  define e where "e = Wrapped (''failed to handle control frame '' @ opcodeString opPing) (Wrapped ''failed to write control frame'' DeadlineExceeded)"
  have "readLoop c1 = (Inl e, c2)" using hd hc by (subst readLoop.simps) (auto simp: frameHeader_def opcode_defs e_def)
  then have "skipData c1 = (e, c2)" by (subst skipData.simps) simp
  then have w: "waitCloseHandshake c1 = (e, closeConn None c2)" using c1(2,6,7) assms(5,6) by (simp add: waitCloseHandshake_def)
  have e: "CloseStatus (Some e) = -1" "e \<noteq> ErrNetClosed" "errIs e ''context.DeadlineExceeded''"
    by (simp_all add: e_def DeadlineExceeded_def ErrNetClosed_def CloseStatus_def)
  with w c1(1) have "Close_conn code reason c = (Some (Wrapped ''failed to close WebSocket'' e), closeConn None c2)"
    by (simp add: Close_conn_def errdWrap_def)
  with e(3) show ?thesis by (simp add: closeConn_def)
qed

theorem Close_fails_on_ping_witness:
  "\<exists>e c'. Close_conn 1000 [] (exampleConn (peerFrame True True opPing [9] 0 @ [])) = (Some e, c')
     \<and> errIs e ''context.DeadlineExceeded'' \<and> cClosed c'"
proof -
  have "connOK (exampleConn (peerFrame True True opPing [9] 0 @ []))" using exampleConn_idle by (simp add: idle_def)
  from Close_fails_on_ping[OF this _ example_close, of "[9]" 0 "[]"] show ?thesis
    by (simp add: exampleConn_def newConn_def canWrite_def status_defs)
qed

subsection \<open>The loop of a read\<close>

text \<open>\<open>io.ReadAll\<close> with a bound on the number of its reads.\<close>

fun readAllN :: "nat \<Rightarrow> (nat \<Rightarrow> nat) \<Rightarrow> bytes \<Rightarrow> conn \<Rightarrow> ((gerr + bytes) \<times> conn) option" where
  "readAllN 0 sz acc c = None"
| "readAllN (Suc k) sz acc c =
     (case mrRead (Suc (sz (length acc))) c of
        (Inr b, c1) \<Rightarrow> readAllN k sz (acc @ b) c1
      | (Inl e, c1) \<Rightarrow> Some (if e = EOF then Inr acc else Inl e, c1))"

lemma readAllN_enough: "length (cIn c) < k \<Longrightarrow> readAllN k sz acc c = Some (readAll sz acc c)"
proof (induction k sz acc c rule: readAllN.induct)
  case (2 k sz acc c)
  obtain x c1 where m: "mrRead (Suc (sz (length acc))) c = (x, c1)" by (cases "mrRead (Suc (sz (length acc))) c")
  show ?case
  proof (cases x)
    case (Inr b)
    with m mrRead_shorter[of "Suc (sz (length acc))" c b c1] 2(2) have "length (cIn c1) < k" by simp
    with 2(1)[OF m[symmetric] Inr] m Inr show ?thesis by (simp add: readAll.simps[of sz acc c])
  next
    case (Inl e)
    with m show ?thesis by (simp add: readAll.simps[of sz acc c])
  qed
qed simp

text \<open>
  C33: Reading a message ends whatever the peer sends: every read of the loop that yields no error takes at least one byte off the
  stream, so that one read more than there are bytes is enough, for valid and invalid streams alike.
\<close>

theorem Read_terminates: "readAllN (Suc (length (cIn c))) sz acc c = Some (readAll sz acc c)"
  by (rule readAllN_enough) simp

end
