(* ===== verification/Compress.thy ===== *)
theory Compress
  imports GoBufio
begin

text \<open>
  \<open>internal/nhooyr.io/websocket/compress.go\<close>: the compression modes and options, the writer that holds back the last four
  bytes of a deflate stream, and the sliding window of the last bytes of a direction, with the uses of the options in
  \<open>conn.go\<close>, \<open>read.go\<close> and \<open>write.go\<close>. \<open>compress/flate\<close> itself is an argument of the theory that
  uses these parts, and the pools of its readers and writers hand out what is always reset before use.
\<close>

datatype compressionMode = CompressionDisabled | CompressionContextTakeover | CompressionNoContextTakeover

record compressionOptions =
  clientNoContextTakeover :: bool
  serverNoContextTakeover :: bool

definition modeOpts :: "compressionMode \<Rightarrow> compressionOptions" where
  "modeOpts m = \<lparr>clientNoContextTakeover = (m = CompressionNoContextTakeover),
                 serverNoContextTakeover = (m = CompressionNoContextTakeover)\<rparr>"

definition compressionOptions_String :: "compressionOptions \<Rightarrow> string" where
  "compressionOptions_String c =
     ''permessage-deflate'' @ (if clientNoContextTakeover c then ''; client_no_context_takeover'' else '''')
       @ (if serverNoContextTakeover c then ''; server_no_context_takeover'' else '''')"

text \<open>Whether a direction keeps its window from one message to the next, for the reader and for the writer of an end.\<close>

definition readerTakeover :: "bool \<Rightarrow> compressionOptions \<Rightarrow> bool" where
  "readerTakeover client c = (if client then \<not> serverNoContextTakeover c else \<not> clientNoContextTakeover c)"

definition writerTakeover :: "bool \<Rightarrow> compressionOptions \<Rightarrow> bool" where
  "writerTakeover client c = (if client then \<not> clientNoContextTakeover c else \<not> serverNoContextTakeover c)"

definition flateThreshold :: "bool \<Rightarrow> compressionOptions option \<Rightarrow> int \<Rightarrow> int" where
  "flateThreshold client copts n =
     (case copts of
        None \<Rightarrow> n
      | Some c \<Rightarrow> if n = 0 then (if writerTakeover client c then 128 else 512) else n)"

subsection \<open>The last four bytes\<close>

text \<open>The state of \<open>trimLastFourBytesWriter\<close> is its tail and the writer below. A nil tail is an empty one.\<close>

definition trimReset :: "bytes \<times> 'w \<Rightarrow> bytes \<times> 'w" where "trimReset s = ([], snd s)"

fun trimWrite :: "'w writer \<Rightarrow> bytes \<Rightarrow> bytes \<times> 'w \<Rightarrow> gerr option \<times> bytes \<times> 'w" where
  "trimWrite wr p (tail, w) =
     (let extra = int (length tail) + int (length p) - 4
      in if extra \<le> 0 then (None, tail @ p, w)
         else (let e = (if extra > int (length tail) then length tail else nat extra)
               in case (if e > 0 then wr (take e tail) w else (None, w)) of
                    (Some err, w1) \<Rightarrow> (Some err, tail, w1)
                  | (None, w1) \<Rightarrow>
                      (let tail1 = drop e tail
                       in if length p \<le> 4 then (None, tail1 @ p, w1)
                          else (case wr (take (length p - 4) p) w1 of
                                  (err, w2) \<Rightarrow> (err, tail1 @ drop (length p - 4) p, w2)))))"

fun trimWrites :: "'w writer \<Rightarrow> bytes list \<Rightarrow> bytes \<times> 'w \<Rightarrow> gerr option \<times> bytes \<times> 'w" where
  "trimWrites wr [] s = (None, s)"
| "trimWrites wr (p # ps) s = (case trimWrite wr p s of (Some e, s1) \<Rightarrow> (Some e, s1) | (None, s1) \<Rightarrow> trimWrites wr ps s1)"

subsection \<open>The sliding window\<close>

text \<open>The buffer of the window, \<open>None\<close> for nil, and its capacity.\<close>

record slidingWindow =
  swBuf :: "bytes option"
  swCap :: nat

text \<open>The pool of the size may have a window that was closed; it has an empty buffer of that capacity.\<close>

definition swInit :: "nat \<Rightarrow> slidingWindow option \<Rightarrow> slidingWindow \<Rightarrow> slidingWindow" where
  "swInit n pooled sw =
     (case swBuf sw of
        Some _ \<Rightarrow> sw
      | None \<Rightarrow> (case pooled of Some sw2 \<Rightarrow> sw2 | None \<Rightarrow> \<lparr>swBuf = Some [], swCap = (if n = 0 then 32768 else n)\<rparr>))"

definition swClose :: "slidingWindow \<Rightarrow> slidingWindow" where "swClose sw = sw\<lparr>swBuf := Some []\<rparr>"

definition swWrite :: "bytes \<Rightarrow> slidingWindow \<Rightarrow> slidingWindow" where
  "swWrite p sw =
     (let buf = (case swBuf sw of None \<Rightarrow> [] | Some b \<Rightarrow> b)
      in if length p \<ge> swCap sw then sw\<lparr>swBuf := Some (drop (length p - swCap sw) p)\<rparr>
         else (let left = swCap sw - length buf;
                   buf1 = (if left < length p then drop (length p - left) buf else buf)
               in sw\<lparr>swBuf := Some (buf1 @ p)\<rparr>))"

subsection \<open>Lemmas\<close>

text \<open>The bytes kept: the last \<open>n\<close> of a list.\<close>

definition lastBytes :: "nat \<Rightarrow> 'a list \<Rightarrow> 'a list" where "lastBytes n xs = drop (length xs - n) xs"

lemma lastBytes_all: "length xs \<le> n \<Longrightarrow> lastBytes n xs = xs"
  by (simp add: lastBytes_def)

lemma length_lastBytes [simp]: "length (lastBytes n xs) = min n (length xs)"
  by (auto simp: lastBytes_def)

lemma lastBytes_append: "lastBytes n (lastBytes n xs @ ys) = lastBytes n (xs @ ys)"
  by (cases "length ys \<le> n"; cases "length xs \<le> n") (auto simp: lastBytes_def add.commute Nat.diff_diff_right intro!: arg_cong2[of _ _ _ _ drop])

text \<open>
  The trimming writer on a writer of pieces: \<open>P w qs\<close> says that \<open>w\<close> has taken the pieces \<open>qs\<close>, and \<open>w\<close> takes up to \<open>N\<close> of them. What has
  gone below and the tail are together the stream so far, of which the tail is the last four bytes.
\<close>

lemma trimWrite_steps:
  assumes step: "\<And>w qs q. P w qs \<Longrightarrow> length qs < N \<Longrightarrow> \<exists>w'. wr q w = (None, w') \<and> P w' (qs @ [q])"
    and "P w qs" "length tail \<le> 4" "length qs + 2 \<le> N"
  shows "\<exists>w' qs'. trimWrite wr p (tail, w) = (None, lastBytes 4 (tail @ p), w') \<and> P w' (qs @ qs')
    \<and> concat qs' @ lastBytes 4 (tail @ p) = tail @ p \<and> length qs' \<le> 2"
proof (cases "length tail + length p \<le> 4")
  case True
  then have "trimWrite wr p (tail, w) = (None, lastBytes 4 (tail @ p), w)" by (auto simp: Let_def lastBytes_all)
  with True assms(2) show ?thesis by (intro exI[of _ w] exI[of _ "[]"]) (simp add: lastBytes_all)
next
  case False
  define e where "e = min (length tail) (length tail + length p - 4)"
  have e: "(if int (length tail) + int (length p) - 4 > int (length tail) then length tail else nat (int (length tail) + int (length p) - 4)) = e"
    by (auto simp: e_def)
  have "\<not> int (length tail) + int (length p) - 4 \<le> 0" using False by simp
  then have s: "trimWrite wr p (tail, w) = (case (if e > 0 then wr (take e tail) w else (None, w)) of
      (Some err, w1) \<Rightarrow> (Some err, tail, w1)
    | (None, w1) \<Rightarrow> if length p \<le> 4 then (None, drop e tail @ p, w1)
        else (case wr (take (length p - 4) p) w1 of (err, w2) \<Rightarrow> (err, drop e tail @ drop (length p - 4) p, w2)))"
    unfolding trimWrite.simps Let_def e by (simp only: if_False)
  obtain w1 q1 where w1: "(if e > 0 then wr (take e tail) w else (None, w)) = (None, w1)" "P w1 (qs @ q1)" "concat q1 = take e tail" "length q1 \<le> 1"
    using step[OF assms(2), of "take e tail"] assms(2,4) that[of _ "[]"] that[of _ "[take e tail]"] by (cases "e > 0") auto
  show ?thesis
  proof (cases "length p \<le> 4")
    case True
    have t: "lastBytes 4 (tail @ p) = drop e tail @ p" using False True by (auto simp: lastBytes_def e_def)
    with True s w1(1) have "trimWrite wr p (tail, w) = (None, lastBytes 4 (tail @ p), w1)" by simp
    moreover have "concat q1 @ lastBytes 4 (tail @ p) = tail @ p" using t w1(3) by simp
    ultimately show ?thesis using w1(2,4) by (meson le_trans one_le_numeral)
  next
    case big: False
    have l: "length (qs @ q1) < N" using w1(4) assms(4) by simp
    from step[OF w1(2) this, of "take (length p - 4) p"] obtain w2 where
      w2: "wr (take (length p - 4) p) w1 = (None, w2)" "P w2 (qs @ q1 @ [take (length p - 4) p])" by auto
    have "e = length tail" using big by (auto simp: e_def)
    moreover have t: "lastBytes 4 (tail @ p) = drop (length p - 4) p" using big by (simp add: lastBytes_def)
    ultimately have "trimWrite wr p (tail, w) = (None, lastBytes 4 (tail @ p), w2)" using big s w1(1) w2(1) by simp
    moreover have "concat (q1 @ [take (length p - 4) p]) @ lastBytes 4 (tail @ p) = tail @ p" using t w1(3) \<open>e = length tail\<close> by simp
    moreover have "length (q1 @ [take (length p - 4) p]) \<le> 2" using w1(4) by simp
    ultimately show ?thesis using w2(2) by blast
  qed
qed

lemma trimWrites_steps:
  assumes step: "\<And>w qs q. P w qs \<Longrightarrow> length qs < N \<Longrightarrow> \<exists>w'. wr q w = (None, w') \<and> P w' (qs @ [q])"
    and "P w qs" "length tail \<le> 4" "length qs + 2 * length ps \<le> N"
  shows "\<exists>w' qs'. trimWrites wr ps (tail, w) = (None, lastBytes 4 (tail @ concat ps), w') \<and> P w' (qs @ qs')
    \<and> concat qs' @ lastBytes 4 (tail @ concat ps) = tail @ concat ps \<and> length qs' \<le> 2 * length ps"
  using assms(2-)
proof (induction ps arbitrary: tail w qs)
  case Nil
  then show ?case by (intro exI[of _ w] exI[of _ "[]"]) (simp add: lastBytes_all)
next
  case (Cons p ps)
  have "length qs + 2 \<le> N" using Cons.prems(3) by simp
  from trimWrite_steps[where P = P and N = N and wr = wr and p = p, OF step Cons.prems(1,2) this] obtain w1 q1 where
    t: "trimWrite wr p (tail, w) = (None, lastBytes 4 (tail @ p), w1)" "P w1 (qs @ q1)" "concat q1 @ lastBytes 4 (tail @ p) = tail @ p" "length q1 \<le> 2"
    by blast
  have l: "length (lastBytes 4 (tail @ p)) \<le> 4" "length (qs @ q1) + 2 * length ps \<le> N" using t(4) Cons.prems(3) by auto
  have app: "lastBytes 4 (lastBytes 4 (tail @ p) @ concat ps) = lastBytes 4 (tail @ concat (p # ps))"
    using lastBytes_append[of 4 "tail @ p" "concat ps"] by simp
  from Cons.IH[OF t(2) l] obtain w' q2 where
    w': "trimWrites wr ps (lastBytes 4 (tail @ p), w1) = (None, lastBytes 4 (tail @ concat (p # ps)), w')" "P w' (qs @ q1 @ q2)"
      "concat q2 @ lastBytes 4 (tail @ concat (p # ps)) = lastBytes 4 (tail @ p) @ concat ps" "length q2 \<le> 2 * length ps" unfolding app by auto
  have "concat (q1 @ q2) @ lastBytes 4 (tail @ concat (p # ps)) = tail @ concat (p # ps)"
    using w'(3) arg_cong[OF t(3), of "\<lambda>x. x @ concat ps"] by simp
  moreover have "length (q1 @ q2) \<le> 2 * length (p # ps)" using t(4) w'(4) by simp
  ultimately show ?case using t(1) w'(1,2) by (intro exI[of _ w'] exI[of _ "q1 @ q2"]) simp
qed

context byte_sink
begin

lemma trimWrites_sink:
  assumes "good w" and "length tail \<le> 4"
  shows "\<exists>w'. trimWrites wr ps (tail, w) = (None, lastBytes 4 (tail @ concat ps), w') \<and> good w'
           \<and> content w' @ lastBytes 4 (tail @ concat ps) = content w @ tail @ concat ps"
proof -
  let ?P = "\<lambda>w' qs. good w' \<and> content w' = content w @ concat qs"
  have step: "\<exists>w'. wr q v = (None, w') \<and> ?P w' (qs @ [q])" if "?P v qs" for v qs q
    using write_good[of v q] that by auto
  have "?P w []" using assms(1) by simp
  from trimWrites_steps[where P = ?P and qs = "[]" and wr = wr and N = "2 * length ps" and ps = ps, OF step this assms(2)] show ?thesis
    by auto
qed

end

subsection \<open>Properties\<close>

text \<open>
  The trimming writer passes a stream on less its last four bytes, whatever the sizes of the writes: from a reset, with a
  buffered writer below that works, all writes succeed, what has gone below followed by the tail is the stream, and the tail is
  its last four bytes.
\<close>

theorem trimWrites_spec:
  assumes "bwGood w"
  shows "\<exists>w'. trimWrites bufWrite ps (trimReset (t0, w)) = (None, lastBytes 4 (concat ps), w') \<and> bwGood w'
           \<and> bwContent w' @ lastBytes 4 (concat ps) = bwContent w @ concat ps"
  using bufsink.trimWrites_sink[OF assms, of "[]" ps] by (simp add: trimReset_def)

theorem trimWrites_spec_witness:
  "\<exists>w'. trimWrites bufWrite [[1, 2], [3, 4, 5, 6, 7], [8]] (trimReset ([9], \<lparr>bwRoom = 7, bwBuf = [], bwSent = [], bwErr = None, bwDown = None\<rparr>))
     = (None, [5, 6, 7, 8], w') \<and> bwContent w' @ [5, 6, 7, 8] = [1, 2, 3, 4, 5, 6, 7, 8]"
  using trimWrites_spec[of "\<lparr>bwRoom = 7, bwBuf = [], bwSent = [], bwErr = None, bwDown = None\<rparr>" "[[1, 2], [3, 4, 5, 6, 7], [8]]" "[9]"]
  by (auto simp: bwGood_def bwContent_def lastBytes_def simp del: trimWrites.simps)

lemma swWrite_window: "swWrite p \<lparr>swBuf = Some (lastBytes k xs), swCap = k\<rparr> = \<lparr>swBuf = Some (lastBytes k (xs @ p)), swCap = k\<rparr>"
proof (cases "k \<le> length p")
  case True
  then show ?thesis by (simp add: swWrite_def lastBytes_def)
next
  case False
  then show ?thesis by (auto simp: swWrite_def Let_def lastBytes_def min_def intro!: arg_cong2[of _ _ _ _ drop])
qed

text \<open>
  The sliding window holds the last bytes of everything written, as many as its capacity: a new window, or one from
  the pool that was closed, after any sequence of writes.
\<close>

theorem slidingWindow_spec:
  assumes "swBuf sw = None" and "pooled = None \<or> pooled = Some (swClose \<lparr>swBuf = b, swCap = (if n = 0 then 32768 else n)\<rparr>)"
  shows "swBuf (fold swWrite ps (swInit n pooled sw)) = Some (lastBytes (if n = 0 then 32768 else n) (concat ps))"
proof -
  let ?n = "if n = 0 then 32768 else n"
  have "fold swWrite ps \<lparr>swBuf = Some (lastBytes k xs), swCap = k\<rparr> = \<lparr>swBuf = Some (lastBytes k (xs @ concat ps)), swCap = k\<rparr>" for k xs
    by (induction ps arbitrary: xs) (simp_all add: swWrite_window)
  from this[of ?n "[]"] assms show ?thesis by (auto simp: swInit_def swClose_def lastBytes_def)
qed

theorem slidingWindow_spec_witness:
  "swBuf (fold swWrite [[1, 2], [3, 4]] (swInit 3 None \<lparr>swBuf = None, swCap = 0\<rparr>)) = Some [2, 3, 4]"
  using slidingWindow_spec[of "\<lparr>swBuf = None, swCap = 0\<rparr>" None None 3 "[[1, 2], [3, 4]]"] by (simp add: lastBytes_def)

text \<open>Both ends agree on which direction keeps its window: what one end writes with, the other reads with.\<close>

lemma takeover_agrees: "writerTakeover client c = readerTakeover (\<not> client) c"
  by (simp add: writerTakeover_def readerTakeover_def)

end
