(* ===== verification/Handshake.thy ===== *)
theory Handshake
  imports HttpHeader Compress
begin

text \<open>
  \<open>internal/nhooyr.io/websocket/dial.go\<close> and \<open>accept.go\<close>: both sides of the opening handshake and the negotiation of the
  subprotocol and of compression. The HTTP client, URL parsing, \<open>filepath.Match\<close>, SHA-1 and base64 are arguments. Header values
  are ASCII text. The body kept for debugging when \<open>Dial\<close> fails and the headers that \<open>http.Error\<close> adds are left out.
\<close>

record url =
  uScheme :: string
  uHost :: string
  uRest :: string

record httpRequest =
  rqMethod :: string
  rqURL :: url
  rqHost :: string
  rqHeader :: httpHeader
  rqProto :: "nat \<times> nat"

record httpResponse =
  rsStatus :: int
  rsHeader :: httpHeader
  rsWritable :: bool

record httpClient =
  hcTimeout :: duration
  hcCheckRedirect :: "(httpRequest \<Rightarrow> httpRequest list \<Rightarrow> gerr option \<times> httpRequest) option"

record wsHttp =
  lParseURL :: "string \<Rightarrow> gerr + url"
  lNewRequest :: "url \<Rightarrow> gerr + httpRequest"
  lDo :: "httpClient \<Rightarrow> httpRequest \<Rightarrow> gerr + httpResponse"
  lMatch :: "string \<Rightarrow> string \<Rightarrow> gerr + bool"
  lSha1 :: "bytes \<Rightarrow> bytes"
  lBase64 :: "bytes \<Rightarrow> string"
  lUnBase64 :: "string \<Rightarrow> bytes option"

definition ErrBadPattern :: gerr where "ErrBadPattern = Sentinel ''filepath.ErrBadPattern''"

text \<open>What the two ends hand to \<open>newConn\<close>, less the streams.\<close>

record connConfig =
  cfSubprotocol :: string
  cfClient :: bool
  cfCopts :: "compressionOptions option"
  cfThreshold :: int

subsection \<open>Keys, tokens and extensions\<close>

definition keyGUID :: string where "keyGUID = ''258EAFA5-E914-47DA-95CA-C5AB0DC85B11''"

definition secWebSocketAccept :: "wsHttp \<Rightarrow> string \<Rightarrow> string" where
  "secWebSocketAccept lib key = lBase64 lib (lSha1 lib (bytes_of key @ bytes_of keyGUID))"

text \<open>The random bytes of the key are the front of \<open>rnd\<close>.\<close>

definition secWebSocketKey :: "wsHttp \<Rightarrow> bytes \<Rightarrow> gerr + string" where
  "secWebSocketKey lib rnd =
     (case ReadFull 16 rnd of
        Inl e \<Rightarrow> Inl (Wrapped ''failed to read random data from rand.Reader'' e)
      | Inr (b, _) \<Rightarrow> Inr (lBase64 lib b))"

record websocketExtension =
  extName :: string
  extParams :: "string list"

definition websocketExtensions :: "httpHeader \<Rightarrow> websocketExtension list" where
  "websocketExtensions h =
     map (\<lambda>s. let vals = map TrimSpace (Split s CHR '';'') in \<lparr>extName = List.hd vals, extParams = tl vals\<rparr>)
       (filter (\<lambda>s. s \<noteq> []) (headerTokens h ''Sec-WebSocket-Extensions''))"

subsection \<open>The client\<close>

record dialOptions =
  doHTTPClient :: "httpClient option"
  doHTTPHeader :: "httpHeader option"
  doHost :: string
  doSubprotocols :: "string list"
  doCompressionMode :: compressionMode
  doCompressionThreshold :: int

definition zeroDialOptions :: dialOptions where
  "zeroDialOptions = \<lparr>doHTTPClient = None, doHTTPHeader = None, doHost = [], doSubprotocols = [],
     doCompressionMode = CompressionDisabled, doCompressionThreshold = 0\<rparr>"

definition httpScheme :: "url \<Rightarrow> url" where
  "httpScheme u =
     (if uScheme u = ''ws'' then u\<lparr>uScheme := ''http''\<rparr> else if uScheme u = ''wss'' then u\<lparr>uScheme := ''https''\<rparr> else u)"

definition redirectCheck ::
    "(httpRequest \<Rightarrow> httpRequest list \<Rightarrow> gerr option \<times> httpRequest) option \<Rightarrow> httpRequest \<Rightarrow> httpRequest list \<Rightarrow> gerr option \<times> httpRequest" where
  "redirectCheck old req via =
     (let req' = req\<lparr>rqURL := httpScheme (rqURL req)\<rparr> in case old of Some f \<Rightarrow> f req' via | None \<Rightarrow> (None, req'))"

text \<open>The timeout of the context, if there is one, and the options with their defaults.\<close>

definition dialDefaults :: "httpClient \<Rightarrow> dialOptions option \<Rightarrow> duration option \<times> httpClient \<times> dialOptions" where
  "dialDefaults DefaultClient opts =
     (let o0 = (case opts of None \<Rightarrow> zeroDialOptions | Some x \<Rightarrow> x);
          cl = (case doHTTPClient o0 of None \<Rightarrow> DefaultClient | Some c \<Rightarrow> c);
          tmo = (if hcTimeout cl > 0 then Some (hcTimeout cl) else None);
          cl1 = (if hcTimeout cl > 0 then cl\<lparr>hcTimeout := 0\<rparr> else cl);
          hdr = (case doHTTPHeader o0 of None \<Rightarrow> Map.empty | Some h \<Rightarrow> h);
          cl2 = cl1\<lparr>hcCheckRedirect := Some (redirectCheck (hcCheckRedirect cl1))\<rparr>
      in (tmo, cl2, o0\<lparr>doHTTPClient := Some cl2, doHTTPHeader := Some hdr\<rparr>))"

definition handshakeHeader :: "dialOptions \<Rightarrow> compressionOptions option \<Rightarrow> string \<Rightarrow> httpHeader" where
  "handshakeHeader opts copts key =
     (let h0 = (case doHTTPHeader opts of None \<Rightarrow> Map.empty | Some h \<Rightarrow> h);
          h1 = headerSet ''Sec-WebSocket-Key'' key (headerSet ''Sec-WebSocket-Version'' ''13''
                 (headerSet ''Upgrade'' ''websocket'' (headerSet ''Connection'' ''Upgrade'' h0)));
          h2 = (if doSubprotocols opts \<noteq> [] then headerSet ''Sec-WebSocket-Protocol'' (Join (doSubprotocols opts) '','') h1 else h1)
      in case copts of None \<Rightarrow> h2 | Some c \<Rightarrow> headerSet ''Sec-WebSocket-Extensions'' (compressionOptions_String c) h2)"

definition handshakeRequest ::
    "wsHttp \<Rightarrow> httpClient \<Rightarrow> string \<Rightarrow> dialOptions \<Rightarrow> compressionOptions option \<Rightarrow> string \<Rightarrow> gerr + httpResponse" where
  "handshakeRequest lib cl urls opts copts key =
     (case lParseURL lib urls of
        Inl e \<Rightarrow> Inl (Wrapped ''failed to parse url'' e)
      | Inr u \<Rightarrow>
          if uScheme u \<notin> set [''ws'', ''wss'', ''http'', ''https''] then Inl (Plain (''unexpected url scheme: '' @ uScheme u))
          else (case lNewRequest lib (httpScheme u) of
                  Inl e \<Rightarrow> Inl (Wrapped ''failed to create new http request'' e)
                | Inr req \<Rightarrow>
                    (let req' = req\<lparr>rqHost := (if doHost opts \<noteq> [] then doHost opts else rqHost req),
                                    rqHeader := handshakeHeader opts copts key\<rparr>
                     in case lDo lib cl req' of
                          Inl e \<Rightarrow> Inl (Wrapped ''failed to send handshake request'' e)
                        | Inr resp \<Rightarrow> Inr resp)))"

definition verifySubprotocol :: "string list \<Rightarrow> httpHeader \<Rightarrow> gerr option" where
  "verifySubprotocol subprotos h =
     (let proto = headerGet ''Sec-WebSocket-Protocol'' h
      in if proto = [] then None
         else if list_ex (\<lambda>sp. EqualFold sp proto) subprotos then None
         else Some (Plain (''WebSocket protocol violation: unexpected Sec-WebSocket-Protocol from server: '' @ proto)))"

fun serverParams :: "string list \<Rightarrow> compressionOptions \<Rightarrow> gerr + compressionOptions" where
  "serverParams [] c = Inr c"
| "serverParams (p # ps) c =
     (if p = ''client_no_context_takeover'' then serverParams ps (c\<lparr>clientNoContextTakeover := True\<rparr>)
      else if p = ''server_no_context_takeover'' then serverParams ps (c\<lparr>serverNoContextTakeover := True\<rparr>)
      else if HasPrefix p ''server_max_window_bits='' then serverParams ps c
      else Inl (Plain (''unsupported permessage-deflate parameter: '' @ p)))"

definition verifyServerExtensions :: "compressionOptions option \<Rightarrow> httpHeader \<Rightarrow> gerr + compressionOptions option" where
  "verifyServerExtensions copts h =
     (case websocketExtensions h of
        [] \<Rightarrow> Inr None
      | ext # exts \<Rightarrow>
          (case copts of
             Some c \<Rightarrow>
               if extName ext \<noteq> ''permessage-deflate'' \<or> exts \<noteq> []
               then Inl (Plain ''WebSocket protcol violation: unsupported extensions from server'')
               else (case serverParams (extParams ext) c of Inl e \<Rightarrow> Inl e | Inr c' \<Rightarrow> Inr (Some c'))
           | None \<Rightarrow> Inl (Plain ''WebSocket protcol violation: unsupported extensions from server'')))"

definition verifyServerResponse ::
    "wsHttp \<Rightarrow> dialOptions \<Rightarrow> compressionOptions option \<Rightarrow> string \<Rightarrow> httpResponse \<Rightarrow> gerr + compressionOptions option" where
  "verifyServerResponse lib opts copts key resp =
     (if rsStatus resp \<noteq> 101 then Inl (Plain (''expected handshake response status code 101 but got '' @ show_int (rsStatus resp)))
      else if \<not> headerContainsTokenIgnoreCase (rsHeader resp) ''Connection'' ''Upgrade''
      then Inl (Plain ''WebSocket protocol violation: Connection header does not contain Upgrade'')
      else if \<not> headerContainsTokenIgnoreCase (rsHeader resp) ''Upgrade'' ''WebSocket''
      then Inl (Plain ''WebSocket protocol violation: Upgrade header does not contain websocket'')
      else if headerGet ''Sec-WebSocket-Accept'' (rsHeader resp) \<noteq> secWebSocketAccept lib key
      then Inl (Plain ''WebSocket protocol violation: invalid Sec-WebSocket-Accept'')
      else case verifySubprotocol (doSubprotocols opts) (rsHeader resp) of
        Some e \<Rightarrow> Inl e
      | None \<Rightarrow> verifyServerExtensions copts (rsHeader resp))"

definition dialCopts :: "dialOptions \<Rightarrow> compressionOptions option" where
  "dialCopts opts =
     (if doCompressionMode opts = CompressionDisabled then None else Some (modeOpts (doCompressionMode opts)))"

definition dial :: "wsHttp \<Rightarrow> httpClient \<Rightarrow> bytes \<Rightarrow> string \<Rightarrow> dialOptions option \<Rightarrow> gerr + connConfig" where
  "dial lib DefaultClient rnd urls opts =
     (let fail = (\<lambda>e. Inl (Wrapped ''failed to WebSocket dial'' e))
      in case dialDefaults DefaultClient opts of
           (_, cl, o1) \<Rightarrow>
             (case secWebSocketKey lib rnd of
                Inl e \<Rightarrow> fail (Wrapped ''failed to generate Sec-WebSocket-Key'' e)
              | Inr key \<Rightarrow>
                  (case handshakeRequest lib cl urls o1 (dialCopts o1) key of
                     Inl e \<Rightarrow> fail e
                   | Inr resp \<Rightarrow>
                       (case verifyServerResponse lib o1 (dialCopts o1) key resp of
                          Inl e \<Rightarrow> fail e
                        | Inr copts \<Rightarrow>
                            if \<not> rsWritable resp then fail (Plain ''response body is not a io.ReadWriteCloser'')
                            else Inr \<lparr>cfSubprotocol = headerGet ''Sec-WebSocket-Protocol'' (rsHeader resp), cfClient = True, cfCopts = copts,
                                       cfThreshold = flateThreshold True copts (doCompressionThreshold o1)\<rparr>))))"

subsection \<open>The server\<close>

record acceptOptions =
  aoSubprotocols :: "string list"
  aoInsecureSkipVerify :: bool
  aoOriginPatterns :: "string list"
  aoCompressionMode :: compressionMode
  aoCompressionThreshold :: int

definition zeroAcceptOptions :: acceptOptions where
  "zeroAcceptOptions = \<lparr>aoSubprotocols = [], aoInsecureSkipVerify = False, aoOriginPatterns = [],
     aoCompressionMode = CompressionDisabled, aoCompressionThreshold = 0\<rparr>"

text \<open>The response writer: the status line that went out, the headers, and the error of \<open>http.Error\<close>. The first status counts.\<close>

record responseWriter =
  rwStatus :: "int option"
  rwHeader :: httpHeader
  rwBody :: "gerr option"

definition writeHeader :: "int \<Rightarrow> responseWriter \<Rightarrow> responseWriter" where
  "writeHeader code w = w\<lparr>rwStatus := (case rwStatus w of None \<Rightarrow> Some code | Some s \<Rightarrow> Some s)\<rparr>"

definition setHeader :: "string \<Rightarrow> string \<Rightarrow> responseWriter \<Rightarrow> responseWriter" where
  "setHeader k v w = w\<lparr>rwHeader := headerSet k v (rwHeader w)\<rparr>"

definition httpError :: "gerr \<Rightarrow> int \<Rightarrow> responseWriter \<Rightarrow> responseWriter" where
  "httpError e code w = (writeHeader code w)\<lparr>rwBody := Some e\<rparr>"

text \<open>The check of the request: the error with its status, and the headers that say what would have been right.\<close>

definition verifyClientRequest :: "wsHttp \<Rightarrow> httpRequest \<Rightarrow> responseWriter \<Rightarrow> (int \<times> gerr) option \<times> responseWriter" where
  "verifyClientRequest lib r w =
     (let upgrade = setHeader ''Upgrade'' ''websocket'' (setHeader ''Connection'' ''Upgrade'' w);
          keys = headerValues ''Sec-WebSocket-Key'' (rqHeader r)
      in if \<not> (fst (rqProto r) > 1 \<or> (fst (rqProto r) = 1 \<and> snd (rqProto r) \<ge> 1))
         then (Some (426, Plain ''WebSocket protocol violation: handshake request must be at least HTTP/1.1''), w)
         else if \<not> headerContainsTokenIgnoreCase (rqHeader r) ''Connection'' ''Upgrade''
         then (Some (426, Plain ''WebSocket protocol violation: Connection header does not contain Upgrade''), upgrade)
         else if \<not> headerContainsTokenIgnoreCase (rqHeader r) ''Upgrade'' ''websocket''
         then (Some (426, Plain ''WebSocket protocol violation: Upgrade header does not contain websocket''), upgrade)
         else if rqMethod r \<noteq> ''GET''
         then (Some (405, Plain ''WebSocket protocol violation: handshake request method is not GET''), w)
         else if headerGet ''Sec-WebSocket-Version'' (rqHeader r) \<noteq> ''13''
         then (Some (400, Plain ''unsupported WebSocket protocol version (only 13 is supported)''), setHeader ''Sec-WebSocket-Version'' ''13'' w)
         else (case keys of
                 [] \<Rightarrow> (Some (400, Plain ''WebSocket protocol violation: missing Sec-WebSocket-Key''), w)
               | k # ks \<Rightarrow>
                   if ks \<noteq> [] then (Some (400, Plain ''WebSocket protocol violation: multiple Sec-WebSocket-Key headers''), w)
                   else (case lUnBase64 lib (TrimSpace k) of
                           Some v \<Rightarrow>
                             if length v = 16 then (None, w)
                             else (Some (400, Plain ''WebSocket protocol violation: invalid Sec-WebSocket-Key''), w)
                         | None \<Rightarrow> (Some (400, Plain ''WebSocket protocol violation: invalid Sec-WebSocket-Key''), w))))"

fun matchOrigin :: "wsHttp \<Rightarrow> string list \<Rightarrow> string \<Rightarrow> gerr + bool" where
  "matchOrigin lib [] host = Inr False"
| "matchOrigin lib (p # ps) host =
     (case lMatch lib (ToLower p) (ToLower host) of
        Inl e \<Rightarrow> Inl (Wrapped ''failed to parse filepath pattern'' e)
      | Inr True \<Rightarrow> Inr True
      | Inr False \<Rightarrow> matchOrigin lib ps host)"

definition authenticateOrigin :: "wsHttp \<Rightarrow> httpRequest \<Rightarrow> string list \<Rightarrow> gerr option" where
  "authenticateOrigin lib r originHosts =
     (let origin = headerGet ''Origin'' (rqHeader r)
      in if origin = [] then None
         else (case lParseURL lib origin of
                 Inl e \<Rightarrow> Some (Wrapped ''failed to parse Origin header'' e)
               | Inr u \<Rightarrow>
                   if EqualFold (rqHost r) (uHost u) then None
                   else (case matchOrigin lib originHosts (uHost u) of
                           Inl e \<Rightarrow> Some e
                         | Inr True \<Rightarrow> None
                         | Inr False \<Rightarrow>
                             if uHost u = [] then Some (Plain ''request Origin is not a valid URL with a host'')
                             else Some (Plain ''request Origin is not authorized for Host''))))"

text \<open>The first subprotocol of the server that the client offers, in the spelling of the client.\<close>

definition selectSubprotocol :: "httpRequest \<Rightarrow> string list \<Rightarrow> string" where
  "selectSubprotocol r subprotocols =
     (let cps = headerTokens (rqHeader r) ''Sec-WebSocket-Protocol''
      in case List.concat (map (\<lambda>sp. filter (EqualFold sp) cps) subprotocols) of [] \<Rightarrow> [] | cp # _ \<Rightarrow> cp)"

fun clientParams :: "string list \<Rightarrow> compressionOptions \<Rightarrow> compressionOptions option" where
  "clientParams [] c = Some c"
| "clientParams (p # ps) c =
     (if p = ''client_no_context_takeover'' then clientParams ps (c\<lparr>clientNoContextTakeover := True\<rparr>)
      else if p = ''server_no_context_takeover'' then clientParams ps (c\<lparr>serverNoContextTakeover := True\<rparr>)
      else if p = ''client_max_window_bits'' \<or> p = ''server_max_window_bits=15'' then clientParams ps c
      else if HasPrefix p ''client_max_window_bits='' then clientParams ps c
      else None)"

definition acceptDeflate :: "websocketExtension \<Rightarrow> compressionMode \<Rightarrow> compressionOptions option" where
  "acceptDeflate ext mode = clientParams (extParams ext) (modeOpts mode)"

fun selectFirst :: "websocketExtension list \<Rightarrow> compressionMode \<Rightarrow> compressionOptions option" where
  "selectFirst [] mode = None"
| "selectFirst (ext # exts) mode =
     (if extName ext = ''permessage-deflate''
      then (case acceptDeflate ext mode of Some c \<Rightarrow> Some c | None \<Rightarrow> selectFirst exts mode)
      else selectFirst exts mode)"

definition selectDeflate :: "websocketExtension list \<Rightarrow> compressionMode \<Rightarrow> compressionOptions option" where
  "selectDeflate extensions mode = (if mode = CompressionDisabled then None else selectFirst extensions mode)"

text \<open>\<open>accept\<close>: whether the response writer can be hijacked, and the result of that, are arguments.\<close>

definition acceptHeaders :: "wsHttp \<Rightarrow> httpRequest \<Rightarrow> acceptOptions \<Rightarrow> responseWriter \<Rightarrow> responseWriter" where
  "acceptHeaders lib r opts w =
     (let w1 = setHeader ''Connection'' ''Upgrade'' (setHeader ''Upgrade'' ''websocket'' w);
          w2 = setHeader ''Sec-WebSocket-Accept'' (secWebSocketAccept lib (headerGet ''Sec-WebSocket-Key'' (rqHeader r))) w1;
          sp = selectSubprotocol r (aoSubprotocols opts);
          w3 = (if sp \<noteq> [] then setHeader ''Sec-WebSocket-Protocol'' sp w2 else w2)
      in case selectDeflate (websocketExtensions (rqHeader r)) (aoCompressionMode opts) of
           None \<Rightarrow> w3
         | Some c \<Rightarrow> setHeader ''Sec-WebSocket-Extensions'' (compressionOptions_String c) w3)"

definition accept ::
    "wsHttp \<Rightarrow> bool \<Rightarrow> gerr option \<Rightarrow> httpRequest \<Rightarrow> acceptOptions option \<Rightarrow> responseWriter \<Rightarrow> (gerr + connConfig) \<times> responseWriter" where
  "accept lib hijacker hijackErr r opts w =
     (let fail = (\<lambda>e. Inl (Wrapped ''failed to accept WebSocket connection'' e));
          o1 = (case opts of None \<Rightarrow> zeroAcceptOptions | Some x \<Rightarrow> x)
      in case verifyClientRequest lib r w of
           (Some (code, e), w1) \<Rightarrow> (fail e, httpError e code w1)
         | (None, w1) \<Rightarrow>
             (case (if aoInsecureSkipVerify o1 then None else authenticateOrigin lib r (aoOriginPatterns o1)) of
                Some e \<Rightarrow>
                  (let e' = (if errIs e ''filepath.ErrBadPattern'' then Plain ''Forbidden'' else e) in (fail e', httpError e' 403 w1))
              | None \<Rightarrow>
                  if \<not> hijacker
                  then (fail (Plain ''http.ResponseWriter does not implement http.Hijacker''), httpError (Plain ''Not Implemented'') 501 w1)
                  else (let w2 = writeHeader 101 (acceptHeaders lib r o1 w1);
                            copts = selectDeflate (websocketExtensions (rqHeader r)) (aoCompressionMode o1)
                        in case hijackErr of
                             Some e \<Rightarrow> (fail (Wrapped ''failed to hijack connection'' e), httpError (Plain ''Internal Server Error'') 500 w2)
                           | None \<Rightarrow>
                               (Inr \<lparr>cfSubprotocol = headerGet ''Sec-WebSocket-Protocol'' (rwHeader w2), cfClient = False, cfCopts = copts,
                                      cfThreshold = flateThreshold False copts (aoCompressionThreshold o1)\<rparr>, w2))))"

subsection \<open>Lemmas\<close>

lemma canonical_keys [simp]:
  "CanonicalHeaderKey ''Connection'' = ''Connection''" "CanonicalHeaderKey ''Upgrade'' = ''Upgrade''"
  "CanonicalHeaderKey ''Sec-WebSocket-Version'' = ''Sec-Websocket-Version''"
  "CanonicalHeaderKey ''Sec-WebSocket-Key'' = ''Sec-Websocket-Key''"
  "CanonicalHeaderKey ''Sec-WebSocket-Protocol'' = ''Sec-Websocket-Protocol''"
  "CanonicalHeaderKey ''Sec-WebSocket-Extensions'' = ''Sec-Websocket-Extensions''"
  "CanonicalHeaderKey ''Sec-WebSocket-Accept'' = ''Sec-Websocket-Accept''" "CanonicalHeaderKey ''Origin'' = ''Origin''"
  by code_simp+

lemma headerContains_token:
  assumes "headerValues key h = [v]" and "TrimSpace v = v" and "CHR '','' \<notin> set v" and "EqualFold v token"
  shows "headerContainsTokenIgnoreCase h key token"
  using assms by (simp add: headerContainsTokenIgnoreCase_def headerTokens_def Split_no_sep)

lemma upgrade_tokens:
  "TrimSpace ''Upgrade'' = ''Upgrade''" "TrimSpace ''websocket'' = ''websocket''" "TrimSpace ''13'' = ''13''"
  "EqualFold ''Upgrade'' ''Upgrade''" "EqualFold ''websocket'' ''WebSocket''" "EqualFold ''websocket'' ''websocket''"
  by code_simp+

text \<open>A token list that went through \<open>Join\<close> comes back.\<close>

definition isToken :: "string \<Rightarrow> bool" where
  "isToken s \<longleftrightarrow> s \<noteq> [] \<and> list_all (\<lambda>c. \<not> is_space c \<and> c \<noteq> CHR '','') s"

lemma TrimSpace_id: "s = [] \<or> (\<not> is_space (List.hd s) \<and> \<not> is_space (last s)) \<Longrightarrow> TrimSpace s = s"
proof (cases s rule: rev_cases)
  case (snoc xs x)
  assume "s = [] \<or> (\<not> is_space (List.hd s) \<and> \<not> is_space (last s))"
  with snoc have "\<not> is_space (List.hd s)" "\<not> is_space x" by auto
  then have "dropWhile is_space s = s" by (cases s) (auto simp: dropWhile_eq_self_iff)
  with snoc \<open>\<not> is_space x\<close> show ?thesis by (simp add: TrimSpace_def)
qed (simp add: TrimSpace_def)

lemma TrimSpace_token: "isToken s \<Longrightarrow> TrimSpace s = s"
  by (rule TrimSpace_id) (auto simp: isToken_def list_all_iff)

lemma TrimSpace_Join: "ts \<noteq> [] \<Longrightarrow> list_all isToken ts \<Longrightarrow> TrimSpace (Join ts '','') = Join ts '',''"
proof (rule TrimSpace_id, rule disjI2)
  assume ts: "ts \<noteq> []" "list_all isToken ts"
  then have "Join ts '','' \<noteq> [] \<and> List.hd (Join ts '','') = List.hd (List.hd ts) \<and> last (Join ts '','') = last (last ts)"
    by (induction ts "'',''" rule: Join.induct) (auto simp: isToken_def)
  moreover have "isToken (List.hd ts)" "isToken (last ts)" using ts by (simp_all add: list_all_iff)
  ultimately show "\<not> is_space (List.hd (Join ts '','')) \<and> \<not> is_space (last (Join ts '',''))"
    by (auto simp: isToken_def list_all_iff)
qed

lemma Split_Join: "ts \<noteq> [] \<Longrightarrow> list_all isToken ts \<Longrightarrow> Split (Join ts '','') CHR '','' = ts"
proof (induction ts "'',''" rule: Join.induct)
  case (2 s)
  then have "CHR '','' \<notin> set s" by (auto simp: isToken_def list_all_iff)
  then show ?case by (simp add: Split_no_sep)
next
  case (3 s t ss)
  then have "CHR '','' \<notin> set s" by (auto simp: isToken_def list_all_iff)
  with 3 show ?case by (simp add: Split_append_sep)
qed simp

lemma headerTokens_Join:
  assumes "headerValues key h = [Join ts '','']" and "ts \<noteq> []" and "list_all isToken ts"
  shows "headerTokens h key = ts"
proof -
  have "map TrimSpace ts = ts" using assms(3) TrimSpace_token by (auto simp: list_all_iff intro: map_idI)
  then show ?thesis using assms by (simp add: headerTokens_def TrimSpace_Join Split_Join)
qed

text \<open>The options that are printed are those that are parsed.\<close>

definition optionParams :: "compressionOptions \<Rightarrow> string list" where
  "optionParams c = (if clientNoContextTakeover c then [''client_no_context_takeover''] else [])
     @ (if serverNoContextTakeover c then [''server_no_context_takeover''] else [])"

lemma tokens_String:
  "map TrimSpace (Split (TrimSpace (compressionOptions_String \<lparr>clientNoContextTakeover = a, serverNoContextTakeover = b\<rparr>)) CHR '','')
   = [compressionOptions_String \<lparr>clientNoContextTakeover = a, serverNoContextTakeover = b\<rparr>]"
  by (induct a; induct b; code_simp)

lemma vals_String:
  "map TrimSpace (Split (compressionOptions_String \<lparr>clientNoContextTakeover = a, serverNoContextTakeover = b\<rparr>) CHR '';'')
   = ''permessage-deflate'' # optionParams \<lparr>clientNoContextTakeover = a, serverNoContextTakeover = b\<rparr>"
  by (induct a; induct b; code_simp)

lemma extensions_String:
  assumes "headerValues ''Sec-WebSocket-Extensions'' h = [compressionOptions_String c]"
  shows "websocketExtensions h = [\<lparr>extName = ''permessage-deflate'', extParams = optionParams c\<rparr>]"
proof -
  have "map TrimSpace (Split (TrimSpace (compressionOptions_String c)) CHR '','') = [compressionOptions_String c]"
    "map TrimSpace (Split (compressionOptions_String c) CHR '';'') = ''permessage-deflate'' # optionParams c"
    using tokens_String vals_String by (cases c; simp)+
  moreover have "compressionOptions_String c \<noteq> []" by (simp add: compressionOptions_String_def)
  ultimately show ?thesis using assms by (simp add: websocketExtensions_def headerTokens_def)
qed

lemma extensions_none: "headerValues ''Sec-WebSocket-Extensions'' h = [] \<Longrightarrow> websocketExtensions h = []"
  by (simp add: websocketExtensions_def headerTokens_def)

definition unionOpts :: "compressionOptions \<Rightarrow> compressionOptions \<Rightarrow> compressionOptions" where
  "unionOpts c d = \<lparr>clientNoContextTakeover = clientNoContextTakeover c \<or> clientNoContextTakeover d,
                    serverNoContextTakeover = serverNoContextTakeover c \<or> serverNoContextTakeover d\<rparr>"

lemma params_union: "clientParams (optionParams c) d = Some (unionOpts d c)" "serverParams (optionParams c) d = Inr (unionOpts d c)"
  by (auto simp: optionParams_def unionOpts_def)

text \<open>The headers of the application leave the negotiation alone.\<close>

definition plainHeader :: "dialOptions \<Rightarrow> bool" where
  "plainHeader o1 \<longleftrightarrow> (\<forall>h. doHTTPHeader o1 = Some h \<longrightarrow>
     headerValues ''Sec-WebSocket-Protocol'' h = [] \<and> headerValues ''Sec-WebSocket-Extensions'' h = [] \<and> headerValues ''Origin'' h = [])"

lemma handshakeHeader_values:
  "headerValues ''Connection'' (handshakeHeader o1 copts key) = [''Upgrade'']"
  "headerValues ''Upgrade'' (handshakeHeader o1 copts key) = [''websocket'']"
  "headerValues ''Sec-WebSocket-Version'' (handshakeHeader o1 copts key) = [''13'']"
  "headerValues ''Sec-WebSocket-Key'' (handshakeHeader o1 copts key) = [key]"
  by (simp_all add: handshakeHeader_def Let_def split: option.split)

lemma handshakeHeader_plain:
  assumes "plainHeader o1"
  shows "headerValues ''Origin'' (handshakeHeader o1 copts key) = []"
    "headerValues ''Sec-WebSocket-Protocol'' (handshakeHeader o1 copts key)
      = (if doSubprotocols o1 = [] then [] else [Join (doSubprotocols o1) '',''])"
    "headerValues ''Sec-WebSocket-Extensions'' (handshakeHeader o1 copts key)
      = (case copts of None \<Rightarrow> [] | Some c \<Rightarrow> [compressionOptions_String c])"
  using assms by (simp_all add: handshakeHeader_def plainHeader_def Let_def split: option.split)

lemma verifyClientRequest_handshake:
  assumes "rqHeader r = handshakeHeader o1 copts key" and "rqMethod r = ''GET''" and "rqProto r = (1, 1)"
    and "lUnBase64 lib (TrimSpace key) = Some v" and "length v = 16"
  shows "verifyClientRequest lib r w = (None, w)"
proof -
  note hv = handshakeHeader_values[of o1 copts key]
  have "headerContainsTokenIgnoreCase (rqHeader r) ''Connection'' ''Upgrade''"
    "headerContainsTokenIgnoreCase (rqHeader r) ''Upgrade'' ''websocket''"
    by (rule headerContains_token, simp add: assms(1) hv, simp_all add: upgrade_tokens)+
  moreover have "headerGet ''Sec-WebSocket-Version'' (rqHeader r) = ''13''"
    "headerValues ''Sec-WebSocket-Key'' (rqHeader r) = [key]"
    using hv by (simp_all add: headerGet_def assms(1))
  ultimately show ?thesis using assms(2-5) unfolding verifyClientRequest_def Let_def by simp
qed

lemma selectSubprotocol_member:
  "selectSubprotocol r sps = [] \<or>
   (selectSubprotocol r sps \<in> set (headerTokens (rqHeader r) ''Sec-WebSocket-Protocol'') \<and> (\<exists>sp\<in>set sps. EqualFold sp (selectSubprotocol r sps)))"
proof (cases "List.concat (map (\<lambda>sp. filter (EqualFold sp) (headerTokens (rqHeader r) ''Sec-WebSocket-Protocol'')) sps)")
  case (Cons cp cps)
  then have "cp \<in> set (List.concat (map (\<lambda>sp. filter (EqualFold sp) (headerTokens (rqHeader r) ''Sec-WebSocket-Protocol'')) sps))"
    by (metis list.set_intros(1))
  then have "cp \<in> set (headerTokens (rqHeader r) ''Sec-WebSocket-Protocol'') \<and> (\<exists>sp\<in>set sps. EqualFold sp cp)" by auto
  with Cons show ?thesis by (simp add: selectSubprotocol_def)
next
  case Nil
  then show ?thesis unfolding selectSubprotocol_def Let_def by (simp only: list.case simp_thms)
qed

text \<open>What the server negotiates: compression if both want it, with every restriction of either side.\<close>

definition agreedOpts :: "compressionMode \<Rightarrow> compressionMode \<Rightarrow> compressionOptions option" where
  "agreedOpts cm sm =
     (if cm = CompressionDisabled \<or> sm = CompressionDisabled then None else Some (unionOpts (modeOpts sm) (modeOpts cm)))"

lemma selectDeflate_handshake:
  assumes "plainHeader o1"
  shows "selectDeflate (websocketExtensions (handshakeHeader o1 (dialCopts o1) key)) sm = agreedOpts (doCompressionMode o1) sm"
proof (cases "doCompressionMode o1 = CompressionDisabled")
  case True
  then have "websocketExtensions (handshakeHeader o1 (dialCopts o1) key) = []"
    by (intro extensions_none) (simp add: handshakeHeader_plain(3)[OF assms] dialCopts_def del: canonical_keys)
  with True show ?thesis by (simp add: selectDeflate_def agreedOpts_def)
next
  case False
  then have "websocketExtensions (handshakeHeader o1 (dialCopts o1) key)
      = [\<lparr>extName = ''permessage-deflate'', extParams = optionParams (modeOpts (doCompressionMode o1))\<rparr>]"
    by (intro extensions_String) (simp add: handshakeHeader_plain(3)[OF assms] dialCopts_def)
  with False show ?thesis by (simp add: selectDeflate_def agreedOpts_def acceptDeflate_def params_union)
qed

lemma acceptHeaders_values:
  assumes "rwHeader w = Map.empty" and "w' = acceptHeaders lib r a w"
  shows "headerValues ''Connection'' (rwHeader w') = [''Upgrade'']" "headerValues ''Upgrade'' (rwHeader w') = [''websocket'']"
    "headerValues ''Sec-WebSocket-Accept'' (rwHeader w') = [secWebSocketAccept lib (headerGet ''Sec-WebSocket-Key'' (rqHeader r))]"
    "headerValues ''Sec-WebSocket-Protocol'' (rwHeader w') =
       (if selectSubprotocol r (aoSubprotocols a) = [] then [] else [selectSubprotocol r (aoSubprotocols a)])"
    "headerValues ''Sec-WebSocket-Extensions'' (rwHeader w') =
       (case selectDeflate (websocketExtensions (rqHeader r)) (aoCompressionMode a) of None \<Rightarrow> [] | Some c \<Rightarrow> [compressionOptions_String c])"
    "rwStatus w' = rwStatus w"
  unfolding assms(2) acceptHeaders_def Let_def setHeader_def using assms(1) by (simp_all split: option.split)

lemma verifyServerExtensions_agreed:
  assumes "headerValues ''Sec-WebSocket-Extensions'' h
      = (case agreedOpts (doCompressionMode o1) sm of None \<Rightarrow> [] | Some c \<Rightarrow> [compressionOptions_String c])"
  shows "verifyServerExtensions (dialCopts o1) h = Inr (agreedOpts (doCompressionMode o1) sm)"
proof (cases "agreedOpts (doCompressionMode o1) sm")
  case None
  with assms have "websocketExtensions h = []" by (intro extensions_none) simp
  with None show ?thesis by (simp add: verifyServerExtensions_def)
next
  case (Some c)
  with assms have e: "websocketExtensions h = [\<lparr>extName = ''permessage-deflate'', extParams = optionParams c\<rparr>]"
    by (intro extensions_String) simp
  have c: "dialCopts o1 = Some (modeOpts (doCompressionMode o1))" "c = unionOpts (modeOpts sm) (modeOpts (doCompressionMode o1))"
    using Some by (auto simp: agreedOpts_def dialCopts_def split: if_splits)
  then have "unionOpts (modeOpts (doCompressionMode o1)) c = c" by (auto simp: unionOpts_def)
  with Some e c(1) show ?thesis by (simp add: verifyServerExtensions_def params_union)
qed

text \<open>The server takes the request of the client, and the client takes the answer.\<close>

lemma accept_handshake:
  assumes "rqHeader r = handshakeHeader o1 (dialCopts o1) key" and "rqMethod r = ''GET''" and "rqProto r = (1, 1)"
    and "lUnBase64 slib (TrimSpace key) = Some v" and "length v = 16" and "plainHeader o1"
    and "rwHeader w = Map.empty" "rwStatus w = None"
  obtains w' where
    "accept slib True None r (Some a) w = (Inr \<lparr>cfSubprotocol = selectSubprotocol r (aoSubprotocols a), cfClient = False,
        cfCopts = agreedOpts (doCompressionMode o1) (aoCompressionMode a),
        cfThreshold = flateThreshold False (agreedOpts (doCompressionMode o1) (aoCompressionMode a)) (aoCompressionThreshold a)\<rparr>, w')"
    "rwStatus w' = Some 101" "rwHeader w' = rwHeader (acceptHeaders slib r a w)"
proof -
  let ?w = "writeHeader 101 (acceptHeaders slib r a w)"
  have v: "verifyClientRequest slib r w = (None, w)" by (rule verifyClientRequest_handshake[OF assms(1-5)])
  have o: "authenticateOrigin slib r ps = None" for ps
    using handshakeHeader_plain(1)[OF assms(6)] by (simp add: authenticateOrigin_def headerGet_def assms(1) del: canonical_keys)
  have sd: "selectDeflate (websocketExtensions (rqHeader r)) (aoCompressionMode a) = agreedOpts (doCompressionMode o1) (aoCompressionMode a)"
    using selectDeflate_handshake[OF assms(6)] by (simp add: assms(1))
  have h: "rwHeader ?w = rwHeader (acceptHeaders slib r a w)" "rwStatus ?w = Some 101"
    using acceptHeaders_values(6)[OF assms(7) refl] assms(8) by (simp_all add: writeHeader_def)
  have p: "headerGet ''Sec-WebSocket-Protocol'' (rwHeader ?w) = selectSubprotocol r (aoSubprotocols a)"
    using acceptHeaders_values(4)[OF assms(7) refl] h(1) by (simp add: headerGet_def del: canonical_keys)
  show thesis
  proof (rule that[OF _ h(2,1)])
    show "accept slib True None r (Some a) w = (Inr \<lparr>cfSubprotocol = selectSubprotocol r (aoSubprotocols a), cfClient = False,
        cfCopts = agreedOpts (doCompressionMode o1) (aoCompressionMode a),
        cfThreshold = flateThreshold False (agreedOpts (doCompressionMode o1) (aoCompressionMode a)) (aoCompressionThreshold a)\<rparr>, ?w)"
      using v o sd p unfolding accept_def Let_def by simp
  qed
qed

lemma requestTokens:
  assumes "rqHeader r = handshakeHeader o1 (dialCopts o1) key" and "plainHeader o1" and "list_all isToken (doSubprotocols o1)"
  shows "headerTokens (rqHeader r) ''Sec-WebSocket-Protocol'' = doSubprotocols o1"
proof (cases "doSubprotocols o1 = []")
  case True
  with handshakeHeader_plain(2)[OF assms(2)] show ?thesis by (simp add: headerTokens_def assms(1) del: canonical_keys)
next
  case False
  with handshakeHeader_plain(2)[OF assms(2)] assms(1,3) show ?thesis by (intro headerTokens_Join) (simp_all del: canonical_keys)
qed

lemma verifyServerResponse_accept:
  assumes "rqHeader r = handshakeHeader o1 (dialCopts o1) key" and "plainHeader o1" and "list_all isToken (doSubprotocols o1)"
    and "rwHeader w = Map.empty" and "rsStatus resp = 101" and "rsHeader resp = rwHeader (acceptHeaders slib r a w)"
    and "secWebSocketAccept slib = secWebSocketAccept lib"
  shows "verifyServerResponse lib o1 (dialCopts o1) key resp = Inr (agreedOpts (doCompressionMode o1) (aoCompressionMode a))"
proof -
  note av = acceptHeaders_values[OF assms(4) refl, of slib r a]
  have tok: "headerContainsTokenIgnoreCase (rsHeader resp) ''Connection'' ''Upgrade''"
    "headerContainsTokenIgnoreCase (rsHeader resp) ''Upgrade'' ''WebSocket''"
    by (rule headerContains_token, simp add: assms(6) av, simp_all add: upgrade_tokens)+
  have key: "headerGet ''Sec-WebSocket-Accept'' (rsHeader resp) = secWebSocketAccept lib key"
    using handshakeHeader_values(4)[of o1 "dialCopts o1" key] av(3) assms(7) by (simp add: headerGet_def assms(1,6) del: canonical_keys)
  let ?sp = "selectSubprotocol r (aoSubprotocols a)"
  have proto: "headerGet ''Sec-WebSocket-Protocol'' (rsHeader resp) = ?sp"
    using av(4) by (simp add: headerGet_def assms(6) del: canonical_keys)
  have toks: "headerTokens (rqHeader r) ''Sec-WebSocket-Protocol'' = doSubprotocols o1" by (rule requestTokens[OF assms(1-3)])
  have "verifySubprotocol (doSubprotocols o1) (rsHeader resp) = None"
    using selectSubprotocol_member[of r "aoSubprotocols a"] toks proto
    by (auto simp: verifySubprotocol_def Let_def EqualFold_def list_ex_iff)
  moreover have "verifyServerExtensions (dialCopts o1) (rsHeader resp) = Inr (agreedOpts (doCompressionMode o1) (aoCompressionMode a))"
    using av(5) selectDeflate_handshake[OF assms(2)] by (intro verifyServerExtensions_agreed) (simp add: assms(1,6) del: canonical_keys)
  ultimately show ?thesis using tok key assms(5) by (simp add: verifyServerResponse_def)
qed

subsection \<open>Properties\<close>

text \<open>
  The two ends over a transport that carries the request and the answer as they are: the server has libraries of its own,
  with the same digest, and decodes what the client encodes.
\<close>

definition freshWriter :: responseWriter where "freshWriter = \<lparr>rwStatus = None, rwHeader = Map.empty, rwBody = None\<rparr>"

definition connected :: "wsHttp \<Rightarrow> wsHttp \<Rightarrow> acceptOptions \<Rightarrow> string \<Rightarrow> bool" where
  "connected lib slib a urls \<longleftrightarrow> lSha1 slib = lSha1 lib \<and> lBase64 slib = lBase64 lib
     \<and> (\<forall>b. lUnBase64 slib (TrimSpace (lBase64 lib b)) = Some b)
     \<and> (\<exists>u r. lParseURL lib urls = Inr u \<and> uScheme u \<in> set [''ws'', ''wss'', ''http'', ''https'']
          \<and> lNewRequest lib (httpScheme u) = Inr r \<and> rqMethod r = ''GET'' \<and> rqProto r = (1, 1))
     \<and> (\<forall>cl r. lDo lib cl r = (case accept slib True None r (Some a) freshWriter of
           (_, w) \<Rightarrow> Inr \<lparr>rsStatus = the (rwStatus w), rsHeader = rwHeader w, rsWritable = True\<rparr>))"

lemma connected_request:
  assumes "connected lib slib a urls"
  obtains r where "rqHeader r = handshakeHeader o1 copts key" "rqMethod r = ''GET''" "rqProto r = (1, 1)"
    "\<And>cfg w. accept slib True None r (Some a) freshWriter = (cfg, w) \<Longrightarrow> rwStatus w = Some 101
       \<Longrightarrow> handshakeRequest lib cl urls o1 copts key = Inr \<lparr>rsStatus = 101, rsHeader = rwHeader w, rsWritable = True\<rparr>"
proof -
  from assms obtain u r0 where u: "lParseURL lib urls = Inr u" "uScheme u \<in> set [''ws'', ''wss'', ''http'', ''https'']"
    "lNewRequest lib (httpScheme u) = Inr r0" "rqMethod r0 = ''GET''" "rqProto r0 = (1, 1)" unfolding connected_def by blast
  let ?r = "r0\<lparr>rqHost := (if doHost o1 \<noteq> [] then doHost o1 else rqHost r0), rqHeader := handshakeHeader o1 copts key\<rparr>"
  have "lDo lib cl ?r = (case accept slib True None ?r (Some a) freshWriter of
      (_, w) \<Rightarrow> Inr \<lparr>rsStatus = the (rwStatus w), rsHeader = rwHeader w, rsWritable = True\<rparr>)"
    using assms unfolding connected_def by blast
  with u that[of ?r] show thesis by (simp add: handshakeRequest_def)
qed

text \<open>
  C19: The opening handshake: a client and a server of this library always come together, and agree. The subprotocol is one that
  both listed or none; compression is on exactly when both modes allow it, and then each restriction asked for by either
  side holds at both ends.
\<close>

theorem handshake_agrees:
  assumes "connected lib slib a urls" and "plainHeader o0" and "list_all isToken (doSubprotocols o0)" and "16 \<le> length rnd"
  shows "\<exists>r cfgC cfgS w. dial lib DefaultClient rnd urls (Some o0) = Inr cfgC
     \<and> rqHeader r = handshakeHeader o0 (dialCopts o0) (lBase64 lib (take 16 rnd)) \<and> accept slib True None r (Some a) freshWriter = (Inr cfgS, w)
     \<and> cfSubprotocol cfgC = cfSubprotocol cfgS \<and> cfCopts cfgC = cfCopts cfgS
     \<and> (cfSubprotocol cfgC = [] \<or> (cfSubprotocol cfgC \<in> set (doSubprotocols o0) \<and> (\<exists>sp\<in>set (aoSubprotocols a). EqualFold sp (cfSubprotocol cfgC))))
     \<and> cfCopts cfgC = agreedOpts (doCompressionMode o0) (aoCompressionMode a)"
proof -
  obtain tmo cl o1 where d: "dialDefaults DefaultClient (Some o0) = (tmo, cl, o1)" by (cases "dialDefaults DefaultClient (Some o0)")
  have o1: "doSubprotocols o1 = doSubprotocols o0" "doCompressionMode o1 = doCompressionMode o0" "doCompressionThreshold o1 = doCompressionThreshold o0"
    "doHost o1 = doHost o0" "plainHeader o1"
    using d assms(2) by (auto simp: dialDefaults_def Let_def plainHeader_def split: option.splits)
  define key where "key = lBase64 lib (take 16 rnd)"
  have k: "secWebSocketKey lib rnd = Inr key" using assms(4) by (simp add: secWebSocketKey_def ReadFull_def key_def)
  from connected_request[OF assms(1)] obtain r where
    r: "rqHeader r = handshakeHeader o1 (dialCopts o1) key" "rqMethod r = ''GET''" "rqProto r = (1, 1)" and
    rq: "\<And>cfg w. accept slib True None r (Some a) freshWriter = (cfg, w) \<Longrightarrow> rwStatus w = Some 101
       \<Longrightarrow> handshakeRequest lib cl urls o1 (dialCopts o1) key = Inr \<lparr>rsStatus = 101, rsHeader = rwHeader w, rsWritable = True\<rparr>" by metis
  have v: "lUnBase64 slib (TrimSpace key) = Some (take 16 rnd)" "length (take 16 rnd) = 16"
    using assms(1,4) by (auto simp: connected_def key_def)
  have fw: "rwHeader freshWriter = Map.empty" "rwStatus freshWriter = None" by (simp_all add: freshWriter_def)
  from accept_handshake[OF r v o1(5) fw, of a] obtain w where
    w: "accept slib True None r (Some a) freshWriter = (Inr \<lparr>cfSubprotocol = selectSubprotocol r (aoSubprotocols a), cfClient = False,
        cfCopts = agreedOpts (doCompressionMode o1) (aoCompressionMode a),
        cfThreshold = flateThreshold False (agreedOpts (doCompressionMode o1) (aoCompressionMode a)) (aoCompressionThreshold a)\<rparr>, w)"
    "rwStatus w = Some 101" "rwHeader w = rwHeader (acceptHeaders slib r a freshWriter)" by blast
  define resp where "resp = \<lparr>rsStatus = 101, rsHeader = rwHeader w, rsWritable = True\<rparr>"
  have hr: "handshakeRequest lib cl urls o1 (dialCopts o1) key = Inr resp" using rq[OF w(1,2)] by (simp add: resp_def)
  have "secWebSocketAccept slib = secWebSocketAccept lib" using assms(1) by (auto simp: connected_def secWebSocketAccept_def)
  then have vr: "verifyServerResponse lib o1 (dialCopts o1) key resp = Inr (agreedOpts (doCompressionMode o1) (aoCompressionMode a))"
    using verifyServerResponse_accept[OF r(1) o1(5) _ fw(1), of resp slib a lib] assms(3) o1(1) w(3) by (simp add: resp_def)
  have proto: "headerGet ''Sec-WebSocket-Protocol'' (rsHeader resp) = selectSubprotocol r (aoSubprotocols a)"
    using acceptHeaders_values(4)[OF fw(1) refl] w(3) by (simp add: headerGet_def resp_def del: canonical_keys)
  let ?cfg = "\<lparr>cfSubprotocol = selectSubprotocol r (aoSubprotocols a), cfClient = True, cfCopts = agreedOpts (doCompressionMode o1) (aoCompressionMode a),
      cfThreshold = flateThreshold True (agreedOpts (doCompressionMode o1) (aoCompressionMode a)) (doCompressionThreshold o1)\<rparr>"
  have "dial lib DefaultClient rnd urls (Some o0) = Inr ?cfg"
    using d k hr vr proto by (simp add: dial_def resp_def)
  moreover have "selectSubprotocol r (aoSubprotocols a) = [] \<or> (selectSubprotocol r (aoSubprotocols a) \<in> set (doSubprotocols o0)
      \<and> (\<exists>sp\<in>set (aoSubprotocols a). EqualFold sp (selectSubprotocol r (aoSubprotocols a))))"
    using selectSubprotocol_member[of r "aoSubprotocols a"] requestTokens[OF r(1) o1(5)] assms(3) o1(1) by auto
  moreover have "rqHeader r = handshakeHeader o0 (dialCopts o0) (lBase64 lib (take 16 rnd))"
    using r(1) d by (auto simp: key_def dialDefaults_def handshakeHeader_def dialCopts_def Let_def split: option.split)
  ultimately show ?thesis using w(1) o1(2) by (intro exI[of _ r] exI[of _ ?cfg] exI conjI) (assumption | simp)+
qed

text \<open>Example libraries: base64 replaced by an injective encoding without blanks, the digest by a truncation.\<close>

definition hexDigit :: "nat \<Rightarrow> char" where "hexDigit n = ''0123456789abcdef'' ! n"

definition hexEncode :: "bytes \<Rightarrow> string" where
  "hexEncode b = concat (map (\<lambda>w. [hexDigit (unat w div 16), hexDigit (unat w mod 16)]) b)"

definition hexValue :: "char \<Rightarrow> nat" where "hexValue c = length (takeWhile (\<lambda>d. d \<noteq> c) ''0123456789abcdef'')"

fun hexDecode :: "string \<Rightarrow> bytes" where
  "hexDecode (c # d # s) = word_of_nat (16 * hexValue c + hexValue d) # hexDecode s"
| "hexDecode _ = []"

definition serverLib :: wsHttp where
  "serverLib = \<lparr>lParseURL = (\<lambda>s. Inl (Plain s)), lNewRequest = (\<lambda>u. Inl (Plain [])), lDo = (\<lambda>cl r. Inl (Plain [])),
     lMatch = (\<lambda>p s. Inr (p = s)), lSha1 = take 20, lBase64 = hexEncode, lUnBase64 = (\<lambda>s. Some (hexDecode s))\<rparr>"

definition exampleAccept :: acceptOptions where
  "exampleAccept = zeroAcceptOptions\<lparr>aoSubprotocols := [''wrp-1''], aoCompressionMode := CompressionContextTakeover\<rparr>"

definition clientLib :: wsHttp where
  "clientLib = serverLib\<lparr>lParseURL := (\<lambda>s. Inr \<lparr>uScheme = ''wss'', uHost = s, uRest = []\<rparr>),
     lNewRequest := (\<lambda>u. Inr \<lparr>rqMethod = ''GET'', rqURL = u, rqHost = uHost u, rqHeader = Map.empty, rqProto = (1, 1)\<rparr>),
     lDo := (\<lambda>cl r. case accept serverLib True None r (Some exampleAccept) freshWriter of
        (_, w) \<Rightarrow> Inr \<lparr>rsStatus = the (rwStatus w), rsHeader = rwHeader w, rsWritable = True\<rparr>)\<rparr>"

lemma hex_digit: "n < 16 \<Longrightarrow> hexValue (hexDigit n) = n \<and> \<not> is_space (hexDigit n)"
proof -
  have "\<forall>n\<in>set [0..<16]. hexValue (hexDigit n) = n \<and> \<not> is_space (hexDigit n)" by code_simp
  then show "n < 16 \<Longrightarrow> ?thesis" by simp
qed

lemma hex_roundtrip: "hexDecode (hexEncode b) = b"
proof (induction b)
  case (Cons w b)
  have "unat w < 256" using unsigned_less[of w] by simp
  then have "unat w div 16 < 16" "unat w mod 16 < 16" by auto
  with hex_digit have "hexValue (hexDigit (unat w div 16)) = unat w div 16" "hexValue (hexDigit (unat w mod 16)) = unat w mod 16" by blast+
  with Cons show ?case by (simp add: hexEncode_def)
qed (simp add: hexEncode_def)

lemma hex_no_space: "TrimSpace (hexEncode b) = hexEncode b"
proof (rule TrimSpace_id)
  have "\<forall>c\<in>set (hexEncode b). \<not> is_space c"
  proof
    fix c
    assume "c \<in> set (hexEncode b)"
    then obtain w :: byte where "c = hexDigit (unat w div 16) \<or> c = hexDigit (unat w mod 16)" by (auto simp: hexEncode_def)
    moreover have "unat w < 256" using unsigned_less[of w] by simp
    then have "unat w div 16 < 16" "unat w mod 16 < 16" by auto
    ultimately show "\<not> is_space c" using hex_digit by blast
  qed
  then show "hexEncode b = [] \<or> \<not> is_space (List.hd (hexEncode b)) \<and> \<not> is_space (last (hexEncode b))" by auto
qed

lemma example_connected: "connected clientLib serverLib exampleAccept ''host''"
  by (simp add: connected_def clientLib_def serverLib_def hex_no_space hex_roundtrip)

definition exampleDial :: dialOptions where
  "exampleDial = zeroDialOptions\<lparr>doSubprotocols := [''WRP-1'', ''wrp-0''], doCompressionMode := CompressionNoContextTakeover\<rparr>"

theorem handshake_agrees_witness:
  "\<exists>r cfgC cfgS w. dial clientLib \<lparr>hcTimeout = 0, hcCheckRedirect = None\<rparr> (replicate 16 7) ''host'' (Some exampleDial) = Inr cfgC
     \<and> accept serverLib True None r (Some exampleAccept) freshWriter = (Inr cfgS, w) \<and> cfSubprotocol cfgC = cfSubprotocol cfgS
     \<and> cfCopts cfgC = Some \<lparr>clientNoContextTakeover = True, serverNoContextTakeover = True\<rparr>"
proof -
  have "plainHeader exampleDial" by (simp add: plainHeader_def exampleDial_def zeroDialOptions_def)
  moreover have "list_all isToken (doSubprotocols exampleDial)" unfolding isToken_def by code_simp
  moreover have "agreedOpts (doCompressionMode exampleDial) (aoCompressionMode exampleAccept)
      = Some \<lparr>clientNoContextTakeover = True, serverNoContextTakeover = True\<rparr>" by code_simp
  ultimately show ?thesis
    using handshake_agrees[OF example_connected, of exampleDial "replicate 16 7" "\<lparr>hcTimeout = 0, hcCheckRedirect = None\<rparr>"] by auto
qed

text \<open>
  What a dial that succeeds has checked: the peer answered 101 with the upgrade headers and with the digest of the key sent
  with this request, it chose a subprotocol the client offered or none, and compression is on only if the client asked for it.
\<close>

theorem dial_sound:
  assumes "dial lib DefaultClient rnd urls (Some o0) = Inr cfg"
  shows "\<exists>key resp cl o1. secWebSocketKey lib rnd = Inr key \<and> handshakeRequest lib cl urls o1 (dialCopts o0) key = Inr resp
     \<and> headerValues ''Sec-WebSocket-Key'' (handshakeHeader o1 (dialCopts o0) key) = [key]
     \<and> rsStatus resp = 101 \<and> rsWritable resp
     \<and> headerContainsTokenIgnoreCase (rsHeader resp) ''Connection'' ''Upgrade'' \<and> headerContainsTokenIgnoreCase (rsHeader resp) ''Upgrade'' ''WebSocket''
     \<and> headerGet ''Sec-WebSocket-Accept'' (rsHeader resp) = secWebSocketAccept lib key
     \<and> (cfSubprotocol cfg = [] \<or> list_ex (\<lambda>sp. EqualFold sp (cfSubprotocol cfg)) (doSubprotocols o0))
     \<and> (doCompressionMode o0 = CompressionDisabled \<longrightarrow> cfCopts cfg = None \<and> websocketExtensions (rsHeader resp) = [])"
proof -
  obtain tmo cl o1 where d: "dialDefaults DefaultClient (Some o0) = (tmo, cl, o1)" by (cases "dialDefaults DefaultClient (Some o0)")
  have o1: "doSubprotocols o1 = doSubprotocols o0" "dialCopts o1 = dialCopts o0"
    using d by (auto simp: dialDefaults_def dialCopts_def Let_def)
  from assms d obtain key resp copts where r: "secWebSocketKey lib rnd = Inr key" "handshakeRequest lib cl urls o1 (dialCopts o0) key = Inr resp"
    "verifyServerResponse lib o1 (dialCopts o0) key resp = Inr copts" "rsWritable resp"
    "cfSubprotocol cfg = headerGet ''Sec-WebSocket-Protocol'' (rsHeader resp)" "cfCopts cfg = copts"
    by (auto simp: dial_def o1 Let_def split: sum.splits if_splits)
  from r(3) have v: "rsStatus resp = 101" "headerContainsTokenIgnoreCase (rsHeader resp) ''Connection'' ''Upgrade''"
    "headerContainsTokenIgnoreCase (rsHeader resp) ''Upgrade'' ''WebSocket''" "headerGet ''Sec-WebSocket-Accept'' (rsHeader resp) = secWebSocketAccept lib key"
    "verifySubprotocol (doSubprotocols o0) (rsHeader resp) = None" "verifyServerExtensions (dialCopts o0) (rsHeader resp) = Inr copts"
    unfolding verifyServerResponse_def by (auto simp: o1 split: if_splits option.splits)
  have "cfSubprotocol cfg = [] \<or> list_ex (\<lambda>sp. EqualFold sp (cfSubprotocol cfg)) (doSubprotocols o0)"
    using v(5) r(5) by (auto simp: verifySubprotocol_def Let_def split: if_splits)
  moreover have "cfCopts cfg = None \<and> websocketExtensions (rsHeader resp) = []" if "doCompressionMode o0 = CompressionDisabled"
    using v(6) r(6) that by (auto simp: verifyServerExtensions_def dialCopts_def split: list.splits)
  ultimately show ?thesis using r(1,2,4) v(1-4) handshakeHeader_values(4)[of o1 "dialCopts o0" key] by blast
qed

theorem dial_sound_witness:
  "\<exists>cfg key resp cl o1. dial clientLib \<lparr>hcTimeout = 0, hcCheckRedirect = None\<rparr> (replicate 16 7) ''host'' (Some exampleDial) = Inr cfg
     \<and> handshakeRequest clientLib cl ''host'' o1 (dialCopts exampleDial) key = Inr resp \<and> rsStatus resp = 101"
proof -
  let ?cl = "\<lparr>hcTimeout = 0, hcCheckRedirect = None\<rparr>"
  have "\<not> isl (dial clientLib ?cl (replicate 16 7) ''host'' (Some exampleDial))" by code_simp
  then obtain cfg where cfg: "dial clientLib ?cl (replicate 16 7) ''host'' (Some exampleDial) = Inr cfg"
    by (cases "dial clientLib ?cl (replicate 16 7) ''host'' (Some exampleDial)") auto
  from dial_sound[OF cfg] show ?thesis using cfg by blast
qed

text \<open>
  What the server does with a request: it hands out a connection only for an upgrade request of version 13 with one key of 16
  bytes, and, unless told to skip the check, with no origin, the origin of its own host or one that matches a pattern. In
  every other case the response has an error status: 426, 405 or 400 for the request, 403 for the origin, 501 without a hijacker;
  only a failed hijack comes after the 101 has gone out.
\<close>

theorem accept_outcomes:
  assumes "accept lib hijacker hijackErr r (Some a) freshWriter = (res, w)"
  shows "(case res of
     Inr cfg \<Rightarrow> rwStatus w = Some 101 \<and> rqMethod r = ''GET'' \<and> headerGet ''Sec-WebSocket-Version'' (rqHeader r) = ''13''
        \<and> headerContainsTokenIgnoreCase (rqHeader r) ''Connection'' ''Upgrade'' \<and> headerContainsTokenIgnoreCase (rqHeader r) ''Upgrade'' ''websocket''
        \<and> (\<exists>k v. headerValues ''Sec-WebSocket-Key'' (rqHeader r) = [k] \<and> lUnBase64 lib (TrimSpace k) = Some v \<and> length v = 16)
        \<and> (aoInsecureSkipVerify a \<or> authenticateOrigin lib r (aoOriginPatterns a) = None)
        \<and> headerGet ''Sec-WebSocket-Accept'' (rwHeader w) = secWebSocketAccept lib (headerGet ''Sec-WebSocket-Key'' (rqHeader r))
   | Inl e \<Rightarrow> (\<exists>code. rwStatus w = Some code \<and> code \<in> {400, 403, 405, 426, 501}) \<or> (rwStatus w = Some 101 \<and> hijackErr \<noteq> None))"
proof -
  obtain v w1 where vc: "verifyClientRequest lib r freshWriter = (v, w1)" by (cases "verifyClientRequest lib r freshWriter")
  show ?thesis
  proof (cases v)
    case (Some ce)
    obtain code e where ce: "ce = (code, e)" by (cases ce)
    have "code \<in> {400, 405, 426} \<and> rwStatus w1 = None"
      using vc Some ce unfolding verifyClientRequest_def Let_def
      by (auto simp: freshWriter_def setHeader_def split: if_splits list.splits option.splits)
    with assms vc Some ce show ?thesis by (auto simp: accept_def httpError_def writeHeader_def Let_def)
  next
    case None
    have w1: "w1 = freshWriter" and req: "rqMethod r = ''GET''" "headerGet ''Sec-WebSocket-Version'' (rqHeader r) = ''13''"
      "headerContainsTokenIgnoreCase (rqHeader r) ''Connection'' ''Upgrade''" "headerContainsTokenIgnoreCase (rqHeader r) ''Upgrade'' ''websocket''"
      "\<exists>k v. headerValues ''Sec-WebSocket-Key'' (rqHeader r) = [k] \<and> lUnBase64 lib (TrimSpace k) = Some v \<and> length v = 16"
      using vc None unfolding verifyClientRequest_def Let_def by (auto split: if_splits list.splits option.splits)
    let ?w = "writeHeader 101 (acceptHeaders lib r a freshWriter)"
    have fw: "rwHeader freshWriter = Map.empty" "rwStatus freshWriter = None" by (simp_all add: freshWriter_def)
    have st: "rwStatus ?w = Some 101" "headerGet ''Sec-WebSocket-Accept'' (rwHeader ?w) = secWebSocketAccept lib (headerGet ''Sec-WebSocket-Key'' (rqHeader r))"
      using acceptHeaders_values(3,6)[OF fw(1) refl, of lib r a] fw(2) by (simp_all add: writeHeader_def headerGet_def del: canonical_keys)
    show ?thesis
      using assms vc None w1 fw(2) req st unfolding accept_def Let_def
      by (auto simp: httpError_def writeHeader_def simp del: canonical_keys split: if_splits option.splits)
  qed
qed

theorem accept_outcomes_witness:
  "rwStatus (snd (accept serverLib True None \<lparr>rqMethod = ''GET'', rqURL = \<lparr>uScheme = [], uHost = [], uRest = []\<rparr>, rqHost = ''h'', rqHeader = Map.empty, rqProto = (1, 1)\<rparr>
     (Some exampleAccept) freshWriter)) \<in> Some ` {400, 403, 405, 426, 501}"
proof -
  let ?r = "\<lparr>rqMethod = ''GET'', rqURL = \<lparr>uScheme = [], uHost = [], uRest = []\<rparr>, rqHost = ''h'', rqHeader = Map.empty, rqProto = (1, 1)\<rparr>"
  obtain res w where a: "accept serverLib True None ?r (Some exampleAccept) freshWriter = (res, w)"
    by (cases "accept serverLib True None ?r (Some exampleAccept) freshWriter")
  have "\<not> isl res \<longrightarrow> False" using a by (auto simp: accept_def verifyClientRequest_def headerContainsTokenIgnoreCase_def headerTokens_def)
  then obtain e where "res = Inl e" by (cases res) auto
  with accept_outcomes[OF a] a show ?thesis by auto
qed

end
