(* ===== verification/Agent.thy ===== *)
theory Agent
  imports Handlers QosService PubSub MockTr181 WsAgent Libparodus Credentials Jwtxt Metadata Net
begin

text \<open>
  \<open>cmd/xmidt-agent\<close>: how the components are put together. Each provider function of the program builds its component from the
  configuration and from the components it depends on; the dependency injection itself, the command line, the configuration
  files and the logger construction are not modelled. A handler works on a world \<open>'s\<close>; \<open>reqTx\<close> and \<open>typeString\<close> are
  the methods of \<open>wrp.MessageType\<close>. A panic is the result \<open>None\<close>.
\<close>

definition ErrWRPHandlerConfig :: gerr where "ErrWRPHandlerConfig = Sentinel ''main.ErrWRPHandlerConfig''"
definition ErrWebsocketConfig :: gerr where "ErrWebsocketConfig = Sentinel ''main.ErrWebsocketConfig''"

definition xmidtProtocol :: string where "xmidtProtocol = ''protocol''"

subsection \<open>Configuration\<close>

record Identity =
  idDeviceID :: string
  idSerialNumber :: string
  idHardwareModel :: string
  idHardwareManufacturer :: string
  idFirmwareVersion :: string
  idPartnerID :: string

record OperationalState =
  osLastRebootReason :: string
  osBootTime :: time
  osWebpaInterfaceUsed :: string

record QOS =
  qcMaxQueueBytes :: int
  qcMaxMessageBytes :: int
  qcPriority :: int
  qcLowExpires :: duration
  qcMediumExpires :: duration
  qcHighExpires :: duration
  qcCriticalExpires :: duration

record 'p Websocket =
  wcDisable :: bool
  wcURLPath :: string
  wcBackUpURL :: string
  wcAdditionalHeaders :: "(string \<times> string) list"
  wcFetchURLTimeout :: duration
  wcInactivityTimeout :: duration
  wcPingWriteTimeout :: duration
  wcSendTimeout :: duration
  wcHTTPClient :: clientConfig
  wcKeepAliveInterval :: duration
  wcMaxMessageBytes :: int
  wcDisableV4 :: bool
  wcDisableV6 :: bool
  wcRetryPolicy :: 'p
  wcOnce :: bool

record LibParodus =
  lcParodusServiceURL :: string
  lcKeepAliveInterval :: duration
  lcReceiveTimeout :: duration
  lcSendTimeout :: duration

record XmidtCredentials =
  xcURL :: string
  xcRefetchPercent :: rat
  xcFileName :: string
  xcFilePermissions :: FileMode
  xcWaitUntilFetched :: duration

text \<open>A nil list of keys differs from an empty one.\<close>

record JwtTxtRedirector =
  jrAllowedAlgorithms :: "string list"
  jrTimeout :: duration
  jrPEMs :: "string list option"
  jrPEMFiles :: "string list option"

record MockTr181 =
  mcFilePath :: string
  mcEnabled :: bool
  mcServiceName :: string

subsection \<open>The websocket\<close>

definition fetchURL ::
    "(string \<Rightarrow> string \<Rightarrow> gerr + string) \<Rightarrow> string \<Rightarrow> string \<Rightarrow> ('w \<Rightarrow> gerr + string) option \<Rightarrow> 'w \<Rightarrow> gerr + string" where
  "fetchURL JoinPath path backUpURL f w =
     (case f of
        None \<Rightarrow> JoinPath backUpURL path
      | Some g \<Rightarrow>
          (case g w of
             Inl err \<Rightarrow> if backUpURL \<noteq> [] then JoinPath backUpURL path else Inl err
           | Inr baseURL \<Rightarrow> JoinPath baseURL path))"

text \<open>The listeners of the development mode only log and are left out.\<close>

definition wsOptions ::
    "(clientConfig \<Rightarrow> gerr option) \<Rightarrow> (string \<Rightarrow> string \<Rightarrow> gerr + string) \<Rightarrow> ('w \<Rightarrow> time) \<Rightarrow> ('w \<Rightarrow> gerr + string) option
     \<Rightarrow> 'w decorator option \<Rightarrow> 'w decorator \<Rightarrow> Identity \<Rightarrow> 'p Websocket \<Rightarrow> ('w, 'p) wsOption option list" where
  "wsOptions newClient JoinPath now endpoint cred convey ident cfg =
     (case cred of None \<Rightarrow> [] | Some d \<Rightarrow> [Some (CredentialsDecorator (Some d))])
     @ map Some
        [DeviceID (idDeviceID ident),
         FetchURLTimeout (wcFetchURLTimeout cfg),
         FetchURL (Some (fetchURL JoinPath (wcURLPath cfg) (wcBackUpURL cfg) endpoint)),
         InactivityTimeout (wcInactivityTimeout cfg),
         PingWriteTimeout (wcPingWriteTimeout cfg),
         SendTimeout (wcSendTimeout cfg),
         KeepAliveInterval (wcKeepAliveInterval cfg),
         HTTPClientWithForceSets newClient (wcHTTPClient cfg),
         MaxMessageBytes_ws (wcMaxMessageBytes cfg),
         ConveyDecorator (Some convey),
         AdditionalHeaders (wcAdditionalHeaders cfg),
         NowFunc (Some now),
         WithIPv6 [\<not> wcDisableV6 cfg],
         WithIPv4 [\<not> wcDisableV4 cfg],
         Once [wcOnce cfg],
         RetryPolicy (Some (wcRetryPolicy cfg))]"

definition provideWS ::
    "(clientConfig \<Rightarrow> gerr option) \<Rightarrow> (string \<Rightarrow> string \<Rightarrow> gerr + string) \<Rightarrow> ('w \<Rightarrow> time) \<Rightarrow> ('w \<Rightarrow> gerr + string) option
     \<Rightarrow> 'w decorator option \<Rightarrow> 'w decorator \<Rightarrow> Identity \<Rightarrow> 'p Websocket \<Rightarrow> (gerr + ('w, 'p) websocket option) option" where
  "provideWS newClient JoinPath now endpoint cred convey ident cfg =
     (if wcDisable cfg then Some (Inr None)
      else case New_ws (wsOptions newClient JoinPath now endpoint cred convey ident cfg) of
        None \<Rightarrow> None
      | Some (Inl e) \<Rightarrow> Some (Inl (Joined [ErrWebsocketConfig, e]))
      | Some (Inr ws) \<Rightarrow> Some (Inr (Some ws)))"

subsection \<open>The handlers\<close>

text \<open>A logging handler in front of another, as every provider builds it.\<close>

definition logged ::
    "(MessageType \<Rightarrow> string) \<Rightarrow> 's logger \<Rightarrow> 's handler option \<Rightarrow> gerr + 's handler" where
  "logged typeString lg nxt =
     (case New_logging nxt (Some lg) [] of Inl e \<Rightarrow> Inl e | Inr lh \<Rightarrow> Inr (HandleWrp_logging typeString lh))"

definition provideQOSHandler ::
    "(MessageType \<Rightarrow> string) \<Rightarrow> 's logger \<Rightarrow> 's handler \<Rightarrow> QOS \<Rightarrow> gerr + 's qosHandler" where
  "provideQOSHandler typeString lg ws cfg =
     (case logged typeString lg (Some ws) of
        Inl e \<Rightarrow> Inl e
      | Inr lh \<Rightarrow>
          New_qos (Some lh) (map Some
            [MaxQueueBytes (qcMaxQueueBytes cfg), MaxMessageBytes (qcMaxMessageBytes cfg), Priority (qcPriority cfg),
             LowExpires (qcLowExpires cfg), MediumExpires (qcMediumExpires cfg), HighExpires (qcHighExpires cfg),
             CriticalExpires (qcCriticalExpires cfg)]))"

definition provideMissingHandler ::
    "'s handler \<Rightarrow> 's handler \<Rightarrow> Identity \<Rightarrow> gerr + 's missingHandler" where
  "provideMissingHandler pubsub egress ident =
     (case New_missing (Some pubsub) (Some egress) (idDeviceID ident) of
        Inl e \<Rightarrow> Inl (Joined [ErrWRPHandlerConfig, e])
      | Inr h \<Rightarrow> Inr h)"

definition provideAuthHandler ::
    "(MessageType \<Rightarrow> bool) \<Rightarrow> (MessageType \<Rightarrow> string) \<Rightarrow> 's logger \<Rightarrow> 's handler \<Rightarrow> 's missingHandler \<Rightarrow> Identity \<Rightarrow> gerr + 's authHandler" where
  "provideAuthHandler reqTx typeString lg egress missing ident =
     (case logged typeString lg (Some (HandleWrp_missing reqTx missing)) of
        Inl e \<Rightarrow> Inl e
      | Inr lh \<Rightarrow>
          (case New_auth (Some lh) (Some egress) (idDeviceID ident) [idPartnerID ident] of
             Inl e \<Rightarrow> Inl (Joined [ErrWRPHandlerConfig, e])
           | Inr h \<Rightarrow> Inr h))"

text \<open>
  The adapter registers a message listener at the websocket, which is a method call on a nil pointer when the websocket is
  disabled. The listener drops the error of the handlers.
\<close>

definition provideWSEventorToHandlerAdapter ::
    "(MessageType \<Rightarrow> bool) \<Rightarrow> (MessageType \<Rightarrow> string) \<Rightarrow> 's logger \<Rightarrow> 'a option \<Rightarrow> 's authHandler \<Rightarrow> (gerr + (message \<Rightarrow> 's \<Rightarrow> 's)) option" where
  "provideWSEventorToHandlerAdapter reqTx typeString lg ws auth =
     (case logged typeString lg (Some (HandleWrp_auth reqTx auth)) of
        Inl e \<Rightarrow> Some (Inl e)
      | Inr lh \<Rightarrow> (case ws of None \<Rightarrow> None | Some _ \<Rightarrow> Some (Inr (\<lambda>m s. snd (lh m s)))))"

text \<open>The loggers of the two stages of the way in.\<close>

definition provideIngress ::
    "(MessageType \<Rightarrow> bool) \<Rightarrow> (MessageType \<Rightarrow> string) \<Rightarrow> 's logger \<Rightarrow> 's logger \<Rightarrow> 's handler \<Rightarrow> 's handler \<Rightarrow> 'a option \<Rightarrow> Identity
     \<Rightarrow> (gerr + (message \<Rightarrow> 's \<Rightarrow> 's)) option" where
  "provideIngress reqTx typeString lgWs lgAuth pubsub egress ws ident =
     (case provideMissingHandler pubsub egress ident of
        Inl e \<Rightarrow> Some (Inl e)
      | Inr mh \<Rightarrow>
          (case provideAuthHandler reqTx typeString lgAuth egress mh ident of
             Inl e \<Rightarrow> Some (Inl e)
           | Inr ah \<Rightarrow> provideWSEventorToHandlerAdapter reqTx typeString lgWs ws ah))"

text \<open>The handlers that sit on the publish-subscribe routes.\<close>

definition providePubSubHandler ::
    "'o wrpLib \<Rightarrow> ('e, 's) eventor \<Rightarrow> (MessageType \<Rightarrow> string) \<Rightarrow> 's logger \<Rightarrow> 's handler \<Rightarrow> duration \<Rightarrow> Identity
     \<Rightarrow> gerr + (('e, 'o) PubSub \<times> cancelFunc option)" where
  "providePubSubHandler wl ev typeString lg egress publishTimeout ident =
     (case logged typeString lg (Some egress) of
        Inl e \<Rightarrow> Inl e
      | Inr lh \<Rightarrow>
          (case New_pubsub wl (idDeviceID ident) (map Some [WithPublishTimeout publishTimeout, WithEgressHandler ev (Some lh) [Some 0]]) Map.empty of
             Inl e \<Rightarrow> Inl (Joined [ErrWRPHandlerConfig, e])
           | Inr (ps, vars) \<Rightarrow> Inr (ps, vars 0)))"

definition provideCrudHandler ::
    "('e, 's) eventor \<Rightarrow> ('s crudHandler \<Rightarrow> 's handler) \<Rightarrow> 's handler \<Rightarrow> (string \<Rightarrow> duration \<Rightarrow> 's \<Rightarrow> gerr option \<times> 's) \<Rightarrow> string \<Rightarrow> Identity
     \<Rightarrow> ('e, 'o) PubSub \<Rightarrow> gerr + ('s crudHandler \<times> ('e, 'o) PubSub)" where
  "provideCrudHandler ev handle egress logLevel serviceName ident ps =
     (let h = New_crud egress (idDeviceID ident) logLevel
      in case SubscribeService ev serviceName (Some (handle h)) ps of
           Inl e \<Rightarrow> Inl (Joined [ErrWRPHandlerConfig, e])
         | Inr (_, ps') \<Rightarrow> Inr (h, ps'))"

text \<open>\<open>handle\<close> makes the handler of the mock data model and its parameters.\<close>

definition provideMockTr181Handler ::
    "('e, 's) eventor \<Rightarrow> (string \<Rightarrow> gerr + bytes) \<Rightarrow> (bytes \<Rightarrow> gerr + 'a MockParameter list)
     \<Rightarrow> ('s mockHandler \<times> 'a MockParameter list \<Rightarrow> 's handler) \<Rightarrow> (MessageType \<Rightarrow> string) \<Rightarrow> 's logger \<Rightarrow> 's logger
     \<Rightarrow> 's handler \<Rightarrow> Identity \<Rightarrow> MockTr181 \<Rightarrow> ('e, 'o) PubSub \<Rightarrow> gerr + (cancelFunc option \<times> ('e, 'o) PubSub)" where
  "provideMockTr181Handler ev readFile unmarshal handle typeString lgOut lgIn pubsub ident cfg ps =
     (if \<not> mcEnabled cfg then Inr (None, ps)
      else case logged typeString lgOut (Some pubsub) of
        Inl e \<Rightarrow> Inl e
      | Inr loggerOut \<Rightarrow>
          (case New_mock readFile unmarshal (Some loggerOut) (idDeviceID ident)
                  (map Some [FilePath (mcFilePath cfg), Enabled_opt (mcEnabled cfg)]) of
             Inl e \<Rightarrow> Inl (Joined [ErrWRPHandlerConfig, e])
           | Inr mock \<Rightarrow>
               (case logged typeString lgIn (Some (handle mock)) of
                  Inl e \<Rightarrow> Inl e
                | Inr loggerIn \<Rightarrow>
                    (case SubscribeService ev (mcServiceName cfg) (Some loggerIn) ps of
                       Inl e \<Rightarrow> Inl (Joined [ErrWRPHandlerConfig, e])
                     | Inr (c, ps') \<Rightarrow> Inr (Some c, ps')))))"

definition provideLibParodus :: "LibParodus \<Rightarrow> gerr + adapterConfig" where
  "provideLibParodus cfg =
     (case New_lp (lcParodusServiceURL cfg) True
             (map Some [KeepaliveInterval_lp (lcKeepAliveInterval cfg), ReceiveTimeout (lcReceiveTimeout cfg),
                        SendTimeout_lp (lcSendTimeout cfg)]) of
        Inl e \<Rightarrow> Inl (Joined [ErrWRPHandlerConfig, e])
      | Inr a \<Rightarrow> Inr a)"

subsection \<open>Credentials, instructions, metadata and storage\<close>

text \<open>The HTTP client of the credentials is an argument of their operations; \<open>durable\<close> tells whether there is durable storage.\<close>

definition credsInOptions :: "gerr option \<Rightarrow> bool \<Rightarrow> XmidtCredentials \<Rightarrow> Identity \<Rightarrow> OperationalState \<Rightarrow> gerr + credOption option list option" where
  "credsInOptions newClientErr durable cfg ident ops =
     (if xcURL cfg = [] then Inr None
      else case newClientErr of
        Some e \<Rightarrow> Inl e
      | None \<Rightarrow>
          Inr (Some (map Some
            ([URL (xcURL cfg), MacAddress (idDeviceID ident), SerialNumber (idSerialNumber ident),
              HardwareModel (idHardwareModel ident), HardwareManufacturer (idHardwareManufacturer ident),
              FirmwareVersion (idFirmwareVersion ident), PartnerID (Some (idPartnerID ident)),
              LastRebootReason (osLastRebootReason ops), XmidtProtocol xmidtProtocol, BootRetryWait Second,
              RefetchPercent (xcRefetchPercent cfg)]
             @ (if durable then [LocalStorage True (xcFileName cfg) (xcFilePermissions cfg)] else [])))))"

definition provideCredentials ::
    "gerr option \<Rightarrow> bool \<Rightarrow> XmidtCredentials \<Rightarrow> Identity \<Rightarrow> OperationalState \<Rightarrow> gerr + (credConfig \<times> duration) option" where
  "provideCredentials newClientErr durable cfg ident ops =
     (case credsInOptions newClientErr durable cfg ident ops of
        Inl e \<Rightarrow> Inl e
      | Inr None \<Rightarrow> Inr None
      | Inr (Some opts) \<Rightarrow>
          (case New_cred opts of Inl e \<Rightarrow> Inl e | Inr c \<Rightarrow> Inr (Some (c, xcWaitUntilFetched cfg))))"

text \<open>\<open>pem.Decode\<close> yields a block and what follows it, \<open>pem.EncodeToMemory\<close> may fail.\<close>

fun decodePEMs :: "(string \<Rightarrow> ('b \<times> string) option) \<Rightarrow> ('b \<Rightarrow> bytes option) \<Rightarrow> string list \<Rightarrow> gerr + bytes list" where
  "decodePEMs dec enc [] = Inr []"
| "decodePEMs dec enc (item # items) =
     (case dec item of
        None \<Rightarrow> Inl ErrInvalidInput_jwtxt
      | Some (block, rest) \<Rightarrow>
          if TrimSpace rest \<noteq> [] then Inl ErrInvalidInput_jwtxt
          else (case enc block of
                  None \<Rightarrow> Inl ErrInvalidInput_jwtxt
                | Some buf \<Rightarrow> (case decodePEMs dec enc items of Inl e \<Rightarrow> Inl e | Inr bufs \<Rightarrow> Inr (buf # bufs))))"

fun readFiles :: "(string \<Rightarrow> gerr + bytes) \<Rightarrow> string list \<Rightarrow> gerr + bytes list" where
  "readFiles rd [] = Inr []"
| "readFiles rd (f # fs) =
     (case rd f of Inl e \<Rightarrow> Inl e | Inr d \<Rightarrow> (case readFiles rd fs of Inl e \<Rightarrow> Inl e | Inr ds \<Rightarrow> Inr (d # ds)))"

definition provideInstructions ::
    "('k, 'j) jwxLib \<Rightarrow> (string \<Rightarrow> ('b \<times> string) option) \<Rightarrow> ('b \<Rightarrow> bytes option) \<Rightarrow> (string \<Rightarrow> gerr + bytes)
     \<Rightarrow> string \<Rightarrow> JwtTxtRedirector \<Rightarrow> Identity \<Rightarrow> gerr + ('k, 'j) instructions option" where
  "provideInstructions jx dec enc rd url cfg ident =
     (if url = [] \<or> (jrPEMFiles cfg = None \<and> jrPEMs cfg = None) then Inr None
      else
        (let base = [BaseURL jx url, DeviceID_jwtxt jx (idDeviceID ident), Algorithms (jrAllowedAlgorithms cfg), Timeout (jrTimeout cfg)];
             pems = (case jrPEMs cfg of None \<Rightarrow> [] | Some ps \<Rightarrow> ps);
             files = (case jrPEMFiles cfg of None \<Rightarrow> [] | Some fs \<Rightarrow> fs)
         in case decodePEMs dec enc pems of
              Inl e \<Rightarrow> Inl e
            | Inr bufs \<Rightarrow>
                (case readFiles rd files of
                   Inl e \<Rightarrow> Inl e
                 | Inr datas \<Rightarrow>
                     (case New_jwtxt jx (map Some (base @ (if pems \<noteq> [] then [WithPEMs jx bufs] else []) @ map (\<lambda>d. WithPEMs jx [d]) datas)) of
                        Inl e \<Rightarrow> Inl e | Inr ins \<Rightarrow> Inr (Some ins)))))"

definition provideMetadataProvider ::
    "(time \<Rightarrow> string) \<Rightarrow> (duration \<Rightarrow> string) \<Rightarrow> 'n option \<Rightarrow> Identity \<Rightarrow> OperationalState \<Rightarrow> string list \<Rightarrow> gerr + 'n metadataProvider" where
  "provideMetadataProvider timeString seconds ns ident ops fs =
     New_metadata (map Some
       [NetworkServiceOpt ns, FieldsOpt fs, SerialNumberOpt (idSerialNumber ident), HardwareModelOpt (idHardwareModel ident),
        ManufacturerOpt (idHardwareManufacturer ident), FirmwareOpt (idFirmwareVersion ident), LastRebootReasonOpt (osLastRebootReason ops),
        XmidtProtocolOpt xmidtProtocol, BootTimeOpt (timeString (osBootTime ops)), BootRetryWaitOpt seconds Second,
        InterfaceUsedOpt (osWebpaInterfaceUsed ops)])"

definition fsProvide :: "(string \<Rightarrow> gerr + 'f) \<Rightarrow> string \<Rightarrow> string \<Rightarrow> 'f option \<times> 'f option \<times> gerr option" where
  "fsProvide new temporary durable =
     (let add = (\<lambda>path errs.
            if path = [] then (None, errs)
            else case new path of Inl e \<Rightarrow> (None, errorsJoin [errs, Some e]) | Inr f \<Rightarrow> (Some f, errorsJoin [errs, None]))
      in case add temporary None of
           (t, errs) \<Rightarrow> (case add durable errs of (d, errs') \<Rightarrow> (t, d, errs')))"

subsection \<open>Life cycle\<close>

datatype lifeCall = WaitUntilFetched duration | StartWs | StartLibParodus | StartQos | StopWs | StopLibParodus | StopQos | Cancel nat

text \<open>The hooks, as the calls they make in order; the websocket is absent when it is disabled.\<close>

definition onStart :: "gerr option \<Rightarrow> bool \<Rightarrow> bool \<Rightarrow> duration \<Rightarrow> gerr option \<Rightarrow> gerr option \<times> lifeCall list" where
  "onStart ctxErr ws cred waitUntilFetched libErr =
     (case ctxErr of
        Some e \<Rightarrow> (Some e, [])
      | None \<Rightarrow>
          if \<not> ws then (None, [])
          else (libErr, (if cred then [WaitUntilFetched waitUntilFetched] else []) @ [StartWs, StartLibParodus, StartQos]))"

definition onStop :: "bool \<Rightarrow> nat option list \<Rightarrow> gerr option \<times> lifeCall list" where
  "onStop ws cancels =
     (None, if \<not> ws then [] else [StopWs, StopLibParodus, StopQos] @ map Cancel (List.map_filter (\<lambda>c. c) cancels))"

subsection \<open>Lemmas\<close>

lemma logged_Some: "logged typeString lg (Some h) = Inr (\<lambda>m s. h m (lg DebugLevel ''Handling message'' (logFields typeString m) s))"
  by (simp add: logged_def New_logging_def HandleWrp_logging_def fun_eq_iff)

definition validIdentity :: "Identity \<Rightarrow> bool" where
  "validIdentity ident \<longleftrightarrow> idDeviceID ident \<noteq> [] \<and> TrimSpace (idPartnerID ident) \<noteq> []"

lemma provideMissing_eq:
  "validIdentity ident \<Longrightarrow>
   provideMissingHandler pubsub egress ident = Inr \<lparr>msNext = pubsub, msEgress = egress, msSource = idDeviceID ident\<rparr>"
  by (simp add: provideMissingHandler_def New_missing_def validIdentity_def)

lemma provideAuth_eq:
  "validIdentity ident \<Longrightarrow>
   provideAuthHandler reqTx typeString lg egress mh ident =
     Inr \<lparr>aNext = (\<lambda>m s. HandleWrp_missing reqTx mh m (lg DebugLevel ''Handling message'' (logFields typeString m) s)),
          aEgress = egress, aSource = idDeviceID ident, aPartners = [TrimSpace (idPartnerID ident)]\<rparr>"
  by (simp add: provideAuthHandler_def logged_Some New_auth_def validIdentity_def)

lemma provideIngress_invalid:
  "\<not> validIdentity ident \<Longrightarrow> \<exists>e. provideIngress reqTx typeString lgWs lgAuth pubsub egress ws ident = Some (Inl e)
     \<and> errIs e ''main.ErrWRPHandlerConfig''"
  by (cases "idDeviceID ident = []")
    (auto simp: provideIngress_def provideMissingHandler_def New_missing_def provideAuthHandler_def logged_Some New_auth_def
      validIdentity_def ErrWRPHandlerConfig_def)

text \<open>The listener of a valid identity.\<close>

lemma provideIngress_valid:
  assumes v: "validIdentity ident"
  shows "provideIngress reqTx typeString lgWs lgAuth pubsub egress (Some ws) ident = Some (Inr (\<lambda>m s.
         let log = (\<lambda>lg. lg DebugLevel ''Handling message'' (logFields typeString m)); answer = (\<lambda>code p s. snd (egress (reply (idDeviceID ident) code p m) s))
         in if partnerMatch [TrimSpace (idPartnerID ident)] (mPartnerIDs m)
            then (case pubsub m (log lgAuth (log lgWs s)) of
                    (err, s') \<Rightarrow> if notHandled err \<and> reqTx (mType m) then answer 531 missingPayload s' else s')
            else if reqTx (mType m) then answer 403 (authPayload (mPartnerIDs m) [TrimSpace (idPartnerID ident)]) (log lgWs s)
            else log lgWs s))"
  by (auto simp: provideIngress_def provideMissing_eq[OF v] provideAuth_eq[OF v] provideWSEventorToHandlerAdapter_def logged_Some
      HandleWrp_auth_def HandleWrp_missing_def statusCode_auth_def statusCode_missing_def fun_eq_iff Let_def
      split: prod.split option.split)

subsection \<open>Properties\<close>

text \<open>
  C4: The way in, from end to end. The agent starts exactly with a device and a partner; then a message from the cloud is
  logged, checked against the partner, logged again and published. A message of another partner never reaches the
  publish-subscribe routes: it is answered with 403 when its type asks for an answer and dropped otherwise. A message nobody handles is
  answered with 531 when its type asks for an answer. Nothing else is sent.
\<close>

theorem ingress_spec:
  "(\<not> validIdentity ident \<longrightarrow> (\<exists>e. provideIngress reqTx typeString lgWs lgAuth pubsub egress (Some ws) ident = Some (Inl e)
       \<and> errIs e ''main.ErrWRPHandlerConfig''))
   \<and> (validIdentity ident \<longrightarrow>
       provideIngress reqTx typeString lgWs lgAuth pubsub egress (Some ws) ident = Some (Inr (\<lambda>m s.
         let log = (\<lambda>lg. lg DebugLevel ''Handling message'' (logFields typeString m)); answer = (\<lambda>code p s. snd (egress (reply (idDeviceID ident) code p m) s))
         in if partnerMatch [TrimSpace (idPartnerID ident)] (mPartnerIDs m)
            then (case pubsub m (log lgAuth (log lgWs s)) of
                    (err, s') \<Rightarrow> if notHandled err \<and> reqTx (mType m) then answer 531 missingPayload s' else s')
            else if reqTx (mType m) then answer 403 (authPayload (mPartnerIDs m) [TrimSpace (idPartnerID ident)]) (log lgWs s)
            else log lgWs s)))"
  using provideIngress_invalid[of ident reqTx typeString lgWs lgAuth pubsub egress "Some ws"]
    provideIngress_valid[of ident reqTx typeString lgWs lgAuth pubsub egress ws] by blast

definition exampleIdentity :: Identity where
  "exampleIdentity = \<lparr>idDeviceID = ''mac:112233445566'', idSerialNumber = ''1'', idHardwareModel = ''m'', idHardwareManufacturer = ''h'',
     idFirmwareVersion = ''f'', idPartnerID = '' comcast''\<rparr>"

lemma exampleIdentity_valid: "validIdentity exampleIdentity" "TrimSpace (idPartnerID exampleIdentity) = ''comcast''"
  by code_simp+

theorem ingress_spec_witness:
  "\<exists>listener. provideIngress (\<lambda>_. True) (\<lambda>_. []) (\<lambda>_ _ _ s. s) (\<lambda>_ _ _ s. s) (\<lambda>m s. (None, m # s)) (\<lambda>m s. (None, m # s)) (Some ()) exampleIdentity
       = Some (Inr listener)
     \<and> map mStatus (listener (empty_message\<lparr>mPartnerIDs := [''other'']\<rparr>) []) = [Some 403]"
proof -
  note i = ingress_spec[of exampleIdentity "\<lambda>_. True" "\<lambda>_. []" "\<lambda>_ _ _ s. s" "\<lambda>_ _ _ s. s" "\<lambda>m s. (None, m # s)" "\<lambda>m s. (None, m # s)" "()"]
  have "\<not> partnerMatch [''comcast''] [''other'']" by code_simp
  with conjunct2[OF i] exampleIdentity_valid show ?thesis by (simp add: Let_def)
qed

text \<open>
  With the websocket disabled the agent does not start: the provider yields no websocket without an error, and registering the
  message listener on it dereferences a nil pointer, for every valid identity.
\<close>

theorem disabled_websocket_panics:
  assumes "wcDisable cfg" and "validIdentity ident"
  shows "provideWS newClient JoinPath now endpoint cred convey ident cfg = Some (Inr None)
     \<and> provideIngress reqTx typeString lgWs lgAuth pubsub egress None ident = None"
  using assms by (simp add: provideWS_def provideIngress_def provideMissing_eq provideAuth_eq provideWSEventorToHandlerAdapter_def logged_Some)

text \<open>What the websocket takes for a valid configuration.\<close>

definition validWebsocket :: "(clientConfig \<Rightarrow> gerr option) \<Rightarrow> Identity \<Rightarrow> 'p Websocket \<Rightarrow> bool" where
  "validWebsocket newClient ident cfg \<longleftrightarrow> idDeviceID ident \<noteq> [] \<and> 0 \<le> wcFetchURLTimeout cfg \<and> 0 \<le> wcInactivityTimeout cfg
     \<and> 0 \<le> wcPingWriteTimeout cfg \<and> 0 \<le> wcSendTimeout cfg \<and> 0 \<le> wcKeepAliveInterval cfg \<and> newClient (wcHTTPClient cfg) = None
     \<and> 0 \<le> wcMaxMessageBytes cfg \<and> \<not> (wcDisableV4 cfg \<and> wcDisableV6 cfg)"

lemmas ws_option_defs = CredentialsDecorator_def DeviceID_def FetchURLTimeout_def FetchURL_def InactivityTimeout_def PingWriteTimeout_def
  SendTimeout_def KeepAliveInterval_def HTTPClientWithForceSets_def HTTPClient_def MaxMessageBytes_ws_def ConveyDecorator_def
  AdditionalHeaders_def NowFunc_def WithIPv6_def WithIPv4_def Once_def RetryPolicy_def nonneg_def ws_vadors wsVador_def

lemma headerAdd_first: "h k = Some (v # vs) \<Longrightarrow> \<exists>ws. fold (\<lambda>(k, v). headerAdd k v) hs h k = Some (v # ws)"
proof (induction hs arbitrary: h vs)
  case (Cons x hs)
  obtain k' v' where x: "x = (k', v')" by (cases x)
  have "\<exists>vs'. headerAdd k' v' h k = Some (v # vs')" using Cons.prems by (auto simp: headerAdd_def Let_def)
  then show ?case using Cons.IH x by auto
qed simp

lemma New_ws_options:
  "\<exists>r. New_ws (wsOptions newClient JoinPath now endpoint cred convey ident cfg) = Some r
     \<and> (if validWebsocket newClient ident cfg
        then \<exists>ws h. r = Inr ws \<and> wsId ws = idDeviceID ident \<and> wsUrlFetcher ws = Some (fetchURL JoinPath (wcURLPath cfg) (wcBackUpURL cfg) endpoint)
               \<and> wsWithIPv4 ws = (\<not> wcDisableV4 cfg) \<and> wsWithIPv6 ws = (\<not> wcDisableV6 cfg) \<and> wsMaxMessageBytes ws = wcMaxMessageBytes cfg
               \<and> wsAdditionalHeaders ws = Some h
               \<and> h = fold (\<lambda>(k, v). headerAdd k v) (wcAdditionalHeaders cfg) (headerSet ''X-Webpa-Device-Name'' (idDeviceID ident) Map.empty)
               \<and> wsOnce ws = wcOnce cfg
        else isl r)"
  by (cases cred; cases "wcAdditionalHeaders cfg")
    (auto simp: New_ws_def wsOptions_def ws_option_defs zeroWs_def validWebsocket_def split: option.splits)

text \<open>
  The websocket of the agent: the provider never panics, whatever the additional headers, and succeeds exactly for a valid
  configuration. Then the connection uses the URL of the instructions or the backup URL, the IP modes that are not disabled, of which
  there is one, and the first value of \<open>X-Webpa-Device-Name\<close> is the device, which the configured headers cannot replace.
\<close>

theorem provideWS_spec:
  "\<exists>r. provideWS newClient JoinPath now endpoint cred convey ident cfg = Some r
     \<and> ((\<exists>e. r = Inl e) \<longleftrightarrow> \<not> wcDisable cfg \<and> \<not> validWebsocket newClient ident cfg)
     \<and> (r = Inr None \<longleftrightarrow> wcDisable cfg)
     \<and> (case r of
          Inr (Some ws) \<Rightarrow> wsUrlFetcher ws = Some (fetchURL JoinPath (wcURLPath cfg) (wcBackUpURL cfg) endpoint)
            \<and> (wsWithIPv4 ws \<or> wsWithIPv6 ws) \<and> wsWithIPv4 ws = (\<not> wcDisableV4 cfg) \<and> wsWithIPv6 ws = (\<not> wcDisableV6 cfg)
            \<and> (\<exists>h. wsAdditionalHeaders ws = Some h \<and> headerGet ''X-Webpa-Device-Name'' h = idDeviceID ident)
        | _ \<Rightarrow> True)"
proof (cases "wcDisable cfg")
  case True
  then show ?thesis by (simp add: provideWS_def)
next
  case False
  obtain r where r: "New_ws (wsOptions newClient JoinPath now endpoint cred convey ident cfg) = Some r"
    "if validWebsocket newClient ident cfg
        then \<exists>ws h. r = Inr ws \<and> wsId ws = idDeviceID ident \<and> wsUrlFetcher ws = Some (fetchURL JoinPath (wcURLPath cfg) (wcBackUpURL cfg) endpoint)
               \<and> wsWithIPv4 ws = (\<not> wcDisableV4 cfg) \<and> wsWithIPv6 ws = (\<not> wcDisableV6 cfg) \<and> wsMaxMessageBytes ws = wcMaxMessageBytes cfg
               \<and> wsAdditionalHeaders ws = Some h
               \<and> h = fold (\<lambda>(k, v). headerAdd k v) (wcAdditionalHeaders cfg) (headerSet ''X-Webpa-Device-Name'' (idDeviceID ident) Map.empty)
               \<and> wsOnce ws = wcOnce cfg
        else isl r"
    using New_ws_options by blast
  let ?k = "CanonicalHeaderKey ''X-Webpa-Device-Name''"
  have h: "headerGet ''X-Webpa-Device-Name'' (fold (\<lambda>(k, v). headerAdd k v) hs (headerSet ''X-Webpa-Device-Name'' d Map.empty)) = d" for hs d
    using headerAdd_first[of "headerSet ''X-Webpa-Device-Name'' d Map.empty" ?k d "[]" hs] by (auto simp: headerGet_def headerValues_def headerSet_def)
  show ?thesis
  proof (cases "validWebsocket newClient ident cfg")
    case True
    then have "\<not> (wcDisableV4 cfg \<and> wcDisableV6 cfg)" by (simp add: validWebsocket_def)
    with True False r h show ?thesis by (auto simp: provideWS_def)
  next
    case invalid: False
    with False r show ?thesis by (cases r) (auto simp: provideWS_def)
  qed
qed

definition exampleWebsocket :: "unit Websocket" where
  "exampleWebsocket = \<lparr>wcDisable = False, wcURLPath = [], wcBackUpURL = ''u'', wcAdditionalHeaders = [(''x-webpa-device-name'', ''other'')],
     wcFetchURLTimeout = 0, wcInactivityTimeout = 0, wcPingWriteTimeout = 0, wcSendTimeout = 0,
     wcHTTPClient = \<lparr>ccTimeout = 0, ccIdleConnTimeout = 0, ccTLSHandshakeTimeout = 0, ccExpectContinueTimeout = 0, ccMaxIdleConns = 0,
        ccMaxIdleConnsPerHost = 0, ccMaxConnsPerHost = 0\<rparr>,
     wcKeepAliveInterval = 0, wcMaxMessageBytes = 0, wcDisableV4 = False, wcDisableV6 = True, wcRetryPolicy = (), wcOnce = False\<rparr>"

theorem provideWS_spec_witness:
  "\<exists>ws h. provideWS (\<lambda>_. None) (\<lambda>a b. Inr (a @ b)) (\<lambda>_::unit. 0) None None (\<lambda>w h. (None, h)) exampleIdentity exampleWebsocket = Some (Inr (Some ws))
     \<and> wsAdditionalHeaders ws = Some h \<and> headerGet ''X-Webpa-Device-Name'' h = ''mac:112233445566''"
proof -
  have v: "validWebsocket (\<lambda>_. None) exampleIdentity exampleWebsocket" "\<not> wcDisable exampleWebsocket" "idDeviceID exampleIdentity = ''mac:112233445566''"
    by (simp_all add: validWebsocket_def exampleIdentity_def exampleWebsocket_def)
  obtain r where r: "provideWS (\<lambda>_. None) (\<lambda>a b. Inr (a @ b)) (\<lambda>_::unit. 0) None None (\<lambda>w h. (None, h)) exampleIdentity exampleWebsocket = Some r"
    and c: "(\<exists>e. r = Inl e) \<longleftrightarrow> \<not> wcDisable exampleWebsocket \<and> \<not> validWebsocket (\<lambda>_. None) exampleIdentity exampleWebsocket" "r = Inr None \<longleftrightarrow> wcDisable exampleWebsocket"
    and p: "case r of Inr (Some ws) \<Rightarrow> wsUrlFetcher ws = Some (fetchURL (\<lambda>a b. Inr (a @ b)) (wcURLPath exampleWebsocket) (wcBackUpURL exampleWebsocket) None)
            \<and> (wsWithIPv4 ws \<or> wsWithIPv6 ws) \<and> wsWithIPv4 ws = (\<not> wcDisableV4 exampleWebsocket) \<and> wsWithIPv6 ws = (\<not> wcDisableV6 exampleWebsocket)
            \<and> (\<exists>h. wsAdditionalHeaders ws = Some h \<and> headerGet ''X-Webpa-Device-Name'' h = idDeviceID exampleIdentity) | _ \<Rightarrow> True"
    using provideWS_spec[of "\<lambda>_. None" "\<lambda>a b. Inr (a @ b)" "\<lambda>_::unit. 0" None None "\<lambda>w h. (None, h)" exampleIdentity exampleWebsocket] by blast
  from c v(1,2) obtain ws where "r = Inr (Some ws)" by (metis not_None_eq sum.exhaust)
  with r p v(3) show ?thesis by auto
qed

text \<open>
  The metadata of the agent: with the network service the provider is given, collecting the metadata does not panic, and the
  metadata has every configured field except the available interfaces when they cannot be listed.
\<close>

theorem provideMetadataProvider_safe:
  assumes "provideMetadataProvider timeString seconds (Some ns) ident ops fs = Inr c"
  shows "\<exists>h. GetMetadata getNames c = Some h \<and> (\<forall>f\<in>set fs. f \<noteq> InterfacesAvailable \<longrightarrow> f \<in> dom h) \<and> dom h \<subseteq> set fs"
proof -
  have c: "mdNetworkService c = Some ns" "mdFields c = fs" "list_all (\<lambda>field. field \<in> set validFields) fs"
    using assms by (auto simp: provideMetadataProvider_def New_metadata_def NetworkServiceOpt_def FieldsOpt_def SerialNumberOpt_def
        HardwareModelOpt_def ManufacturerOpt_def FirmwareOpt_def LastRebootReasonOpt_def XmidtProtocolOpt_def BootTimeOpt_def
        BootRetryWaitOpt_def InterfaceUsedOpt_def list_all_iff list_ex_iff split: if_splits)
  have "\<exists>h. addFields getNames c gs h0 = Some h \<and> (\<forall>f\<in>set gs. f \<noteq> InterfacesAvailable \<longrightarrow> f \<in> dom h) \<and> dom h0 \<subseteq> dom h \<and> dom h \<subseteq> dom h0 \<union> set gs"
    if "list_all (\<lambda>field. field \<in> set validFields) gs" for gs h0
    using that
  proof (induction gs arbitrary: h0)
    case (Cons f gs)
    have "\<exists>h. addField getNames c f h0 = Some h \<and> (f \<noteq> InterfacesAvailable \<longrightarrow> f \<in> dom h) \<and> dom h0 \<subseteq> dom h \<and> dom h \<subseteq> insert f (dom h0)"
      using Cons.prems c(1) by (auto simp: addField_def fieldValue_def validFields_def split: sum.split option.split)
    then obtain h1 where h1: "addField getNames c f h0 = Some h1" "f \<noteq> InterfacesAvailable \<longrightarrow> f \<in> dom h1" "dom h0 \<subseteq> dom h1" "dom h1 \<subseteq> insert f (dom h0)" by blast
    from Cons.IH[of h1] Cons.prems obtain h where
      "addFields getNames c gs h1 = Some h" "\<forall>f\<in>set gs. f \<noteq> InterfacesAvailable \<longrightarrow> f \<in> dom h" and d: "dom h1 \<subseteq> dom h" "dom h \<subseteq> dom h1 \<union> set gs" by auto
    moreover have "dom h \<subseteq> dom h0 \<union> set (f # gs)" using d(2) h1(4) by (metis (no_types, opaque_lifting) Un_insert_left Un_insert_right Un_mono list.simps(15) order_refl subset_trans)
    moreover have "dom h0 \<subseteq> dom h" "f \<noteq> InterfacesAvailable \<longrightarrow> f \<in> dom h" using d(1) h1(2,3) by (blast, blast)
    ultimately show ?case using h1(1) by (intro exI[of _ h]) simp
  qed simp
  from this[OF c(3), of Map.empty] c(2) show ?thesis by (auto simp: GetMetadata_def)
qed

theorem provideMetadataProvider_safe_witness:
  "\<exists>c h. provideMetadataProvider (\<lambda>_. []) (\<lambda>_. []) (Some ()) exampleIdentity \<lparr>osLastRebootReason = [], osBootTime = 0, osWebpaInterfaceUsed = []\<rparr> [Firmware] = Inr c
     \<and> GetMetadata (\<lambda>_. Inr []) c = Some h \<and> Firmware \<in> dom h"
proof -
  obtain c where c: "provideMetadataProvider (\<lambda>_. []) (\<lambda>_. []) (Some ()) exampleIdentity
      \<lparr>osLastRebootReason = [], osBootTime = 0, osWebpaInterfaceUsed = []\<rparr> [Firmware] = Inr c"
    by (simp add: provideMetadataProvider_def New_metadata_def NetworkServiceOpt_def FieldsOpt_def SerialNumberOpt_def
        HardwareModelOpt_def ManufacturerOpt_def FirmwareOpt_def LastRebootReasonOpt_def XmidtProtocolOpt_def BootTimeOpt_def
        BootRetryWaitOpt_def InterfaceUsedOpt_def validFields_def)
  have "Firmware \<noteq> InterfacesAvailable" by (simp add: Firmware_def InterfacesAvailable_def)
  with provideMetadataProvider_safe[OF c, of "\<lambda>_. Inr []"] c show ?thesis by auto
qed

end
