(* ===== verification/ConnFlate.thy ===== *)
theory ConnFlate
  imports ConnLink Compress
begin

text \<open>
  Compressed messages: the parts of \<open>read.go\<close>, \<open>write.go\<close> and \<open>compress.go\<close> that a connection with a negotiated compression uses.
  \<open>compress/flate\<close> is an argument: a compressor that hands bytes to the writer below it, and a decompressor that asks for one byte after
  the other. A compressor or decompressor from a pool is reset and so is as a new one. Between them lie the code's own parts: the
  threshold, the writer that holds back the last four bytes, the first reserved bit, the buffered reader in front of the
  decompressor, the four bytes put back at the end of a message, and the window of the last 32768 bytes.
\<close>

subsection \<open>The codec\<close>

text \<open>
  What a decompressor does next: ask for a byte, with the bytes it gives out first if there is none; give out bytes; or fail, also with
  \<open>io.EOF\<close> after a final block.
\<close>

datatype 'd ask = Ask "8 word \<Rightarrow> 'd" bytes | Give "8 word" bytes 'd | Fail gerr

record ('e, 'd) codec =
  eNew :: 'e
  eWrite :: "bytes \<Rightarrow> 'e \<Rightarrow> bytes list \<times> 'e"
  eFlush :: "'e \<Rightarrow> bytes list \<times> 'e"
  dNew :: "bytes \<Rightarrow> 'd"
  dNext :: "'d \<Rightarrow> 'd ask"

definition deflateMessageTail :: bytes where "deflateMessageTail = [0, 0, 255, 255]"

definition ErrNoProgress :: gerr where "ErrNoProgress = Sentinel ''io.ErrNoProgress''"

subsection \<open>Writing\<close>

text \<open>\<open>writeFrame\<close> with its argument \<open>flate\<close>.\<close>

definition flateHeader :: "bool \<Rightarrow> bool \<Rightarrow> bool \<Rightarrow> opcode \<Rightarrow> nat \<Rightarrow> 32 word \<Rightarrow> header" where
  "flateHeader client f flate op n key = (frameHeader client f op n key)\<lparr>rsv1 := flate \<and> (op = opText \<or> op = opBinary)\<rparr>"

definition writeFrameF :: "bool \<Rightarrow> bool \<Rightarrow> opcode \<Rightarrow> bytes \<Rightarrow> conn \<Rightarrow> gerr option \<times> conn" where
  "writeFrameF f flate op p c =
     (if cClosed c then (Some ErrNetClosed, c)
      else if cWroteClose c \<and> op \<noteq> opClose then (Some DeadlineExceeded, c)
      else case nextKey c of
        None \<Rightarrow> failFrame (Wrapped ''failed to generate masking key'' ErrRand) c
      | Some (key, c1) \<Rightarrow>
          (let h = flateHeader (cClient c) f flate op (length p) key
           in case writeFrameHeader h bufWrite (cBw c1) of
                (Some e, w) \<Rightarrow> failFrame e (c1\<lparr>cBw := w\<rparr>)
              | (None, w) \<Rightarrow>
                  (case writeFramePayload h p w of
                     (Some e, w1) \<Rightarrow> failFrame e (c1\<lparr>cBw := w1\<rparr>)
                   | (None, w1) \<Rightarrow>
                       if f
                       then (case Flush w1 of
                               (Some e, w2) \<Rightarrow> failFrame (Wrapped ''failed to flush'' e) (c1\<lparr>cBw := w2\<rparr>)
                             | (None, w2) \<Rightarrow> (None, c1\<lparr>cBw := w2\<rparr>))
                       else (None, c1\<lparr>cBw := w1\<rparr>))))"

text \<open>The message writer: \<open>flate\<close>, the tail of \<open>trimWriter\<close>, and \<open>flateWriter\<close>.\<close>

record 'e fwriter =
  fwConn :: conn
  fwFlate :: bool
  fwTail :: bytes
  fwEnc :: "'e option"

text \<open>\<open>msgWriter.write\<close>, which is also the writer below the trimming one.\<close>

definition dataFrame_mw :: "bool \<Rightarrow> bytes \<Rightarrow> conn \<Rightarrow> gerr option \<times> conn" where
  "dataFrame_mw flate p c =
     (case writeFrameF False flate (mwOpcode c) p c of
        (Some e, c1) \<Rightarrow> (Some (Wrapped ''failed to write data frame'' e), c1)
      | (None, c1) \<Rightarrow> (None, c1\<lparr>mwOpcode := opContinuation\<rparr>))"

definition getFlateWriter :: "('e, 'd) codec \<Rightarrow> 'e" where "getFlateWriter cd = eNew cd"

definition ensureFlate :: "('e, 'd) codec \<Rightarrow> 'e fwriter \<Rightarrow> 'e fwriter" where
  "ensureFlate cd s = s\<lparr>fwEnc := (case fwEnc s of None \<Rightarrow> Some (getFlateWriter cd) | Some e \<Rightarrow> Some e), fwFlate := True\<rparr>"

definition mwResetF :: "opcode \<Rightarrow> 'e fwriter \<Rightarrow> gerr option \<times> 'e fwriter" where
  "mwResetF mt s =
     (if cClosed (fwConn s) then (Some ErrNetClosed, s)
      else (None, s\<lparr>fwConn := (fwConn s)\<lparr>mwOpcode := mt, mwClosed := False\<rparr>, fwFlate := False, fwTail := []\<rparr>))"

text \<open>What the compressor hands to the trimming writer, until an error.\<close>

definition flateOut :: "bytes list \<Rightarrow> 'e fwriter \<Rightarrow> gerr option \<times> 'e fwriter" where
  "flateOut outs s =
     (case trimWrites (dataFrame_mw True) outs (fwTail s, fwConn s) of (err, t, c) \<Rightarrow> (err, s\<lparr>fwTail := t, fwConn := c\<rparr>))"

text \<open>\<open>flateWriter.Write\<close> and \<open>Flush\<close>; a nil compressor does not occur, since \<open>flate\<close> is only set with one.\<close>

definition flateWrite :: "('e, 'd) codec \<Rightarrow> bytes \<Rightarrow> 'e fwriter \<Rightarrow> gerr option \<times> 'e fwriter" where
  "flateWrite cd p s =
     (case fwEnc s of
        None \<Rightarrow> (Some (Plain ''nil''), s)
      | Some e \<Rightarrow> (case eWrite cd p e of (outs, e') \<Rightarrow> flateOut outs (s\<lparr>fwEnc := Some e'\<rparr>)))"

definition flateFlush :: "('e, 'd) codec \<Rightarrow> 'e fwriter \<Rightarrow> gerr option \<times> 'e fwriter" where
  "flateFlush cd s =
     (case fwEnc s of
        None \<Rightarrow> (Some (Plain ''nil''), s)
      | Some e \<Rightarrow> (case eFlush cd e of (outs, e') \<Rightarrow> flateOut outs (s\<lparr>fwEnc := Some e'\<rparr>)))"

definition mwWriteF :: "('e, 'd) codec \<Rightarrow> int \<Rightarrow> bytes \<Rightarrow> 'e fwriter \<Rightarrow> gerr option \<times> 'e fwriter" where
  "mwWriteF cd thr p s =
     (if cClosed (fwConn s) then (Some (Wrapped ''failed to write'' ErrNetClosed), s)
      else if mwClosed (fwConn s) then (Some (Plain ''cannot use closed writer''), s)
      else (let s1 = (if cFlate (fwConn s) \<and> mwOpcode (fwConn s) \<noteq> opContinuation \<and> int (length p) \<ge> thr then ensureFlate cd s else s)
            in case (if fwFlate s1 then flateWrite cd p s1
                     else (case dataFrame_mw False p (fwConn s1) of (err, c) \<Rightarrow> (err, s1\<lparr>fwConn := c\<rparr>))) of
                 (None, s2) \<Rightarrow> (None, s2)
               | (Some e, s2) \<Rightarrow>
                   (let err = Wrapped ''failed to write'' e in (Some err, s2\<lparr>fwConn := closeConn (Some err) (fwConn s2)\<rparr>))))"

definition putFlateWriter :: "'e fwriter \<Rightarrow> 'e fwriter" where "putFlateWriter s = s\<lparr>fwEnc := None\<rparr>"

definition mwCloseF :: "('e, 'd) codec \<Rightarrow> compressionOptions \<Rightarrow> 'e fwriter \<Rightarrow> gerr option \<times> 'e fwriter" where
  "mwCloseF cd opts s =
     (let wrap = errdWrap ''failed to close writer'' in
      if cClosed (fwConn s) then (wrap (Some ErrNetClosed), s)
      else if mwClosed (fwConn s) then (wrap (Some (Plain ''writer already closed'')), s)
      else (let s1 = s\<lparr>fwConn := (fwConn s)\<lparr>mwClosed := True\<rparr>\<rparr>
            in case (if fwFlate s1 then flateFlush cd s1 else (None, s1)) of
                 (Some e, s2) \<Rightarrow> (wrap (Some (Wrapped ''failed to flush flate'' e)), s2)
               | (None, s2) \<Rightarrow>
                   (case writeFrameF True (fwFlate s2) (mwOpcode (fwConn s2)) [] (fwConn s2) of
                      (Some e, c) \<Rightarrow> (wrap (Some (Wrapped ''failed to write fin frame'' e)), s2\<lparr>fwConn := c\<rparr>)
                    | (None, c) \<Rightarrow>
                        (let s3 = s2\<lparr>fwConn := c\<rparr>
                         in (None, if fwFlate s3 \<and> \<not> writerTakeover (cClient c) opts then putFlateWriter s3 else s3)))))"

text \<open>\<open>Writer\<close>, one \<open>Write\<close> for each part, \<open>Close\<close>.\<close>

fun writePartsF :: "('e, 'd) codec \<Rightarrow> compressionOptions \<Rightarrow> int \<Rightarrow> bytes list \<Rightarrow> 'e fwriter \<Rightarrow> gerr option \<times> 'e fwriter" where
  "writePartsF cd opts thr [] s = mwCloseF cd opts s"
| "writePartsF cd opts thr (p # ps) s =
     (case mwWriteF cd thr p s of (Some e, s1) \<Rightarrow> (Some e, s1) | (None, s1) \<Rightarrow> writePartsF cd opts thr ps s1)"

definition writeStreamF :: "('e, 'd) codec \<Rightarrow> compressionOptions \<Rightarrow> int \<Rightarrow> opcode \<Rightarrow> bytes list \<Rightarrow> 'e fwriter \<Rightarrow> gerr option \<times> 'e fwriter" where
  "writeStreamF cd opts thr mt ps s =
     (case mwResetF mt s of
        (Some e, s1) \<Rightarrow> (Some (Wrapped ''failed to get writer'' e), s1)
      | (None, s1) \<Rightarrow> writePartsF cd opts thr ps s1)"

text \<open>\<open>Conn.Write\<close>.\<close>

definition Write_flate :: "('e, 'd) codec \<Rightarrow> compressionOptions \<Rightarrow> int \<Rightarrow> opcode \<Rightarrow> bytes \<Rightarrow> 'e fwriter \<Rightarrow> gerr option \<times> 'e fwriter" where
  "Write_flate cd opts thr mt p s =
     (let wrap = errdWrap ''failed to write msg'' in
      case mwResetF mt s of
        (Some e, s1) \<Rightarrow> (wrap (Some e), s1)
      | (None, s1) \<Rightarrow>
          if \<not> cFlate (fwConn s1)
          then (case writeFrameF True False (mwOpcode (fwConn s1)) p (fwConn s1) of (err, c) \<Rightarrow> (wrap err, s1\<lparr>fwConn := c\<rparr>))
          else (case mwWriteF cd thr p s1 of
                  (Some e, s2) \<Rightarrow> (wrap (Some e), s2)
                | (None, s2) \<Rightarrow> (case mwCloseF cd opts s2 of (err, s3) \<Rightarrow> (wrap err, s3))))"

subsection \<open>Reading\<close>

text \<open>
  The message reader: \<open>flate\<close>, the decompressor with the bytes it has not given out yet and either its state or its error, what
  \<open>flateBufio\<close> holds, what is left of \<open>flateTail\<close>, and the window.
\<close>

record 'd freader =
  frConn :: conn
  frFlate :: bool
  frDec :: "bytes \<times> ('d + gerr)"
  frBufio :: bytes
  frTail :: bytes
  frDict :: "slidingWindow option"

text \<open>\<open>msgReader.read\<close>.\<close>

function msgReadF :: "nat \<Rightarrow> 'd freader \<Rightarrow> (gerr + bytes) \<times> 'd freader" where
  "msgReadF n s =
     (let c = frConn s in
      if mrPayloadLength c = 0
      then if mrFin c
           then if frFlate s
                then (if frTail s = [] then (Inl EOF, s) else (Inr (take n (frTail s)), s\<lparr>frTail := drop n (frTail s)\<rparr>))
                else (Inl EOF, s)
           else (case readLoop c of
                   (Inl e, c1) \<Rightarrow> (Inl e, s\<lparr>frConn := c1\<rparr>)
                 | (Inr h, c1) \<Rightarrow>
                     if hopcode h \<noteq> opContinuation
                     then (let err = Plain ''received new data message without finishing the previous message''
                           in (Inl err, s\<lparr>frConn := writeError StatusProtocolError err c1\<rparr>))
                     else msgReadF n (s\<lparr>frConn := setFrame h c1\<rparr>))
      else case readFramePayload (min n (mrPayloadLength c)) c of
        (Inl e, c1) \<Rightarrow> (Inl e, s\<lparr>frConn := c1\<rparr>)
      | (Inr b, c1) \<Rightarrow>
          (let c2 = c1\<lparr>mrPayloadLength := mrPayloadLength c1 - length b\<rparr>
           in if cClient c then (Inr b, s\<lparr>frConn := c2\<rparr>)
              else (case mask_frame (mrMaskKey c2) b of (m, key) \<Rightarrow> (Inr m, s\<lparr>frConn := c2\<lparr>mrMaskKey := key\<rparr>\<rparr>))))"
  by pat_completeness auto
termination
  by (relation "measure (\<lambda>(n, s). length (cIn (frConn s)))") (auto simp: setFrame_def dest: readLoop_shorter[OF sym])

declare msgReadF.simps [simp del]

text \<open>The buffered reader gives the decompressor its next byte; it reads up to 4096 bytes when it is empty.\<close>

definition pullByte :: "'d freader \<Rightarrow> (gerr + 8 word) \<times> 'd freader" where
  "pullByte s =
     (case frBufio s of
        b # bs \<Rightarrow> (Inr b, s\<lparr>frBufio := bs\<rparr>)
      | [] \<Rightarrow>
          (case msgReadF 4096 s of
             (Inl e, s1) \<Rightarrow> (Inl e, s1)
           | (Inr [], s1) \<Rightarrow> (Inl ErrNoProgress, s1)
           | (Inr (b # bs), s1) \<Rightarrow> (Inr b, s1\<lparr>frBufio := bs\<rparr>)))"

definition noEOF :: "gerr \<Rightarrow> gerr" where "noEOF e = (if e = EOF then ErrUnexpectedEOF else e)"

text \<open>The bytes a decompressor can still be given.\<close>

definition unread :: "'d freader \<Rightarrow> nat" where
  "unread s = length (frBufio s) + length (cIn (frConn s)) + length (frTail s)"


lemma mask_length: "mask_frame key b = (m, key') \<Longrightarrow> length m = length b"
  using mask_frame_length[of key b] by simp

lemma msgReadF_supply:
  "msgReadF n s = (Inr b, s') \<Longrightarrow> length b + length (cIn (frConn s')) + length (frTail s') \<le> length (cIn (frConn s)) + length (frTail s)"
proof (induction n s arbitrary: b s' rule: msgReadF.induct)
  case (1 n s)
  show ?case
  proof (cases "mrPayloadLength (frConn s) = 0 \<and> \<not> mrFin (frConn s)")
    case True
    with 1(2) obtain h c1 where l: "readLoop (frConn s) = (Inr h, c1)" "hopcode h = opContinuation" "msgReadF n (s\<lparr>frConn := setFrame h c1\<rparr>) = (Inr b, s')"
      by (subst (asm) msgReadF.simps) (auto simp: Let_def split: if_splits prod.splits sum.splits)
    from 1(1)[OF refl _ _ l(1)[symmetric] refl _ l(3)] True l(2) show ?thesis using readLoop_shorter[OF l(1)] by (simp add: setFrame_def)
  next
    case False
    with 1(2) show ?thesis
      by (subst (asm) msgReadF.simps)
        (auto simp: readFramePayload_def ReadFull_def Let_def split: if_splits prod.splits sum.splits dest: mask_length)
  qed
qed

lemma pullByte_supply: "pullByte s = (Inr b, s') \<Longrightarrow> unread s' < unread s"
  by (auto simp: pullByte_def unread_def split: list.splits prod.splits sum.splits dest!: msgReadF_supply)

text \<open>The decompressor until it has bytes to give out or fails.\<close>

function flateLoop :: "('e, 'd) codec \<Rightarrow> 'd \<Rightarrow> 'd freader \<Rightarrow> (bytes \<times> ('d + gerr)) \<times> 'd freader" where
  "flateLoop cd d s =
     (case dNext cd d of
        Fail e \<Rightarrow> (([], Inr e), s)
      | Give b bs d' \<Rightarrow> ((b # bs, Inl d'), s)
      | Ask k held \<Rightarrow>
          (case pullByte s of
             (Inl e, s1) \<Rightarrow> ((held, Inr (noEOF e)), s1)
           | (Inr b, s1) \<Rightarrow> flateLoop cd (k b) s1))"
  by pat_completeness auto
termination
  by (relation "measure (\<lambda>(cd, d, s). unread s)") (auto dest: pullByte_supply[OF sym])

declare flateLoop.simps [simp del]

text \<open>\<open>Read\<close> of the decompressor into a buffer of \<open>n\<close> bytes.\<close>

definition flateRead :: "('e, 'd) codec \<Rightarrow> nat \<Rightarrow> 'd freader \<Rightarrow> (gerr + bytes) \<times> 'd freader" where
  "flateRead cd n s =
     (case (case frDec s of ([], Inl d) \<Rightarrow> flateLoop cd d s | dec \<Rightarrow> (dec, s)) of
        (([], Inr e), s1) \<Rightarrow> (Inl e, s1\<lparr>frDec := ([], Inr e)\<rparr>)
      | ((pend, nxt), s1) \<Rightarrow> (Inr (take n pend), s1\<lparr>frDec := (drop n pend, nxt)\<rparr>))"

text \<open>\<open>limitReader.Read\<close>, above the decompressor or \<open>msgReader.read\<close>.\<close>

definition limitReadF :: "('e, 'd) codec \<Rightarrow> nat \<Rightarrow> 'd freader \<Rightarrow> (gerr + bytes) \<times> 'd freader" where
  "limitReadF cd n s =
     (let c = frConn s; rd = (\<lambda>m. if frFlate s then flateRead cd m s else msgReadF m s) in
      if lrN c < 0 then rd n
      else if lrN c = 0
      then (let err = Plain (''read limited at '' @ show_int (lrLimit c) @ '' bytes'')
            in (Inl err, s\<lparr>frConn := writeError StatusMessageTooBig err c\<rparr>))
      else case rd (min n (nat (lrN c))) of
        (Inl e, s1) \<Rightarrow> (Inl e, s1)
      | (Inr b, s1) \<Rightarrow> (Inr b, s1\<lparr>frConn := (frConn s1)\<lparr>lrN := max 0 (lrN (frConn s1) - int (length b))\<rparr>\<rparr>))"

definition dictWrite :: "bytes \<Rightarrow> 'd freader \<Rightarrow> 'd freader" where
  "dictWrite p s = s\<lparr>frDict := map_option (swWrite p) (frDict s)\<rparr>"

definition mrReadF :: "('e, 'd) codec \<Rightarrow> compressionOptions \<Rightarrow> nat \<Rightarrow> 'd freader \<Rightarrow> (gerr + bytes) \<times> 'd freader" where
  "mrReadF cd opts n s =
     (if cClosed (frConn s) then (Inl (Wrapped ''failed to read'' ErrNetClosed), s)
      else case limitReadF cd n s of
        (r, s1) \<Rightarrow>
          (let s2 = (if frFlate s1 \<and> readerTakeover (cClient (frConn s1)) opts then dictWrite (case r of Inl _ \<Rightarrow> [] | Inr b \<Rightarrow> b) s1 else s1)
           in case r of
                Inr b \<Rightarrow> (Inr b, s2)
              | Inl e \<Rightarrow>
                  if errIs e ''io.EOF'' \<or> errIs e ''io.ErrUnexpectedEOF'' \<and> mrFin (frConn s2) \<and> frFlate s2 then (Inl EOF, s2)
                  else (let err = Wrapped ''failed to read'' e in (Inl err, s2\<lparr>frConn := closeConn (Some err) (frConn s2)\<rparr>))))"

definition getFlateReader :: "('e, 'd) codec \<Rightarrow> bytes \<Rightarrow> bytes \<times> ('d + gerr)" where
  "getFlateReader cd dict = ([], Inl (dNew cd dict))"

definition emptyWindow :: slidingWindow where "emptyWindow = \<lparr>swBuf = None, swCap = 0\<rparr>"

text \<open>The window of a connection: one from the pool is as empty as a new one.\<close>

definition resetFlate :: "('e, 'd) codec \<Rightarrow> compressionOptions \<Rightarrow> 'd freader \<Rightarrow> 'd freader" where
  "resetFlate cd opts s =
     (if readerTakeover (cClient (frConn s)) opts
      then (let sw = swInit 32768 None (case frDict s of None \<Rightarrow> emptyWindow | Some w \<Rightarrow> w)
            in s\<lparr>frDict := Some sw, frDec := getFlateReader cd (case swBuf sw of None \<Rightarrow> [] | Some b \<Rightarrow> b), frTail := deflateMessageTail\<rparr>)
      else s\<lparr>frDec := getFlateReader cd [], frTail := deflateMessageTail\<rparr>)"

definition mrResetF :: "('e, 'd) codec \<Rightarrow> compressionOptions \<Rightarrow> header \<Rightarrow> 'd freader \<Rightarrow> 'd freader" where
  "mrResetF cd opts h s =
     (let s1 = s\<lparr>frFlate := rsv1 h, frConn := (frConn s)\<lparr>lrN := lrLimit (frConn s)\<rparr>\<rparr>;
          s2 = (if rsv1 h then resetFlate cd opts s1 else s1)
      in s2\<lparr>frConn := setFrame h (frConn s2)\<rparr>)"

definition readerF :: "('e, 'd) codec \<Rightarrow> compressionOptions \<Rightarrow> 'd freader \<Rightarrow> (gerr + opcode) \<times> 'd freader" where
  "readerF cd opts s =
     (let wrap = Wrapped ''failed to get reader''; c = frConn s in
      if cClosed c then (Inl (wrap ErrNetClosed), s)
      else if \<not> mrFin c
      then (let err = Plain ''previous message not read to completion''
            in (Inl (wrap err), s\<lparr>frConn := closeConn (Some (wrap err)) c\<rparr>))
      else case readLoop c of
        (Inl e, c1) \<Rightarrow> (Inl (wrap e), s\<lparr>frConn := c1\<rparr>)
      | (Inr h, c1) \<Rightarrow>
          if hopcode h = opContinuation
          then (let err = Plain ''received continuation frame without text or binary frame''
                in (Inl (wrap err), s\<lparr>frConn := writeError StatusProtocolError err c1\<rparr>))
          else (Inr (hopcode h), mrResetF cd opts h (s\<lparr>frConn := c1\<rparr>)))"

text \<open>\<open>io.ReadAll\<close>, which a decompressor could keep busy for ever; \<open>None\<close> if it does.\<close>

partial_function (option) readAllF ::
  "('e, 'd) codec \<Rightarrow> compressionOptions \<Rightarrow> (nat \<Rightarrow> nat) \<Rightarrow> bytes \<Rightarrow> 'd freader \<Rightarrow> ((gerr + bytes) \<times> 'd freader) option" where
  "readAllF cd opts sz acc s =
     (case mrReadF cd opts (Suc (sz (length acc))) s of
        (Inr b, s1) \<Rightarrow> readAllF cd opts sz (acc @ b) s1
      | (Inl e, s1) \<Rightarrow> Some (if e = EOF then Inr acc else Inl e, s1))"

declare readAllF.simps [code]

definition Read_flate :: "('e, 'd) codec \<Rightarrow> compressionOptions \<Rightarrow> (nat \<Rightarrow> nat) \<Rightarrow> 'd freader \<Rightarrow> ((gerr + opcode \<times> bytes) \<times> 'd freader) option" where
  "Read_flate cd opts sz s =
     (case readerF cd opts s of
        (Inl e, s1) \<Rightarrow> Some (Inl e, s1)
      | (Inr mt, s1) \<Rightarrow>
          map_option (\<lambda>(r, s2). (case r of Inl e \<Rightarrow> Inl e | Inr b \<Rightarrow> Inr (mt, b), s2)) (readAllF cd opts sz [] s1))"

text \<open>\<open>msgReader.close\<close>: the window goes back to its pool.\<close>

definition mrCloseF :: "'d freader \<Rightarrow> slidingWindow option \<times> 'd freader" where
  "mrCloseF s = (map_option swClose (frDict s), s\<lparr>frDict := None\<rparr>)"


subsection \<open>The reader below the decompressor\<close>

text \<open>\<open>readLoop\<close> does not touch the position in the message.\<close>

lemma mrFin_handleControl: "mrFin (snd (handleControl h c)) = mrFin c"
  by (auto simp: handleControl_def readFramePayload_def handlePing_def handlePong_def handleClose_def addEvent_def closeConn_def setCloseErr_def Let_def
      ioStep_fields(3)[OF ioStep_writeControl] ioStep_fields(3)[OF ioStep_writeClose] ioStep_fields(3)[OF ioStep_writeError] split: sum.splits)

lemma mrFin_readLoop: "mrFin (snd (readLoop c)) = mrFin c"
proof (induction c rule: readLoop.induct)
  case (1 c)
  obtain x c1 where x: "readFrameHeader_conn c = (x, c1)" by (cases "readFrameHeader_conn c")
  then have f1: "mrFin c1 = mrFin c" by (auto simp: readFrameHeader_conn_def closeConn_def split: if_splits sum.splits)
  show ?case
  proof (cases x)
    case (Inr h)
    obtain e c2 where hc: "handleControl h c1 = (e, c2)" by (cases "handleControl h c1")
    have f2: "mrFin c2 = mrFin c1" using mrFin_handleControl[of h c1] hc by simp
    show ?thesis using x Inr f1 f2 hc 1[OF x[symmetric] Inr]
      by (subst readLoop.simps) (auto simp: Let_def ioStep_fields(3)[OF ioStep_writeError] split: option.splits)
  qed (use x f1 in \<open>subst readLoop.simps, auto\<close>)
qed

text \<open>Before the end of a compressed message its reader is that of an uncompressed one; at the end it goes on with the tail.\<close>

lemma msgReadF_msgRead:
  assumes "msgRead n c = (r, c1)" and "frConn s = c"
  shows "(\<forall>b. r = Inr b \<longrightarrow> msgReadF n s = (Inr b, s\<lparr>frConn := c1\<rparr>)) \<and>
    (mrFin c1 \<and> mrPayloadLength c1 = 0 \<and> r = Inl EOF \<longrightarrow> msgReadF n s = msgReadF n (s\<lparr>frConn := c1\<rparr>))"
  using assms
proof (induction n c arbitrary: s r rule: msgRead.induct)
  case (1 n c)
  have id: "s\<lparr>frConn := c\<rparr> = s" using 1(3) by (cases s) simp
  consider (payload) "mrPayloadLength c \<noteq> 0" | (fin) "mrPayloadLength c = 0" "mrFin c" | (frame) "mrPayloadLength c = 0" "\<not> mrFin c" by blast
  then show ?case
  proof cases
    case payload
    then show ?thesis using 1(2,3)
      by (subst (asm) msgRead.simps, subst msgReadF.simps)
        (auto simp: readFramePayload_def closeConn_def Let_def split: if_splits prod.splits sum.splits)
  next
    case fin
    then have "r = Inl EOF" "c1 = c" using 1(2) by (subst (asm) msgRead.simps, simp)+
    then show ?thesis by (simp add: id)
  next
    case frame
    obtain x c2 where x: "readLoop c = (x, c2)" by (cases "readLoop c")
    have nf: "\<not> mrFin c2" using frame mrFin_readLoop[of c] x by simp
    show ?thesis
    proof (cases "\<exists>h. x = Inr h \<and> hopcode h = opContinuation")
      case True
      then obtain h where h: "x = Inr h" "hopcode h = opContinuation" by blast
      have "msgRead n (setFrame h c2) = (r, c1)" using 1(2) frame x h by (subst (asm) msgRead.simps) simp
      from 1(1)[OF frame x[symmetric] h(1) _ this, of "s\<lparr>frConn := setFrame h c2\<rparr>"] h(2)
      have "(\<forall>b. r = Inr b \<longrightarrow> msgReadF n (s\<lparr>frConn := setFrame h c2\<rparr>) = (Inr b, s\<lparr>frConn := c1\<rparr>)) \<and>
        (mrFin c1 \<and> mrPayloadLength c1 = 0 \<and> r = Inl EOF \<longrightarrow> msgReadF n (s\<lparr>frConn := setFrame h c2\<rparr>) = msgReadF n (s\<lparr>frConn := c1\<rparr>))"
        by simp
      moreover have "msgReadF n s = msgReadF n (s\<lparr>frConn := setFrame h c2\<rparr>)" using frame x h 1(3) by (subst msgReadF.simps) simp
      ultimately show ?thesis by simp
    next
      case False
      have "\<exists>e. r = Inl e \<and> mrFin c1 = mrFin c2"
        using 1(2) frame x False by (subst (asm) msgRead.simps) (auto simp: Let_def ioStep_fields(3)[OF ioStep_writeError] split: sum.splits if_splits)
      with nf show ?thesis by auto
    qed
  qed
qed

text \<open>What stays the same while a message is read.\<close>

definition near :: "'d freader \<Rightarrow> 'd freader \<Rightarrow> bool" where
  "near s s' \<longleftrightarrow> cClient (frConn s') = cClient (frConn s) \<and> lrLimit (frConn s') = lrLimit (frConn s) \<and> cFlate (frConn s') = cFlate (frConn s)
     \<and> lrN (frConn s') = lrN (frConn s) \<and> frDict s' = frDict s"

lemma near_trans: "near s s' \<Longrightarrow> near s' s'' \<Longrightarrow> near s s''"
  by (simp add: near_def)

lemma near_served: "served past (frConn s) c' \<Longrightarrow> lrN c' = lrN (frConn s) \<Longrightarrow> near s (s\<lparr>frConn := c'\<rparr>)"
  by (simp add: near_def served_def)

text \<open>The bytes \<open>z\<close> that the decompressor will be given for the rest of the message; \<open>rest\<close> is what comes after the message.\<close>

definition feeding :: "'d freader \<Rightarrow> bytes \<Rightarrow> bytes \<Rightarrow> bool" where
  "feeding s z rest \<longleftrightarrow> frFlate s \<and> connOK (frConn s) \<and>
     (\<exists>q items. positioned (frConn s) q items rest \<and> keysFor items (frConn s) \<and> z = frBufio s @ q @ partsOf items @ frTail s)"

lemma msgReadF_feeding:
  assumes "feeding s z rest" and "frBufio s = []"
  shows "(\<exists>b s'. msgReadF 4096 s = (Inr b, s') \<and> b \<noteq> [] \<and> frBufio s' = [] \<and> near s s' \<and> (\<exists>z'. z = b @ z' \<and> feeding s' z' rest))
    \<or> z = [] \<and> (\<exists>s'. msgReadF 4096 s = (Inl EOF, s') \<and> near s s' \<and> feeding s' [] rest \<and> positioned (frConn s') [] [] rest)"
proof -
  from assms obtain q items where f: "frFlate s" "connOK (frConn s)" "positioned (frConn s) q items rest" "keysFor items (frConn s)"
    "z = q @ partsOf items @ frTail s" by (auto simp: feeding_def)
  have n: "0 < (4096 :: nat)" by simp
  from msgRead_message[OF f(3,2,4) n] show ?thesis
  proof (elim disjE exE conjE)
    fix b c' q' items' past
    assume d: "msgRead 4096 (frConn s) = (Inr b, c')" "b \<noteq> []" "items = past @ items'" "positioned c' q' items' rest" "served past (frConn s) c'"
      "q @ partsOf items = b @ q' @ partsOf items'" "lrN c' = lrN (frConn s)"
    let ?s = "s\<lparr>frConn := c'\<rparr>"
    have "msgReadF 4096 s = (Inr b, ?s)" using msgReadF_msgRead[OF d(1) refl] by simp
    moreover have "connOK c'" "keysFor items' c'" using d(5) keysFor_append[of past items' "frConn s" c'] f(4) d(3) by (auto simp: served_def)
    then have "feeding ?s (q' @ partsOf items' @ frTail s) rest" using d(4) f(1) assms(2) by (auto simp: feeding_def)
    moreover have "z = b @ q' @ partsOf items' @ frTail s" using f(5) d(6) by (metis append.assoc)
    ultimately show ?thesis using d(2) near_served[OF d(5,7)] assms(2) by auto
  next
    fix c'
    assume e: "msgRead 4096 (frConn s) = (Inl EOF, c')" "q @ partsOf items = []" "served items (frConn s) c'" "positioned c' [] [] rest" "lrN c' = lrN (frConn s)"
    let ?s = "s\<lparr>frConn := c'\<rparr>"
    have fin: "mrFin c'" "mrPayloadLength c' = 0" "connOK c'" using e(3,4) by (auto simp: positioned_def served_def)
    have m: "msgReadF 4096 s = msgReadF 4096 ?s" using msgReadF_msgRead[OF e(1) refl] fin(1,2) by simp
    have z: "z = frTail s" using f(5) e(2) by simp
    have k: "keysFor [] c'" by (simp add: keysFor_def)
    show ?thesis
    proof (cases "frTail s")
      case Nil
      then have "msgReadF 4096 ?s = (Inl EOF, ?s)" using fin f(1) by (subst msgReadF.simps) simp
      moreover have "feeding ?s [] rest" using e(4) f(1) fin(3) Nil assms(2) k by (auto simp: feeding_def)
      ultimately show ?thesis using m z Nil near_served[OF e(3,5)] e(4) by auto
    next
      case (Cons t ts)
      let ?s' = "?s\<lparr>frTail := drop 4096 (frTail s)\<rparr>"
      have "msgReadF 4096 s = (Inr (take 4096 (frTail s)), ?s')" using m fin f(1) Cons by (subst (asm) (2) msgReadF.simps) simp
      moreover have "feeding ?s' (drop 4096 (frTail s)) rest" using e(4) f(1) fin(3) assms(2) k
        unfolding feeding_def by (intro conjI exI[of _ "[]"] exI[of _ "[] :: wireItem list"]) simp_all
      moreover have "near s ?s'" using near_served[OF e(3,5)] by (simp add: near_def)
      moreover have "z = take 4096 (frTail s) @ drop 4096 (frTail s)" using z by simp
      moreover have "take 4096 (frTail s) \<noteq> []" "frBufio ?s' = []" using Cons assms(2) by simp_all
      ultimately show ?thesis by blast
    qed
  qed
qed

lemma feeding_bufio: "feeding s z rest \<Longrightarrow> frBufio s = [] \<Longrightarrow> feeding (s\<lparr>frBufio := b\<rparr>) (b @ z) rest"
  by (auto simp: feeding_def)

lemma pullByte_feeding:
  assumes "feeding s (b # z) rest"
  shows "\<exists>s'. pullByte s = (Inr b, s') \<and> feeding s' z rest \<and> near s s'"
proof (cases "frBufio s")
  case (Cons b' bs)
  with assms have "b' = b" "feeding (s\<lparr>frBufio := bs\<rparr>) z rest" by (auto simp: feeding_def)
  with Cons show ?thesis by (simp add: pullByte_def near_def)
next
  case Nil
  from msgReadF_feeding[OF assms Nil] obtain b' s1 z' where m: "msgReadF 4096 s = (Inr b', s1)" "b' \<noteq> []" "near s s1" "frBufio s1 = []"
    "b # z = b' @ z'" "feeding s1 z' rest" by blast
  from m(2,5) obtain bs where b: "b' = b # bs" "z = bs @ z'" by (cases b') auto
  have "feeding (s1\<lparr>frBufio := bs\<rparr>) z rest" using feeding_bufio[OF m(6,4)] b(2) by simp
  moreover have "near s (s1\<lparr>frBufio := bs\<rparr>)" using m(3) by (simp add: near_def)
  ultimately show ?thesis using Nil m(1) b(1) by (simp add: pullByte_def)
qed

lemma pullByte_end:
  assumes "feeding s [] rest"
  shows "\<exists>s'. pullByte s = (Inl EOF, s') \<and> feeding s' [] rest \<and> near s s' \<and> positioned (frConn s') [] [] rest"
proof -
  have n: "frBufio s = []" using assms by (auto simp: feeding_def)
  from msgReadF_feeding[OF assms n] n show ?thesis by (auto simp: pullByte_def)
qed


subsection \<open>The decompressor\<close>

text \<open>From \<open>d\<close>, given the bytes \<open>z\<close>, the decompressor gives out the bytes \<open>out\<close> and comes to \<open>d'\<close>.\<close>

inductive decodes :: "('e, 'd) codec \<Rightarrow> 'd \<Rightarrow> bytes \<Rightarrow> bytes \<Rightarrow> 'd \<Rightarrow> bool" for cd where
  DoneAll: "decodes cd d [] [] d"
| Asks: "dNext cd d = Ask k held \<Longrightarrow> decodes cd (k b) z out d' \<Longrightarrow> decodes cd d (b # z) out d'"
| Gives: "dNext cd d = Give b bs d1 \<Longrightarrow> decodes cd d1 z out d' \<Longrightarrow> decodes cd d z ((b # bs) @ out) d'"

text \<open>All of \<open>z\<close> is the form of \<open>out\<close>: the decompressor has given out everything and asks for more.\<close>

definition decodesAll :: "('e, 'd) codec \<Rightarrow> 'd \<Rightarrow> bytes \<Rightarrow> bytes \<Rightarrow> bool" where
  "decodesAll cd d z out \<longleftrightarrow> (\<exists>d' k. decodes cd d z out d' \<and> dNext cd d' = Ask k [])"

lemma flateLoop_gives:
  assumes "decodes cd d z out d'" and "feeding s z rest" and "out \<noteq> []"
  shows "\<exists>b bs d1 z1 out1 s'. flateLoop cd d s = ((b # bs, Inl d1), s') \<and> out = (b # bs) @ out1 \<and> decodes cd d1 z1 out1 d'
    \<and> feeding s' z1 rest \<and> near s s'"
  using assms
proof (induction arbitrary: s rule: decodes.induct)
  case (Asks d k held b z out d')
  from pullByte_feeding[OF Asks.prems(1)] obtain s1 where s1: "pullByte s = (Inr b, s1)" "feeding s1 z rest" "near s s1" by blast
  have "flateLoop cd d s = flateLoop cd (k b) s1" using Asks.hyps(1) s1(1) by (subst flateLoop.simps) simp
  with Asks.IH[OF s1(2) Asks.prems(2)] near_trans[OF s1(3)] show ?case by metis
next
  case (Gives d b bs d1 z out d')
  have "flateLoop cd d s = ((b # bs, Inl d1), s)" using Gives.hyps(1) by (subst flateLoop.simps) simp
  moreover have "near s s" by (simp add: near_def)
  ultimately show ?case using Gives.hyps(2) Gives.prems(1) by blast
qed simp

lemma flateLoop_ends:
  assumes "decodes cd d z out d'" and "out = []" and "dNext cd d' = Ask k []" and "feeding s z rest"
  shows "\<exists>s'. flateLoop cd d s = (([], Inr ErrUnexpectedEOF), s') \<and> feeding s' [] rest \<and> near s s' \<and> positioned (frConn s') [] [] rest"
  using assms
proof (induction arbitrary: s rule: decodes.induct)
  case (DoneAll d)
  from pullByte_end[OF DoneAll(3)] obtain s1 where "pullByte s = (Inl EOF, s1)" "feeding s1 [] rest" "near s s1" "positioned (frConn s1) [] [] rest"
    by blast
  with DoneAll(2) show ?case by (subst flateLoop.simps) (simp add: noEOF_def)
next
  case (Asks d k' held b z out d')
  from pullByte_feeding[OF Asks.prems(3)] obtain s1 where s1: "pullByte s = (Inr b, s1)" "feeding s1 z rest" "near s s1" by blast
  have "flateLoop cd d s = flateLoop cd (k' b) s1" using Asks.hyps(1) s1(1) by (subst flateLoop.simps) simp
  with Asks.IH[OF Asks.prems(1,2) s1(2)] near_trans[OF s1(3)] show ?case by metis
qed simp

text \<open>Inside a compressed message of which \<open>out\<close> has not been read.\<close>

definition inflating :: "('e, 'd) codec \<Rightarrow> 'd freader \<Rightarrow> bytes \<Rightarrow> bytes \<Rightarrow> bool" where
  "inflating cd s out rest \<longleftrightarrow> (\<exists>pend d z out'. frDec s = (pend, Inl d) \<and> decodesAll cd d z out' \<and> feeding s z rest \<and> out = pend @ out')"

lemma feeding_frDec [simp]: "feeding (s\<lparr>frDec := d\<rparr>) z rest = feeding s z rest"
  by (simp add: feeding_def)

lemma near_frDec [simp]: "near s (s'\<lparr>frDec := d\<rparr>) = near s s'"
  by (simp add: near_def)

lemma inflating_feeding: "inflating cd s out rest \<Longrightarrow> frFlate s \<and> connOK (frConn s)"
  by (auto simp: inflating_def feeding_def)

lemma flateRead_message:
  assumes "inflating cd s out rest" and "0 < n" and "out \<noteq> []"
  shows "\<exists>b s' out'. flateRead cd n s = (Inr b, s') \<and> b \<noteq> [] \<and> out = b @ out' \<and> inflating cd s' out' rest \<and> near s s'"
proof -
  from assms(1) obtain pend d z o' where i: "frDec s = (pend, Inl d)" "decodesAll cd d z o'" "feeding s z rest" "out = pend @ o'"
    by (auto simp: inflating_def)
  show ?thesis
  proof (cases pend)
    case (Cons p ps)
    let ?s = "s\<lparr>frDec := (drop n pend, Inl d)\<rparr>"
    have r: "flateRead cd n s = (Inr (take n pend), ?s)" using i(1) Cons by (simp add: flateRead_def)
    have "inflating cd ?s (drop n pend @ o') rest" using i(2,3) unfolding inflating_def by auto
    moreover have "out = take n pend @ drop n pend @ o'" using i(4) by simp
    moreover have "take n pend \<noteq> []" using Cons assms(2) by simp
    moreover have "near s ?s" by (simp add: near_def)
    ultimately show ?thesis using r by blast
  next
    case Nil
    from i(2) obtain d' k where d': "decodes cd d z o' d'" "dNext cd d' = Ask k []" by (auto simp: decodesAll_def)
    from i(4) Nil assms(3) have "o' \<noteq> []" by simp
    from flateLoop_gives[OF d'(1) i(3) this] obtain b bs d1 z1 out1 s1 where
      l: "flateLoop cd d s = ((b # bs, Inl d1), s1)" "o' = (b # bs) @ out1" "decodes cd d1 z1 out1 d'" "feeding s1 z1 rest" "near s s1" by blast
    let ?s = "s1\<lparr>frDec := (drop n (b # bs), Inl d1)\<rparr>"
    have r: "flateRead cd n s = (Inr (take n (b # bs)), ?s)" using i(1) Nil l(1) by (simp add: flateRead_def)
    have "decodesAll cd d1 z1 out1" using l(3) d'(2) by (auto simp: decodesAll_def)
    then have "inflating cd ?s (drop n (b # bs) @ out1) rest" using l(4) unfolding inflating_def by auto
    moreover have "out = take n (b # bs) @ drop n (b # bs) @ out1" using i(4) Nil l(2) by (metis append.assoc append_Nil append_take_drop_id)
    moreover have "take n (b # bs) \<noteq> []" using assms(2) by simp
    ultimately show ?thesis using r l(5) near_frDec by blast
  qed
qed

text \<open>The reader between two messages; the bytes of the next one are \<open>rest\<close>.\<close>

definition between :: "'d freader \<Rightarrow> bytes \<Rightarrow> bool" where
  "between s rest \<longleftrightarrow> idle (frConn s) \<and> frBufio s = [] \<and> cIn (frConn s) = rest"

lemma flateRead_end:
  assumes "inflating cd s [] rest"
  shows "\<exists>s'. flateRead cd n s = (Inl ErrUnexpectedEOF, s') \<and> between s' rest \<and> near s s' \<and> frFlate s'"
proof -
  from assms obtain d z where i: "frDec s = ([], Inl d)" "decodesAll cd d z []" "feeding s z rest" by (auto simp: inflating_def)
  from i(2) obtain d' k where d': "decodes cd d z [] d'" "dNext cd d' = Ask k []" by (auto simp: decodesAll_def)
  from flateLoop_ends[OF d'(1) refl d'(2) i(3)] obtain s1 where
    l: "flateLoop cd d s = (([], Inr ErrUnexpectedEOF), s1)" "feeding s1 [] rest" "near s s1" "positioned (frConn s1) [] [] rest" by blast
  let ?s = "s1\<lparr>frDec := ([], Inr ErrUnexpectedEOF)\<rparr>"
  have "flateRead cd n s = (Inl ErrUnexpectedEOF, ?s)" using i(1) l(1) by (simp add: flateRead_def)
  moreover have "between ?s rest" "frFlate ?s" using l(2,4) by (auto simp: between_def idle_def feeding_def positioned_def)
  ultimately show ?thesis using l(3) near_frDec by blast
qed


subsection \<open>A compressed message\<close>

lemma feeding_lrN [simp]: "feeding (s\<lparr>frConn := (frConn s)\<lparr>lrN := x\<rparr>\<rparr>) z rest = feeding s z rest"
  by (simp add: feeding_def connOK_def keysFor_def)

lemma feeding_frDict [simp]: "feeding (s\<lparr>frDict := w\<rparr>) z rest = feeding s z rest"
  by (simp add: feeding_def)

lemma inflating_updates [simp]:
  "inflating cd (s\<lparr>frConn := (frConn s)\<lparr>lrN := x\<rparr>\<rparr>) out rest = inflating cd s out rest"
  "inflating cd (s\<lparr>frDict := w\<rparr>) out rest = inflating cd s out rest"
  by (simp_all add: inflating_def)

text \<open>With context takeover the window holds the last bytes of what has been read from compressed messages.\<close>

definition windowOK :: "compressionOptions \<Rightarrow> 'd freader \<Rightarrow> bytes \<Rightarrow> bool" where
  "windowOK opts s h \<longleftrightarrow> (readerTakeover (cClient (frConn s)) opts \<longrightarrow> frDict s = Some \<lparr>swBuf = Some (lastBytes 32768 h), swCap = 32768\<rparr>)"

definition keeps :: "'d freader \<Rightarrow> 'd freader \<Rightarrow> bool" where
  "keeps s s' \<longleftrightarrow> cClient (frConn s') = cClient (frConn s) \<and> lrLimit (frConn s') = lrLimit (frConn s) \<and> cFlate (frConn s') = cFlate (frConn s)"

lemma limitReadF_message:
  assumes "inflating cd s out rest" and "0 < n" and "out \<noteq> []" and "withinLimit (frConn s) (length out)"
  shows "\<exists>b s' out'. limitReadF cd n s = (Inr b, s') \<and> b \<noteq> [] \<and> out = b @ out' \<and> inflating cd s' out' rest
    \<and> withinLimit (frConn s') (length out') \<and> keeps s s' \<and> frDict s' = frDict s"
proof -
  define m where "m = (if lrN (frConn s) < 0 then n else min n (nat (lrN (frConn s))))"
  have m: "0 < m" "lrN (frConn s) \<noteq> 0" "frFlate s" using assms(2,4) inflating_feeding[OF assms(1)] by (auto simp: m_def withinLimit_def)
  from flateRead_message[OF assms(1) m(1) assms(3)] obtain b s1 out' where
    f: "flateRead cd m s = (Inr b, s1)" "b \<noteq> []" "out = b @ out'" "inflating cd s1 out' rest" "near s s1" by blast
  define s' where "s' = (if lrN (frConn s) < 0 then s1 else s1\<lparr>frConn := (frConn s1)\<lparr>lrN := max 0 (lrN (frConn s1) - int (length b))\<rparr>\<rparr>)"
  have "limitReadF cd n s = (Inr b, s')" using m f(1) by (auto simp: limitReadF_def Let_def m_def s'_def)
  moreover have "withinLimit (frConn s') (length out')" "keeps s s'" "frDict s' = frDict s"
    using f(3,5) assms(4) by (auto simp: withinLimit_def s'_def near_def keeps_def)
  moreover have "inflating cd s' out' rest" using f(4) by (simp add: s'_def)
  ultimately show ?thesis using f(2,3) by blast
qed

lemma mrReadF_message:
  assumes "inflating cd s out rest" and "0 < n" and "out \<noteq> []" and "withinLimit (frConn s) (length out)" and "windowOK opts s h"
  shows "\<exists>b s' out'. mrReadF cd opts n s = (Inr b, s') \<and> b \<noteq> [] \<and> out = b @ out' \<and> inflating cd s' out' rest
    \<and> withinLimit (frConn s') (length out') \<and> keeps s s' \<and> windowOK opts s' (h @ b)"
proof -
  from limitReadF_message[OF assms(1-4)] obtain b s1 out' where
    l: "limitReadF cd n s = (Inr b, s1)" "b \<noteq> []" "out = b @ out'" "inflating cd s1 out' rest"
      "withinLimit (frConn s1) (length out')" "keeps s s1" "frDict s1 = frDict s" by blast
  define s' where "s' = (if readerTakeover (cClient (frConn s1)) opts then dictWrite b s1 else s1)"
  have "\<not> cClosed (frConn s)" "frFlate s1" using inflating_feeding[OF assms(1)] inflating_feeding[OF l(4)] by (simp_all add: connOK_def)
  then have "mrReadF cd opts n s = (Inr b, s')" using l(1) by (simp add: mrReadF_def s'_def)
  moreover have "inflating cd s' out' rest" "withinLimit (frConn s') (length out')" "keeps s s'"
    using l(4-6) by (simp_all add: s'_def dictWrite_def keeps_def)
  moreover have "windowOK opts s' (h @ b)"
    using assms(5) l(6,7) by (auto simp: windowOK_def s'_def dictWrite_def keeps_def swWrite_window)
  ultimately show ?thesis using l(2,3) by blast
qed

lemma mrReadF_end:
  assumes "inflating cd s [] rest" and "withinLimit (frConn s) 0" and "windowOK opts s h"
  shows "\<exists>s'. mrReadF cd opts n s = (Inl EOF, s') \<and> between s' rest \<and> keeps s s' \<and> windowOK opts s' h"
proof -
  have i: "frFlate s" "\<not> cClosed (frConn s)" using inflating_feeding[OF assms(1)] by (simp_all add: connOK_def)
  define m where "m = (if lrN (frConn s) < 0 then n else min n (nat (lrN (frConn s))))"
  from flateRead_end[OF assms(1), of m] obtain s1 where
    f: "flateRead cd m s = (Inl ErrUnexpectedEOF, s1)" "between s1 rest" "near s s1" "frFlate s1" by blast
  have "lrN (frConn s) \<noteq> 0" using assms(2) by (auto simp: withinLimit_def)
  then have l: "limitReadF cd n s = (Inl ErrUnexpectedEOF, s1)" using f(1) i(1) by (auto simp: limitReadF_def Let_def m_def)
  define s' where "s' = (if readerTakeover (cClient (frConn s1)) opts then dictWrite [] s1 else s1)"
  have "mrFin (frConn s1)" using f(2) by (simp add: between_def idle_def)
  then have "mrReadF cd opts n s = (Inl EOF, s')"
    using l f(4) i by (auto simp: mrReadF_def s'_def Let_def ErrUnexpectedEOF_def dictWrite_def)
  moreover have "between s' rest" "keeps s s'" using f(2,3) by (simp_all add: s'_def dictWrite_def between_def near_def keeps_def)
  moreover have "windowOK opts s' h"
    using assms(3) f(3) swWrite_window[of "[]" 32768 h] by (auto simp: windowOK_def s'_def dictWrite_def near_def)
  ultimately show ?thesis by blast
qed

lemma keeps_trans: "keeps s s' \<Longrightarrow> keeps s' s'' \<Longrightarrow> keeps s s''"
  by (simp add: keeps_def)

lemma readAllF_message:
  assumes "inflating cd s out rest" and "withinLimit (frConn s) (length out)" and "windowOK opts s h"
  shows "\<exists>s'. readAllF cd opts sz acc s = Some (Inr (acc @ out), s') \<and> between s' rest \<and> keeps s s' \<and> windowOK opts s' (h @ out)"
  using assms
proof (induction "length out" arbitrary: s out acc h rule: less_induct)
  case less
  show ?case
  proof (cases "out = []")
    case True
    with less.prems mrReadF_end[of cd s rest opts h "Suc (sz (length acc))"] show ?thesis by (subst readAllF.simps) auto
  next
    case False
    from mrReadF_message[OF less.prems(1) _ False less.prems(2,3), of "Suc (sz (length acc))"] obtain b s1 out' where
      m: "mrReadF cd opts (Suc (sz (length acc))) s = (Inr b, s1)" "b \<noteq> []" "out = b @ out'" "inflating cd s1 out' rest"
        "withinLimit (frConn s1) (length out')" "keeps s s1" "windowOK opts s1 (h @ b)" by blast
    have "length out' < length out" using m(2,3) by simp
    from less.hyps[OF this m(4,5,7), of "acc @ b"] obtain s' where
      "readAllF cd opts sz (acc @ b) s1 = Some (Inr ((acc @ b) @ out'), s')" "between s' rest" "keeps s1 s'" "windowOK opts s' ((h @ b) @ out')" by blast
    with m(1,3) keeps_trans[OF m(6)] show ?thesis by (subst readAllF.simps) simp
  qed
qed


subsection \<open>A message that is not compressed\<close>

lemma msgReadF_plain: "\<not> frFlate s \<Longrightarrow> msgReadF n s = (case msgRead n (frConn s) of (r, c1) \<Rightarrow> (r, s\<lparr>frConn := c1\<rparr>))"
proof (induction n s rule: msgReadF.induct)
  case (1 n s)
  have id: "s\<lparr>frConn := frConn s\<rparr> = s" by simp
  show ?case
  proof (cases "mrPayloadLength (frConn s) = 0 \<and> \<not> mrFin (frConn s)")
    case True
    obtain x c2 where x: "readLoop (frConn s) = (x, c2)" by (cases "readLoop (frConn s)")
    show ?thesis
    proof (cases "\<exists>h. x = Inr h \<and> hopcode h = opContinuation")
      case con: True
      then obtain h where h: "x = Inr h" "hopcode h = opContinuation" by blast
      have "msgReadF n s = msgReadF n (s\<lparr>frConn := setFrame h c2\<rparr>)" using True x h by (subst msgReadF.simps) simp
      moreover have "msgRead n (frConn s) = msgRead n (setFrame h c2)" using True x h by (subst msgRead.simps) simp
      ultimately show ?thesis using 1(1)[OF refl _ _ x[symmetric] h(1)] 1(2) True h(2) by (simp split: prod.split)
    next
      case False
      then show ?thesis using True x by (subst msgReadF.simps, subst msgRead.simps) (auto simp: Let_def split: sum.split)
    qed
  next
    case False
    with 1(2) show ?thesis
      by (subst msgReadF.simps, subst msgRead.simps) (auto simp: Let_def split: prod.splits sum.splits)
  qed
qed

lemma mrReadF_plain: "\<not> frFlate s \<Longrightarrow> mrReadF cd opts n s = (case mrRead n (frConn s) of (r, c1) \<Rightarrow> (r, s\<lparr>frConn := c1\<rparr>))"
  by (auto simp: mrReadF_def mrRead_def limitReadF_def limitRead_def msgReadF_plain Let_def split: prod.splits sum.splits)

lemma readAllF_plain:
  "\<not> frFlate s \<Longrightarrow> readAllF cd opts sz acc s = (case readAll sz acc (frConn s) of (r, c1) \<Rightarrow> Some (r, s\<lparr>frConn := c1\<rparr>))"
proof (induction sz acc "frConn s" arbitrary: s rule: readAll.induct)
  case (1 sz acc s)
  obtain r c1 where r: "mrRead (Suc (sz (length acc))) (frConn s) = (r, c1)" by (cases "mrRead (Suc (sz (length acc))) (frConn s)")
  show ?case
  proof (cases r)
    case (Inl e)
    with r 1(2) show ?thesis by (subst readAllF.simps, subst readAll.simps) (simp add: mrReadF_plain)
  next
    case (Inr b)
    have "readAllF cd opts sz acc s = readAllF cd opts sz (acc @ b) (s\<lparr>frConn := c1\<rparr>)"
      using r Inr 1(2) by (subst readAllF.simps) (simp add: mrReadF_plain)
    moreover have "readAll sz acc (frConn s) = readAll sz (acc @ b) c1" using r Inr by (subst readAll.simps) simp
    ultimately show ?thesis using 1(1)[of r "s\<lparr>frConn := c1\<rparr>" b] r Inr 1(2) by (simp split: prod.split)
  qed
qed

subsection \<open>The first frame of a message\<close>

definition flateBytes :: "bool \<Rightarrow> bool \<Rightarrow> bool \<Rightarrow> opcode \<Rightarrow> bytes \<Rightarrow> 32 word \<Rightarrow> bytes" where
  "flateBytes client f flate op p key =
     headerBytes (flateHeader client f flate op (length p) key) @ (if client then fst (mask_frame key p) else p)"

lemma readLoop_first:
  assumes "\<not> cClosed c" and "length p < 2 ^ 63" and "op = opText \<or> op = opBinary" and "flate \<longrightarrow> cFlate c"
    and "cIn c = flateBytes (\<not> cClient c) f flate op p (peerKey c k) @ r"
  shows "readLoop c = (Inr (flateHeader (\<not> cClient c) f flate op (length p) (peerKey c k)),
           c\<lparr>cIn := (if cClient c then p else fst (mask_frame k p)) @ r\<rparr>)"
proof -
  let ?h = "flateHeader (\<not> cClient c) f flate op (length p) (peerKey c k)"
  have "int (length p) < 2 ^ 63" using assms(2) by (metis of_nat_less_iff of_nat_numeral of_nat_power)
  then have "wfHeader ?h" using assms(3) by (auto simp: wfHeader_def flateHeader_def frameHeader_def opcode_defs)
  from readFrameHeader_headerBytes[OF this] have hd: "readFrameHeader_conn c = (Inr ?h, c\<lparr>cIn := (if cClient c then p else fst (mask_frame k p)) @ r\<rparr>)"
    using assms(1,5) by (simp add: readFrameHeader_conn_def flateBytes_def)
  show ?thesis using assms(3,4) hd
    by (subst readLoop.simps) (auto simp: flateHeader_def frameHeader_def readRSV1Illegal_def opcode_defs)
qed

definition windowFor :: "compressionOptions \<Rightarrow> 'd freader \<Rightarrow> bytes \<Rightarrow> bool" where
  "windowFor opts s h \<longleftrightarrow> windowOK opts s h \<or> (h = [] \<and> frDict s = None)"

definition dictOf :: "bool \<Rightarrow> compressionOptions \<Rightarrow> bytes \<Rightarrow> bytes" where
  "dictOf client opts h = (if readerTakeover client opts then lastBytes 32768 h else [])"

lemma resetFlate_window:
  assumes "windowFor opts s h"
  shows "windowOK opts (resetFlate cd opts s) h \<and> frDec (resetFlate cd opts s) = ([], Inl (dNew cd (dictOf (cClient (frConn s)) opts h)))
    \<and> frTail (resetFlate cd opts s) = deflateMessageTail \<and> frConn (resetFlate cd opts s) = frConn s \<and> frBufio (resetFlate cd opts s) = frBufio s
    \<and> frFlate (resetFlate cd opts s) = frFlate s"
  using assms by (auto simp: windowFor_def windowOK_def resetFlate_def swInit_def emptyWindow_def getFlateReader_def dictOf_def lastBytes_def Let_def)

text \<open>The wire form of a message whose first frame carries the bit.\<close>

definition flateWire :: "bool \<Rightarrow> bool \<Rightarrow> opcode \<Rightarrow> bytes list \<Rightarrow> 32 word list \<Rightarrow> bytes" where
  "flateWire client flate mt ps ks =
     flateBytes (\<not> client) (length ps = 1) flate mt (List.hd ps) (if client then 0 else List.hd ks) @ wireBytes client opContinuation (message (tl ps) (tl ks))"

lemma readerF_message:
  assumes "between s (flateWire (cClient (frConn s)) flate mt (p # ps) (k # ks) @ rest)" and "flate \<longrightarrow> cFlate (frConn s)"
    and "mt = opText \<or> mt = opBinary" and "length ks = length ps" and "list_all (\<lambda>p. length p < 2 ^ 63) (p # ps)" and "windowFor opts s h"
  shows "\<exists>s'. readerF cd opts s = (Inr mt, s') \<and> positioned (frConn s') p (message ps ks) rest \<and> connOK (frConn s')
    \<and> keysFor (message ps ks) (frConn s') \<and> lrN (frConn s') = lrLimit (frConn s) \<and> keeps s s' \<and> frFlate s' = flate \<and> frBufio s' = []
    \<and> (if flate then windowOK opts s' h \<and> frDec s' = ([], Inl (dNew cd (dictOf (cClient (frConn s)) opts h))) \<and> frTail s' = deflateMessageTail
       else frDict s' = frDict s)"
proof -
  define c where "c = frConn s"
  define r where "r = wireBytes (cClient c) opContinuation (message ps ks) @ rest"
  have b: "idle c" "frBufio s = []" "cIn c = flateBytes (\<not> cClient c) (ps = []) flate mt p (peerKey c k) @ r"
    using assms(1) by (auto simp: between_def c_def r_def flateWire_def)
  let ?h = "flateHeader (\<not> cClient c) (ps = []) flate mt (length p) (peerKey c k)"
  let ?c1 = "c\<lparr>cIn := (if cClient c then p else fst (mask_frame k p)) @ r\<rparr>"
  have rl: "readLoop c = (Inr ?h, ?c1)"
    by (rule readLoop_first) (use b assms(2,3,5) in \<open>auto simp: idle_def connOK_def c_def\<close>)
  define s0 where "s0 = s\<lparr>frFlate := flate, frConn := ?c1\<lparr>lrN := lrLimit ?c1\<rparr>\<rparr>"
  define s' where "s' = (let s2 = (if flate then resetFlate cd opts s0 else s0) in s2\<lparr>frConn := setFrame ?h (frConn s2)\<rparr>)"
  have h: "rsv1 ?h = flate" "hopcode ?h = mt" using assms(3) by (auto simp: flateHeader_def frameHeader_def)
  have rd: "readerF cd opts s = (Inr mt, s')"
    using b(1) rl h assms(3) by (auto simp: readerF_def c_def[symmetric] idle_def connOK_def mrResetF_def s0_def s'_def Let_def opcode_defs)
  have "windowFor opts s0 h" using assms(6) by (simp add: windowFor_def windowOK_def s0_def c_def)
  note w = resetFlate_window[OF this, of cd]
  have s0: "frConn s0 = ?c1\<lparr>lrN := lrLimit c\<rparr>" "frFlate s0 = flate" "frBufio s0 = []" "frDict s0 = frDict s" using b(2) by (simp_all add: s0_def)
  have conn: "frConn s' = setFrame ?h (?c1\<lparr>lrN := lrLimit c\<rparr>)" using w s0(1) by (simp add: s'_def Let_def)
  note ms = message_simps[OF assms(4)]
  have "positioned (frConn s') p (message ps ks) rest"
    using assms(5) ms(3,6,7,8) conn by (auto simp: positioned_def setFrame_def flateHeader_def frameHeader_def r_def)
  moreover have "connOK (frConn s')" "keysFor (message ps ks) (frConn s')" "lrN (frConn s') = lrLimit c"
    using b(1) ms(1) by (simp_all add: conn idle_def connOK_def keysFor_def setFrame_def)
  moreover have "keeps s s'" by (simp add: keeps_def conn setFrame_def c_def)
  moreover have "frFlate s' = flate" "frBufio s' = []" using w s0(2,3) by (simp_all add: s'_def Let_def)
  moreover have "if flate then windowOK opts s' h \<and> frDec s' = ([], Inl (dNew cd (dictOf (cClient c) opts h))) \<and> frTail s' = deflateMessageTail
      else frDict s' = frDict s"
    using w s0 by (simp add: s'_def Let_def windowOK_def setFrame_def)
  ultimately show ?thesis using rd by (auto simp: c_def)
qed


subsection \<open>Reading one message\<close>

lemma windowFor_keeps: "windowFor opts s h \<Longrightarrow> keeps s s' \<Longrightarrow> frDict s' = frDict s \<Longrightarrow> windowFor opts s' h"
  by (auto simp: windowFor_def windowOK_def keeps_def)

lemma Read_flate_compressed:
  assumes "between s (flateWire (cClient (frConn s)) True mt (p # ps) (k # ks) @ rest)" and "cFlate (frConn s)"
    and "mt = opText \<or> mt = opBinary" and "length ks = length ps" and "list_all (\<lambda>p. length p < 2 ^ 63) (p # ps)" and "windowFor opts s h"
    and "decodesAll cd (dNew cd (dictOf (cClient (frConn s)) opts h)) (concat (p # ps) @ deflateMessageTail) out"
    and "lrLimit (frConn s) < 0 \<or> int (length out) < lrLimit (frConn s)"
  shows "\<exists>s'. Read_flate cd opts sz s = Some (Inr (mt, out), s') \<and> between s' rest \<and> keeps s s' \<and> windowFor opts s' (h @ out)"
proof -
  from readerF_message[OF assms(1) _ assms(3-6), where cd = cd] assms(2) obtain s1 where
    r: "readerF cd opts s = (Inr mt, s1)" "positioned (frConn s1) p (message ps ks) rest" "connOK (frConn s1)" "keysFor (message ps ks) (frConn s1)"
      "lrN (frConn s1) = lrLimit (frConn s)" "keeps s s1" "frFlate s1" "frBufio s1 = []" "windowOK opts s1 h"
      "frDec s1 = ([], Inl (dNew cd (dictOf (cClient (frConn s)) opts h)))" "frTail s1 = deflateMessageTail" by auto
  have "feeding s1 (concat (p # ps) @ deflateMessageTail) rest"
    unfolding feeding_def using r(2-4,7,8,11) message_simps(2)[OF assms(4)] by (auto intro!: exI[of _ p] exI[of _ "message ps ks"])
  then have "inflating cd s1 out rest" unfolding inflating_def using r(10) assms(7) by auto
  moreover have "withinLimit (frConn s1) (length out)" using assms(8) r(5) by (simp add: withinLimit_def)
  ultimately obtain s' where "readAllF cd opts sz [] s1 = Some (Inr out, s')" "between s' rest" "keeps s1 s'" "windowOK opts s' (h @ out)"
    using readAllF_message[of cd s1 out rest opts h sz "[]"] r(9) by auto
  with r(1) keeps_trans[OF r(6)] show ?thesis by (auto simp: Read_flate_def windowFor_def)
qed

lemma Read_flate_plain:
  assumes "between s (flateWire (cClient (frConn s)) False mt (p # ps) (k # ks) @ rest)"
    and "mt = opText \<or> mt = opBinary" and "length ks = length ps" and "list_all (\<lambda>p. length p < 2 ^ 63) (p # ps)" and "windowFor opts s h"
    and "lrLimit (frConn s) < 0 \<or> int (length (concat (p # ps))) < lrLimit (frConn s)"
  shows "\<exists>s'. Read_flate cd opts sz s = Some (Inr (mt, concat (p # ps)), s') \<and> between s' rest \<and> keeps s s' \<and> windowFor opts s' h"
proof -
  from readerF_message[OF assms(1) _ assms(2-5), where cd = cd] obtain s1 where
    r: "readerF cd opts s = (Inr mt, s1)" "positioned (frConn s1) p (message ps ks) rest" "connOK (frConn s1)" "keysFor (message ps ks) (frConn s1)"
      "lrN (frConn s1) = lrLimit (frConn s)" "keeps s s1" "\<not> frFlate s1" "frBufio s1 = []" "frDict s1 = frDict s" by auto
  have "withinLimit (frConn s1) (length (p @ partsOf (message ps ks)))"
    using assms(6) r(5) message_simps(2)[OF assms(3)] by (simp add: withinLimit_def)
  from readAll_message[OF r(2-4) this, of sz "[]"] obtain c' where
    c': "readAll sz [] (frConn s1) = (Inr (concat (p # ps)), c')" "served (message ps ks) (frConn s1) c'" "positioned c' [] [] rest"
    using message_simps(2)[OF assms(3)] by auto
  let ?s = "s1\<lparr>frConn := c'\<rparr>"
  have "readAllF cd opts sz [] s1 = Some (Inr (concat (p # ps)), ?s)" using readAllF_plain[OF r(7), of cd opts sz "[]"] c'(1) by simp
  moreover have "between ?s rest" using c'(2,3) r(8) by (auto simp: between_def idle_def served_def positioned_def)
  moreover have k: "keeps s ?s" using r(6) c'(2) by (auto simp: keeps_def served_def)
  moreover have "windowFor opts ?s h" using windowFor_keeps[OF assms(5) k] r(9) by simp
  ultimately show ?thesis using r(1) by (simp add: Read_flate_def)
qed

subsection \<open>Writing frames\<close>

lemma flateHeader_plain: "flateHeader client f False op n key = frameHeader client f op n key"
  by (simp add: flateHeader_def frameHeader_def)

lemma writeFrameF_plain: "writeFrameF f False op p c = writeFrame f op p c"
  unfolding writeFrameF_def writeFrame_def flateHeader_plain ..

text \<open>On a connection without compression \<open>Write\<close> is the one of \<open>Conn\<close>; with it, it is a stream of one part.\<close>

lemma Write_flate_plain:
  "\<not> cFlate (fwConn s) \<Longrightarrow> \<exists>s'. Write_flate cd opts thr mt p s = (fst (Write_conn mt p (fwConn s)), s') \<and> fwConn s' = snd (Write_conn mt p (fwConn s))"
  by (auto simp: Write_flate_def Write_conn_def mwResetF_def mwReset_def writeFrameF_plain split: prod.split)

lemma Write_flate_stream:
  "cFlate (fwConn s) \<Longrightarrow> writeStreamF cd opts thr mt [p] s = (None, s') \<longleftrightarrow> Write_flate cd opts thr mt p s = (None, s')"
  by (auto simp: Write_flate_def writeStreamF_def mwResetF_def errdWrap_def Let_def split: prod.splits option.splits)

lemma writeFrameF_ok:
  assumes "connOK c" and "nextKey c = Some (key, c1)"
  shows "\<exists>w. writeFrameF f flate op p c = (None, c1\<lparr>cBw := w\<rparr>) \<and> bwContent w = bwContent (cBw c) @ flateBytes (cClient c) f flate op p key \<and> bwGood w
          \<and> (f \<longrightarrow> bwBuf w = [])"
proof -
  let ?h = "flateHeader (cClient c) f flate op (length p) key"
  have bw: "cBw c1 = cBw c" using assms(2) by (auto simp: nextKey_def split: if_splits list.splits)
  have g: "bwGood (cBw c)" "\<not> cClosed c" "\<not> cWroteClose c" using assms(1) by (auto simp: connOK_def)
  from bufsink.writeFrameHeader_sink[OF g(1), of ?h] obtain w1 where w1: "writeFrameHeader ?h bufWrite (cBw c) = (None, w1)"
    "bwContent w1 = bwContent (cBw c) @ headerBytes ?h" "bwGood w1" by blast
  from writeFramePayload_good[OF w1(3), of ?h p] obtain w2 where w2: "writeFramePayload ?h p w1 = (None, w2)"
    "bwContent w2 = bwContent w1 @ (if cClient c then fst (mask_frame key p) else p)" "bwGood w2"
    by (auto simp: flateHeader_def frameHeader_def)
  from Flush_good[OF w2(3)] obtain w3 where w3: "Flush w2 = (None, w3)" "bwContent w3 = bwContent w2" "bwGood w3" "bwBuf w3 = []" by blast
  have c: "bwContent w2 = bwContent (cBw c) @ flateBytes (cClient c) f flate op p key" using w1(2) w2(2) by (simp add: flateBytes_def)
  have "writeFrameF f flate op p c = (None, c1\<lparr>cBw := (if f then w3 else w2)\<rparr>)"
    using g(2,3) assms(2) bw w1(1) w2(1) w3(1) by (auto simp: writeFrameF_def Let_def)
  with c w2(3) w3 show ?thesis by (cases f) auto
qed

fun openWire :: "bool \<Rightarrow> bool \<Rightarrow> opcode \<Rightarrow> bytes list \<Rightarrow> (nat \<Rightarrow> 32 word) \<Rightarrow> bytes" where
  "openWire client flate op [] kf = []"
| "openWire client flate op (q # qs) kf = flateBytes client False flate op q (kf 0) @ openWire client flate opContinuation qs (\<lambda>i. kf (Suc i))"

abbreviation opAfter :: "opcode \<Rightarrow> bytes list \<Rightarrow> opcode" where "opAfter op qs \<equiv> (if qs = [] then op else opContinuation)"

lemma openWire_snoc:
  "openWire client flate op (qs @ [q]) kf = openWire client flate op qs kf @ flateBytes client False flate (opAfter op qs) q (kf (length qs))"
  by (induction qs arbitrary: op kf) auto

definition keyAt :: "conn \<Rightarrow> nat \<Rightarrow> 32 word" where "keyAt c i = (if cClient c then cRand c ! i else 0)"

text \<open>The writer \<open>c\<close> has written the frames \<open>qs\<close> of a message since \<open>c0\<close>, none of them the last.\<close>

definition writing :: "conn \<Rightarrow> bool \<Rightarrow> opcode \<Rightarrow> bool \<Rightarrow> conn \<Rightarrow> bytes list \<Rightarrow> bool" where
  "writing c0 flate mt done c qs \<longleftrightarrow> connOK c \<and> cClient c = cClient c0 \<and> cFlate c = cFlate c0 \<and> mwClosed c = done \<and> mwOpcode c = opAfter mt qs
     \<and> cRand c = dropKeys (length qs) c0 \<and> bwContent (cBw c) = bwContent (cBw c0) @ openWire (cClient c0) flate mt qs (keyAt c0)"

lemma nextKey_writing:
  assumes "writing c0 flate mt done c qs" and "canWrite (Suc (length qs)) c0"
  shows "nextKey c = Some (keyAt c0 (length qs), c\<lparr>cRand := dropKeys (Suc (length qs)) c0\<rparr>)"
proof -
  have "cClient c = cClient c0" "cRand c = dropKeys (length qs) c0" using assms(1) by (simp_all add: writing_def)
  then show ?thesis using assms(2) Cons_nth_drop_Suc[of "length qs" "cRand c0", symmetric]
    by (cases c) (auto simp: nextKey_def keyAt_def dropKeys_def canWrite_def)
qed

lemma dataFrame_writing:
  assumes "writing c0 flate mt done c qs" and "canWrite (Suc (length qs)) c0"
  shows "\<exists>c'. dataFrame_mw flate q c = (None, c') \<and> writing c0 flate mt done c' (qs @ [q])"
proof -
  have w: "connOK c" "cClient c = cClient c0" "mwOpcode c = opAfter mt qs" using assms(1) by (simp_all add: writing_def)
  from writeFrameF_ok[OF w(1) nextKey_writing[OF assms], of False flate "mwOpcode c" q] obtain bw where
    f: "writeFrameF False flate (mwOpcode c) q c = (None, c\<lparr>cRand := dropKeys (Suc (length qs)) c0, cBw := bw\<rparr>)"
      "bwContent bw = bwContent (cBw c) @ flateBytes (cClient c) False flate (mwOpcode c) q (keyAt c0 (length qs))" "bwGood bw" by auto
  with w assms(1) show ?thesis by (auto simp: dataFrame_mw_def writing_def connOK_def openWire_snoc)
qed

text \<open>The whole message has been sent as the frames \<open>qs\<close> and an empty last one.\<close>

definition sentAs :: "conn \<Rightarrow> bool \<Rightarrow> opcode \<Rightarrow> bytes list \<Rightarrow> conn \<Rightarrow> bool" where
  "sentAs c0 flate mt qs c \<longleftrightarrow> drained c \<and> cClient c = cClient c0 \<and> cFlate c = cFlate c0 \<and> cRand c = dropKeys (Suc (length qs)) c0
     \<and> bwContent (cBw c) = bwContent (cBw c0) @ flateWire (\<not> cClient c0) flate mt (qs @ [[]]) (map (keyAt c0) [0..<Suc (length qs)])"

lemma finFrame_writing:
  assumes "writing c0 flate mt done c qs" and "canWrite (Suc (length qs)) c0"
  shows "\<exists>c'. writeFrameF True flate (mwOpcode c) [] c = (None, c') \<and> sentAs c0 flate mt qs c'"
proof -
  have w: "connOK c" "cClient c = cClient c0" "cFlate c = cFlate c0" "mwOpcode c = opAfter mt qs"
    "bwContent (cBw c) = bwContent (cBw c0) @ openWire (cClient c0) flate mt qs (keyAt c0)" using assms(1) by (simp_all add: writing_def)
  have cont: "flateBytes client f fl opContinuation p k = frameBytes client f opContinuation p k" for client f fl p k
    by (simp add: flateBytes_def frameBytes_def flateHeader_def frameHeader_def opcode_defs)
  have tail: "wireBytes (\<not> cl) opContinuation (message (qs' @ [[]]) (map kf [0..<Suc (length qs')]))
      = openWire cl flate opContinuation qs' kf @ flateBytes cl True flate opContinuation [] (kf (length qs'))"
    if "\<And>i. \<not> cl \<Longrightarrow> kf i = 0" for cl qs' kf
    using that
  proof (induction qs' arbitrary: kf)
    case Nil
    then show ?case by (cases cl) (simp_all add: message_def peerFrame_def cont)
  next
    case (Cons q qs')
    define ks where "ks = map (\<lambda>i. kf (Suc i)) [0..<Suc (length qs')]"
    have m: "map kf [0..<Suc (length (q # qs'))] = kf 0 # ks"
      by (simp add: ks_def upt_conv_Cons map_Suc_upt[symmetric] comp_def del: upt_Suc)
    have "list_ex isPart (message (qs' @ [[]]) ks)" by (subst message_simps(3)) (simp_all add: ks_def)
    then have "wireBytes (\<not> cl) opContinuation (message ((q # qs') @ [[]]) (kf 0 # ks))
        = flateBytes cl False flate opContinuation q (kf 0) @ wireBytes (\<not> cl) opContinuation (message (qs' @ [[]]) ks)"
      using Cons.prems[of 0] by (cases cl) (simp_all add: message_def peerFrame_def cont)
    then show ?case using Cons.IH[of "\<lambda>i. kf (Suc i)"] Cons.prems by (simp only: m) (simp add: ks_def del: upt_Suc)
  qed
  have kz: "\<not> cClient c0 \<Longrightarrow> keyAt c0 i = 0" for i by (simp add: keyAt_def)
  have "openWire (cClient c0) flate mt qs (keyAt c0) @ flateBytes (cClient c0) True flate (opAfter mt qs) [] (keyAt c0 (length qs))
      = flateWire (\<not> cClient c0) flate mt (qs @ [[]]) (map (keyAt c0) [0..<Suc (length qs)])"
  proof (cases qs)
    case Nil
    then show ?thesis using kz by (cases "cClient c0") (simp_all add: flateWire_def message_def)
  next
    case (Cons q qs')
    have "map (keyAt c0) [0..<Suc (length qs)] = keyAt c0 0 # map (\<lambda>i. keyAt c0 (Suc i)) [0..<Suc (length qs')]"
      using Cons by (simp add: upt_conv_Cons map_Suc_upt[symmetric] comp_def del: upt_Suc)
    then show ?thesis using tail[of "cClient c0" "\<lambda>i. keyAt c0 (Suc i)" qs'] kz Cons
      by (cases "cClient c0") (simp_all add: flateWire_def del: upt_Suc)
  qed
  moreover from writeFrameF_ok[OF w(1) nextKey_writing[OF assms], of True flate "mwOpcode c" "[]"] obtain bw where
    "writeFrameF True flate (mwOpcode c) [] c = (None, c\<lparr>cRand := dropKeys (Suc (length qs)) c0, cBw := bw\<rparr>)"
      "bwContent bw = bwContent (cBw c) @ flateBytes (cClient c) True flate (mwOpcode c) [] (keyAt c0 (length qs))" "bwGood bw" "bwBuf bw = []" by auto
  ultimately show ?thesis using w by (auto simp: sentAs_def drained_def connOK_def simp del: upt_Suc)
qed


subsection \<open>Writing one message\<close>

text \<open>What the compressor hands down for the parts of a message and the flush at its end.\<close>

fun compressAll :: "('e, 'd) codec \<Rightarrow> bytes list \<Rightarrow> 'e \<Rightarrow> bytes list \<times> 'e" where
  "compressAll cd [] e = eFlush cd e"
| "compressAll cd (p # ps) e =
     (case eWrite cd p e of (outs, e1) \<Rightarrow> (case compressAll cd ps e1 of (outs', e2) \<Rightarrow> (outs @ outs', e2)))"

lemma flateOut_writing:
  assumes "writing c0 True mt done (fwConn s) qs" and "length (fwTail s) \<le> 4" and "canWrite (length qs + 2 * length outs) c0"
  shows "\<exists>c' qs'. flateOut outs s = (None, s\<lparr>fwTail := lastBytes 4 (fwTail s @ concat outs), fwConn := c'\<rparr>) \<and> writing c0 True mt done c' (qs @ qs')
    \<and> concat qs' @ lastBytes 4 (fwTail s @ concat outs) = fwTail s @ concat outs \<and> length qs' \<le> 2 * length outs"
proof -
  have step: "\<exists>c'. dataFrame_mw True q c = (None, c') \<and> writing c0 True mt done c' (xs @ [q])"
    if "writing c0 True mt done c xs" "length xs < length qs + 2 * length outs" for c xs q
    by (rule dataFrame_writing[OF that(1)]) (use assms(3) that(2) in \<open>auto simp: canWrite_def\<close>)
  from trimWrites_steps[where P = "writing c0 True mt done" and wr = "dataFrame_mw True" and N = "length qs + 2 * length outs" and ps = outs,
      OF step assms(1,2)]
  show ?thesis by (auto simp: flateOut_def)
qed

lemma writing_done: "writing c0 fl mt False c qs \<Longrightarrow> writing c0 fl mt True (c\<lparr>mwClosed := True\<rparr>) qs"
  by (simp add: writing_def connOK_def)

lemma mwCloseF_compressed:
  assumes "writing c0 True mt False (fwConn s) qs" and "fwFlate s" "fwEnc s = Some e" "length (fwTail s) \<le> 4"
    and "eFlush cd e = (outs, e')" and "canWrite (Suc (length qs + 2 * length outs)) c0"
  shows "\<exists>s' qs'. mwCloseF cd opts s = (None, s') \<and> sentAs c0 True mt (qs @ qs') (fwConn s') \<and> length qs' \<le> 2 * length outs
    \<and> concat qs' @ lastBytes 4 (fwTail s @ concat outs) = fwTail s @ concat outs
    \<and> fwEnc s' = (if writerTakeover (cClient c0) opts then Some e' else None)"
proof -
  let ?s1 = "s\<lparr>fwConn := (fwConn s)\<lparr>mwClosed := True\<rparr>, fwEnc := Some e'\<rparr>"
  have op: "\<not> cClosed (fwConn s)" "\<not> mwClosed (fwConn s)" using assms(1) by (auto simp: writing_def connOK_def)
  have w1: "writing c0 True mt True (fwConn ?s1) qs" using writing_done[OF assms(1)] by simp
  have cw: "canWrite (length qs + 2 * length outs) c0" using assms(6) by (auto simp: canWrite_def)
  from flateOut_writing[OF w1, of outs] assms(4) cw obtain c1 qs' where
    o: "flateOut outs ?s1 = (None, ?s1\<lparr>fwTail := lastBytes 4 (fwTail s @ concat outs), fwConn := c1\<rparr>)" "writing c0 True mt True c1 (qs @ qs')"
      "concat qs' @ lastBytes 4 (fwTail s @ concat outs) = fwTail s @ concat outs" "length qs' \<le> 2 * length outs" by auto
  have "canWrite (Suc (length (qs @ qs'))) c0" using assms(6) o(4) by (auto simp: canWrite_def)
  from finFrame_writing[OF o(2) this] obtain c2 where f: "writeFrameF True True (mwOpcode c1) [] c1 = (None, c2)" "sentAs c0 True mt (qs @ qs') c2" by blast
  define s' where "s' = ?s1\<lparr>fwTail := lastBytes 4 (fwTail s @ concat outs), fwConn := c2, fwEnc := (if writerTakeover (cClient c0) opts then Some e' else None)\<rparr>"
  have "flateFlush cd (s\<lparr>fwConn := (fwConn s)\<lparr>mwClosed := True\<rparr>\<rparr>) = (None, ?s1\<lparr>fwTail := lastBytes 4 (fwTail s @ concat outs), fwConn := c1\<rparr>)"
    using o(1) assms(3,5) by (simp add: flateFlush_def)
  moreover have "cClient c2 = cClient c0" using f(2) by (simp add: sentAs_def)
  ultimately have "mwCloseF cd opts s = (None, s')" using op f(1) assms(2) by (simp add: mwCloseF_def s'_def putFlateWriter_def Let_def)
  with f(2) o(3,4) show ?thesis by (intro exI[of _ s'] exI[of _ qs']) (simp add: s'_def)
qed

lemma writePartsF_compressed:
  assumes "writing c0 True mt False (fwConn s) qs" and "fwFlate s" "fwEnc s = Some e" "length (fwTail s) \<le> 4"
    and "compressAll cd ps e = (outs, e')" and "canWrite (Suc (length qs + 2 * length outs)) c0"
  shows "\<exists>s' qs'. writePartsF cd opts thr ps s = (None, s') \<and> sentAs c0 True mt (qs @ qs') (fwConn s') \<and> length qs' \<le> 2 * length outs
    \<and> concat qs' @ lastBytes 4 (fwTail s @ concat outs) = fwTail s @ concat outs
    \<and> fwEnc s' = (if writerTakeover (cClient c0) opts then Some e' else None)"
  using assms
proof (induction ps arbitrary: s qs e outs)
  case Nil
  then show ?case using mwCloseF_compressed[of c0 mt s qs e cd outs e' opts] by simp
next
  case (Cons p ps)
  obtain o1 e1 where w: "eWrite cd p e = (o1, e1)" by (cases "eWrite cd p e")
  obtain o2 e2 where r: "compressAll cd ps e1 = (o2, e2)" by (cases "compressAll cd ps e1")
  have outs: "outs = o1 @ o2" "e2 = e'" using Cons.prems(5) w r by auto
  let ?s0 = "s\<lparr>fwEnc := Some e1\<rparr>"
  have w0: "writing c0 True mt False (fwConn ?s0) qs" using Cons.prems(1) by simp
  have cw: "canWrite (length qs + 2 * length o1) c0" using Cons.prems(6) outs(1) by (auto simp: canWrite_def)
  from flateOut_writing[OF w0, of o1] Cons.prems(4) cw obtain c1 q1 where
    o: "flateOut o1 ?s0 = (None, ?s0\<lparr>fwTail := lastBytes 4 (fwTail s @ concat o1), fwConn := c1\<rparr>)" "writing c0 True mt False c1 (qs @ q1)"
      "concat q1 @ lastBytes 4 (fwTail s @ concat o1) = fwTail s @ concat o1" "length q1 \<le> 2 * length o1" by auto
  let ?s1 = "?s0\<lparr>fwTail := lastBytes 4 (fwTail s @ concat o1), fwConn := c1\<rparr>"
  have en: "ensureFlate cd s = s" using Cons.prems(2,3) by (cases s) (simp add: ensureFlate_def)
  have "\<not> cClosed (fwConn s)" "\<not> mwClosed (fwConn s)" using Cons.prems(1) by (auto simp: writing_def connOK_def)
  then have m: "mwWriteF cd thr p s = (None, ?s1)"
    using o(1) w Cons.prems(2,3) by (simp add: mwWriteF_def en flateWrite_def Let_def)
  have cw': "canWrite (Suc (length (qs @ q1) + 2 * length o2)) c0" using Cons.prems(6) outs(1) o(4) by (auto simp: canWrite_def)
  from Cons.IH[of ?s1 "qs @ q1" e1 o2] o(2) Cons.prems(2) r outs(2) cw' obtain s' q2 where
    i: "writePartsF cd opts thr ps ?s1 = (None, s')" "sentAs c0 True mt (qs @ q1 @ q2) (fwConn s')" "length q2 \<le> 2 * length o2"
      "concat q2 @ lastBytes 4 (lastBytes 4 (fwTail s @ concat o1) @ concat o2) = lastBytes 4 (fwTail s @ concat o1) @ concat o2"
      "fwEnc s' = (if writerTakeover (cClient c0) opts then Some e' else None)" by auto
  have "lastBytes 4 (lastBytes 4 (fwTail s @ concat o1) @ concat o2) = lastBytes 4 (fwTail s @ concat outs)"
    using lastBytes_append[of 4 "fwTail s @ concat o1" "concat o2"] outs(1) by simp
  then have "concat (q1 @ q2) @ lastBytes 4 (fwTail s @ concat outs) = fwTail s @ concat outs"
    using i(4) arg_cong[OF o(3), of "\<lambda>x. x @ concat o2"] outs(1) by simp
  moreover have "writePartsF cd opts thr (p # ps) s = (None, s')" using m i(1) by simp
  moreover have "length (q1 @ q2) \<le> 2 * length outs" using o(4) i(3) outs(1) by simp
  ultimately show ?case using i(2,5) by (intro exI[of _ s'] exI[of _ "q1 @ q2"]) simp
qed


text \<open>A message that starts below the threshold is not compressed.\<close>

lemma writePartsF_plain:
  assumes "writing c0 False mt False (fwConn s) qs" and "\<not> fwFlate s" and "qs = [] \<and> ps \<noteq> [] \<longrightarrow> int (length (List.hd ps)) < thr"
    and "canWrite (Suc (length qs + length ps)) c0"
  shows "\<exists>s'. writePartsF cd opts thr ps s = (None, s') \<and> sentAs c0 False mt (qs @ ps) (fwConn s') \<and> fwEnc s' = fwEnc s"
  using assms
proof (induction ps arbitrary: s qs)
  case Nil
  have op: "\<not> cClosed (fwConn s)" "\<not> mwClosed (fwConn s)" using Nil.prems(1) by (auto simp: writing_def connOK_def)
  from finFrame_writing[OF writing_done[OF Nil.prems(1)]] Nil.prems(4) obtain c where
    "writeFrameF True False (mwOpcode (fwConn s)) [] ((fwConn s)\<lparr>mwClosed := True\<rparr>) = (None, c)" "sentAs c0 False mt qs c" by auto
  with op Nil.prems(2) show ?case by (simp add: mwCloseF_def Let_def)
next
  case (Cons p ps)
  have "canWrite (Suc (length qs)) c0" using Cons.prems(4) by (auto simp: canWrite_def)
  from dataFrame_writing[OF Cons.prems(1) this, of p] obtain c1 where
    d: "dataFrame_mw False p (fwConn s) = (None, c1)" "writing c0 False mt False c1 (qs @ [p])" by blast
  have op: "\<not> cClosed (fwConn s)" "\<not> mwClosed (fwConn s)" "mwOpcode (fwConn s) = opAfter mt qs"
    using Cons.prems(1) by (auto simp: writing_def connOK_def)
  have "\<not> (mwOpcode (fwConn s) \<noteq> opContinuation \<and> int (length p) \<ge> thr)" using Cons.prems(3) op(3) by auto
  then have "mwWriteF cd thr p s = (None, s\<lparr>fwConn := c1\<rparr>)" using op(1,2) d(1) Cons.prems(2) by (auto simp: mwWriteF_def)
  moreover have "canWrite (Suc (length (qs @ [p]) + length ps)) c0" using Cons.prems(4) by simp
  ultimately show ?case using Cons.IH[of "s\<lparr>fwConn := c1\<rparr>" "qs @ [p]"] d(2) Cons.prems(2) by simp
qed

subsection \<open>The law of the codec\<close>

text \<open>
  What RFC 1951 and the documentation of \<open>compress/flate\<close> promise: after a flush the compressed form ends with an empty stored block, that is
  with the four bytes the code cuts off, and it can be decompressed by itself with a dictionary of the last 32768 bytes given to the
  compressor before. \<open>hist e h\<close>: the compressor \<open>e\<close> has been given \<open>h\<close> since it was new.
\<close>

definition flateLaws :: "('e, 'd) codec \<Rightarrow> ('e \<Rightarrow> bytes \<Rightarrow> bool) \<Rightarrow> bool" where
  "flateLaws cd hist \<longleftrightarrow> hist (eNew cd) [] \<and>
     (\<forall>e h ps. hist e h \<longrightarrow>
        hist (snd (compressAll cd ps e)) (h @ concat ps) \<and>
        (\<exists>z. concat (fst (compressAll cd ps e)) = z @ deflateMessageTail \<and>
             decodesAll cd (dNew cd (lastBytes 32768 h)) (z @ deflateMessageTail) (concat ps)))"

subsection \<open>A link with compression\<close>

definition compressible :: "int \<Rightarrow> bytes list \<Rightarrow> bool" where
  "compressible thr ps \<longleftrightarrow> ps \<noteq> [] \<and> int (length (List.hd ps)) \<ge> thr"

definition encOr :: "('e, 'd) codec \<Rightarrow> 'e option \<Rightarrow> 'e" where
  "encOr cd enc = (case enc of None \<Rightarrow> eNew cd | Some e \<Rightarrow> e)"

text \<open>What goes down to the frames for a message, and the compressor afterwards.\<close>

definition outsOf :: "('e, 'd) codec \<Rightarrow> int \<Rightarrow> bytes list \<Rightarrow> 'e option \<Rightarrow> bytes list" where
  "outsOf cd thr ps enc = (if compressible thr ps then fst (compressAll cd ps (encOr cd enc)) else ps)"

definition nextEnc :: "('e, 'd) codec \<Rightarrow> bool \<Rightarrow> int \<Rightarrow> bytes list \<Rightarrow> 'e option \<Rightarrow> 'e option" where
  "nextEnc cd takeover thr ps enc =
     (if compressible thr ps then (if takeover then Some (snd (compressAll cd ps (encOr cd enc))) else None) else enc)"

lemma writeStreamF_ok:
  assumes "drained (fwConn w)" and "cFlate (fwConn w)" and "canWrite (Suc (2 * length (outsOf cd thr ps (fwEnc w)))) (fwConn w)"
    and "mt = opText \<or> mt = opBinary"
  shows "\<exists>w' qs. writeStreamF cd opts thr mt ps w = (None, w') \<and> sentAs (fwConn w) (compressible thr ps) mt qs (fwConn w')
    \<and> length qs \<le> 2 * length (outsOf cd thr ps (fwEnc w))
    \<and> (if compressible thr ps then concat qs @ lastBytes 4 (concat (outsOf cd thr ps (fwEnc w))) = concat (outsOf cd thr ps (fwEnc w)) else qs = ps)
    \<and> fwEnc w' = nextEnc cd (writerTakeover (cClient (fwConn w)) opts) thr ps (fwEnc w)"
proof -
  define c0 where "c0 = fwConn w"
  let ?c = "c0\<lparr>mwOpcode := mt, mwClosed := False\<rparr>"
  let ?w = "w\<lparr>fwConn := ?c, fwFlate := False, fwTail := []\<rparr>"
  have ok: "connOK c0" "bwBuf (cBw c0) = []" using assms(1) by (simp_all add: drained_def c0_def)
  have wr: "writing c0 fl mt False ?c []" for fl using ok by (simp add: writing_def connOK_def dropKeys_def)
  have rs: "mwResetF mt w = (None, ?w)" using ok by (simp add: mwResetF_def connOK_def c0_def)
  show ?thesis
  proof (cases "compressible thr ps")
    case True
    then obtain p ps' where ps: "ps = p # ps'" "int (length p) \<ge> thr" by (cases ps) (auto simp: compressible_def)
    define e where "e = encOr cd (fwEnc w)"
    obtain outs e' where ca: "compressAll cd ps e = (outs, e')" by (cases "compressAll cd ps e")
    have outs: "outsOf cd thr ps (fwEnc w) = outs" using True ca by (simp add: outsOf_def e_def)
    let ?w1 = "?w\<lparr>fwEnc := Some e, fwFlate := True\<rparr>"
    have en: "ensureFlate cd ?w = ?w1" by (simp add: ensureFlate_def e_def encOr_def getFlateWriter_def split: option.split)
    have en1: "ensureFlate cd ?w1 = ?w1" by (simp add: ensureFlate_def)
    have "cFlate ?c" using assms(2) by (simp add: c0_def)
    then have "mwWriteF cd thr p ?w = mwWriteF cd thr p ?w1"
      using ok ps(2) en en1 assms(4) by (auto simp: mwWriteF_def connOK_def opcode_defs)
    then have "writePartsF cd opts thr ps ?w = writePartsF cd opts thr ps ?w1" by (simp add: ps(1))
    moreover from writePartsF_compressed[of c0 mt ?w1 "[]" e cd ps outs e' opts thr] wr[of True] ca assms(3) outs obtain w' qs where
      "writePartsF cd opts thr ps ?w1 = (None, w')" "sentAs c0 True mt qs (fwConn w')" "length qs \<le> 2 * length outs"
      "concat qs @ lastBytes 4 (concat outs) = concat outs" "fwEnc w' = (if writerTakeover (cClient c0) opts then Some e' else None)"
      by (auto simp: c0_def)
    ultimately show ?thesis using rs True outs ca by (auto simp: writeStreamF_def nextEnc_def c0_def e_def)
  next
    case False
    then have "[] = [] \<and> ps \<noteq> [] \<longrightarrow> int (length (List.hd ps)) < thr" by (auto simp: compressible_def)
    moreover have "canWrite (Suc (length ([] :: bytes list) + length ps)) c0" using assms(3) False by (auto simp: outsOf_def canWrite_def c0_def)
    ultimately obtain w' where "writePartsF cd opts thr ps ?w = (None, w')" "sentAs c0 False mt ps (fwConn w')" "fwEnc w' = fwEnc w"
      using writePartsF_plain[of c0 mt ?w "[]" ps thr cd opts] wr[of False] by auto
    with rs False show ?thesis by (auto simp: writeStreamF_def nextEnc_def outsOf_def c0_def)
  qed
qed


text \<open>A writer and a reader; the bytes a call hands to the transport arrive at the other end.\<close>

definition deliverF :: "'e fwriter \<Rightarrow> 'e fwriter \<Rightarrow> 'd freader \<Rightarrow> 'd freader" where
  "deliverF w w' r = r\<lparr>frConn := deliver (fwConn w) (fwConn w') (frConn r)\<rparr>"

fun exchangeF :: "('e, 'd) codec \<Rightarrow> compressionOptions \<Rightarrow> int \<Rightarrow> (nat \<Rightarrow> nat) \<Rightarrow> (opcode \<times> bytes list) list \<Rightarrow> 'e fwriter \<times> 'd freader
    \<Rightarrow> ((gerr + msg list) \<times> 'e fwriter \<times> 'd freader) option" where
  "exchangeF cd opts thr sz [] s = Some (Inr [], s)"
| "exchangeF cd opts thr sz ((mt, ps) # ms) (w, r) =
     (case writeStreamF cd opts thr mt ps w of
        (Some e, w1) \<Rightarrow> Some (Inl e, w1, r)
      | (None, w1) \<Rightarrow>
          (case Read_flate cd opts sz (deliverF w w1 r) of
             None \<Rightarrow> None
           | Some (Inl e, r1) \<Rightarrow> Some (Inl e, w1, r1)
           | Some (Inr m, r1) \<Rightarrow>
               map_option (\<lambda>(x, s). (case x of Inl e \<Rightarrow> Inl e | Inr out \<Rightarrow> Inr (m # out), s)) (exchangeF cd opts thr sz ms (w1, r1))))"

text \<open>What the messages have to respect, and how many mask keys they take at most.\<close>

fun fitsF :: "('e, 'd) codec \<Rightarrow> bool \<Rightarrow> int \<Rightarrow> int \<Rightarrow> 'e option \<Rightarrow> (opcode \<times> bytes list) list \<Rightarrow> bool" where
  "fitsF cd takeover thr limit enc [] \<longleftrightarrow> True"
| "fitsF cd takeover thr limit enc ((mt, ps) # ms) \<longleftrightarrow>
     (mt = opText \<or> mt = opBinary) \<and> length (concat (outsOf cd thr ps enc)) < 2 ^ 63 \<and> (limit < 0 \<or> int (length (concat ps)) < limit)
     \<and> fitsF cd takeover thr limit (nextEnc cd takeover thr ps enc) ms"

fun keysF :: "('e, 'd) codec \<Rightarrow> bool \<Rightarrow> int \<Rightarrow> 'e option \<Rightarrow> (opcode \<times> bytes list) list \<Rightarrow> nat" where
  "keysF cd takeover thr enc [] = 0"
| "keysF cd takeover thr enc ((mt, ps) # ms) =
     Suc (2 * length (outsOf cd thr ps enc)) + keysF cd takeover thr (nextEnc cd takeover thr ps enc) ms"

text \<open>
  The link at rest: \<open>h\<close> is what the compressor has been given, and the window of the reader holds its end. Without takeover there is no
  compressor between two messages.
\<close>

definition restingF :: "('e \<Rightarrow> bytes \<Rightarrow> bool) \<Rightarrow> compressionOptions \<Rightarrow> int \<Rightarrow> bytes \<Rightarrow> 'e fwriter \<times> 'd freader \<Rightarrow> bool" where
  "restingF hist opts limit h s \<longleftrightarrow>
     drained (fwConn (fst s)) \<and> cFlate (fwConn (fst s)) \<and> cFlate (frConn (snd s)) \<and> between (snd s) []
     \<and> cClient (frConn (snd s)) = (\<not> cClient (fwConn (fst s))) \<and> lrLimit (frConn (snd s)) = limit
     \<and> (case fwEnc (fst s) of None \<Rightarrow> h = [] | Some e \<Rightarrow> hist e h \<and> writerTakeover (cClient (fwConn (fst s))) opts)
     \<and> windowFor opts (snd s) h"

lemma concat_lengths: "length (concat qs) < n \<Longrightarrow> list_all (\<lambda>q. length q < n) qs"
  by (induction qs) auto

lemma deliverF_sent:
  assumes "restingF hist opts limit h (w, r)" and "sentAs (fwConn w) flate mt qs (fwConn w')"
  shows "between (deliverF w w' r) (flateWire (cClient (frConn r)) flate mt (qs @ [[]]) (map (keyAt (fwConn w)) [0..<Suc (length qs)]) @ [])
    \<and> frDict (deliverF w w' r) = frDict r \<and> keeps r (deliverF w w' r)"
proof -
  have "bwSent (cBw (fwConn w')) = bwSent (cBw (fwConn w)) @ flateWire (\<not> cClient (fwConn w)) flate mt (qs @ [[]]) (map (keyAt (fwConn w)) [0..<Suc (length qs)])"
    using assms by (auto simp: restingF_def sentAs_def drained_def bwContent_def simp del: upt_Suc)
  then show ?thesis using assms(1) by (simp add: restingF_def between_def deliverF_def deliver_def keeps_def idle_def connOK_def del: upt_Suc)
qed

lemma deliverF_first:
  assumes "restingF hist opts limit h (w, r)" and "sentAs (fwConn w) flate mt qs (fwConn w')" and "length (concat qs) < 2 ^ 63"
  obtains q qs' k ks where "between (deliverF w w' r) (flateWire (cClient (frConn (deliverF w w' r))) flate mt (q # qs') (k # ks) @ [])"
    "length ks = length qs'" "list_all (\<lambda>p. length p < 2 ^ 63) (q # qs')" "concat (q # qs') = concat qs"
proof -
  obtain k ks where ks: "map (keyAt (fwConn w)) [0..<Suc (length qs)] = k # ks" "length ks = length qs"
    by (cases "map (keyAt (fwConn w)) [0..<Suc (length qs)]") (auto dest: arg_cong[where f = length] simp del: upt_Suc)
  obtain q qs' where q: "qs @ [[]] = q # qs'" "length qs' = length qs" by (cases qs) auto
  have "between (deliverF w w' r) (flateWire (cClient (frConn (deliverF w w' r))) flate mt (q # qs') (k # ks) @ [])"
    using deliverF_sent[OF assms(1,2)] ks(1) q(1) by (auto simp: keeps_def simp del: upt_Suc)
  moreover have "list_all (\<lambda>p. length p < 2 ^ 63) (q # qs')" "concat (q # qs') = concat qs"
    using concat_lengths[of "q # qs'"] assms(3) by (simp_all flip: q(1))
  ultimately show thesis using that ks(2) q(2) by simp
qed

text \<open>What the reader makes of a message that was sent, compressed or not.\<close>

lemma Read_flate_sent:
  assumes laws: "flateLaws cd hist" and rest: "restingF hist opts limit h (w, r)" and sent: "sentAs (fwConn w) (compressible thr ps) mt qs (fwConn w')"
    and qs: "if compressible thr ps then concat qs @ lastBytes 4 (concat (outsOf cd thr ps (fwEnc w))) = concat (outsOf cd thr ps (fwEnc w)) else qs = ps"
    and enc: "fwEnc w' = nextEnc cd (writerTakeover (cClient (fwConn w)) opts) thr ps (fwEnc w)"
    and fits: "mt = opText \<or> mt = opBinary" "length (concat (outsOf cd thr ps (fwEnc w))) < 2 ^ 63" "limit < 0 \<or> int (length (concat ps)) < limit"
  shows "\<exists>r' h'. Read_flate cd opts sz (deliverF w w' r) = Some (Inr (mt, concat ps), r') \<and> between r' [] \<and> keeps r r' \<and> windowFor opts r' h'
      \<and> (case fwEnc w' of None \<Rightarrow> h' = [] | Some e \<Rightarrow> hist e h' \<and> writerTakeover (cClient (fwConn w)) opts)"
proof -
  let ?tk = "writerTakeover (cClient (fwConn w)) opts"
  define r1 where "r1 = deliverF w w' r"
  have "length (concat qs) < 2 ^ 63" using qs fits(2) by (auto simp: outsOf_def split: if_splits dest: arg_cong[where f = length])
  from deliverF_first[OF rest sent this] obtain q qs' k ks where
    d: "between r1 (flateWire (cClient (frConn r1)) (compressible thr ps) mt (q # qs') (k # ks) @ [])" and len: "length ks = length qs'"
    and sz63: "list_all (\<lambda>p. length p < 2 ^ 63) (q # qs')" and cat: "concat (q # qs') = concat qs" unfolding r1_def by blast
  have keep: "keeps r r1" "frDict r1 = frDict r" using deliverF_sent[OF rest sent] by (simp_all add: r1_def)
  then have c1: "cFlate (frConn r1)" "lrLimit (frConn r1) = limit" "readerTakeover (cClient (frConn r1)) opts = ?tk"
    using rest by (auto simp: keeps_def restingF_def takeover_agrees)
  have win: "windowFor opts r1 h" using windowFor_keeps[OF _ keep] rest by (simp add: restingF_def)
  have "\<exists>r' h'. Read_flate cd opts sz r1 = Some (Inr (mt, concat ps), r') \<and> between r' [] \<and> keeps r1 r' \<and> windowFor opts r' h'
      \<and> (case fwEnc w' of None \<Rightarrow> h' = [] | Some e \<Rightarrow> hist e h' \<and> ?tk)"
  proof (cases "compressible thr ps")
    case True
    have hist: "hist (encOr cd (fwEnc w)) h" "\<not> ?tk \<Longrightarrow> h = []"
      using rest laws by (auto simp: restingF_def encOr_def flateLaws_def split: option.splits)
    from laws hist(1) obtain z where
      z: "hist (snd (compressAll cd ps (encOr cd (fwEnc w)))) (h @ concat ps)" "concat (outsOf cd thr ps (fwEnc w)) = z @ deflateMessageTail"
        "decodesAll cd (dNew cd (lastBytes 32768 h)) (z @ deflateMessageTail) (concat ps)"
      using True unfolding flateLaws_def outsOf_def by (simp only: if_True) blast
    have "concat qs = z" using qs True z(2) by (simp add: lastBytes_def deflateMessageTail_def)
    moreover have "dictOf (cClient (frConn r1)) opts h = lastBytes 32768 h" using c1(3) hist(2) by (auto simp: dictOf_def lastBytes_def)
    ultimately have "decodesAll cd (dNew cd (dictOf (cClient (frConn r1)) opts h)) (concat (q # qs') @ deflateMessageTail) (concat ps)"
      using z(3) cat by simp
    from Read_flate_compressed[OF _ c1(1) fits(1) len sz63 win this, of k "[]" sz] d(1) True fits(3) c1(2) obtain r' where
      r': "Read_flate cd opts sz r1 = Some (Inr (mt, concat ps), r')" "between r' []" "keeps r1 r'" "windowFor opts r' (h @ concat ps)" by auto
    moreover have "windowFor opts r' []" if "\<not> ?tk" using that c1(3) r'(3) by (simp add: windowFor_def windowOK_def keeps_def)
    ultimately show ?thesis using z(1) enc True by (cases ?tk) (auto simp: nextEnc_def)
  next
    case False
    then have "concat ps = concat (q # qs')" using qs cat by simp
    with Read_flate_plain[OF _ fits(1) len sz63 win, of k "[]" cd sz] d(1) False fits(3) c1(2) obtain r' where
      "Read_flate cd opts sz r1 = Some (Inr (mt, concat ps), r')" "between r' []" "keeps r1 r'" "windowFor opts r' h" by auto
    with rest enc False show ?thesis by (auto simp: restingF_def nextEnc_def split: option.splits)
  qed
  then show ?thesis using keeps_trans[OF keep(1)] by (auto simp: r1_def)
qed

lemma exchange_one:
  assumes laws: "flateLaws cd hist" and rest: "restingF hist opts limit h (w, r)"
    and fits: "mt = opText \<or> mt = opBinary" "length (concat (outsOf cd thr ps (fwEnc w))) < 2 ^ 63" "limit < 0 \<or> int (length (concat ps)) < limit"
    and keys: "canWrite (Suc (2 * length (outsOf cd thr ps (fwEnc w))) + n) (fwConn w)"
  shows "\<exists>w' r' h'. writeStreamF cd opts thr mt ps w = (None, w') \<and> Read_flate cd opts sz (deliverF w w' r) = Some (Inr (mt, concat ps), r')
    \<and> restingF hist opts limit h' (w', r') \<and> canWrite n (fwConn w') \<and> cClient (fwConn w') = cClient (fwConn w)
    \<and> fwEnc w' = nextEnc cd (writerTakeover (cClient (fwConn w)) opts) thr ps (fwEnc w)"
proof -
  have R: "drained (fwConn w)" "cFlate (fwConn w)" using rest by (simp_all add: restingF_def)
  from writeStreamF_ok[OF R canWrite_le[OF keys] fits(1), of opts] obtain w' qs where
    w': "writeStreamF cd opts thr mt ps w = (None, w')" "sentAs (fwConn w) (compressible thr ps) mt qs (fwConn w')"
      "length qs \<le> 2 * length (outsOf cd thr ps (fwEnc w))"
      "if compressible thr ps then concat qs @ lastBytes 4 (concat (outsOf cd thr ps (fwEnc w))) = concat (outsOf cd thr ps (fwEnc w)) else qs = ps"
      "fwEnc w' = nextEnc cd (writerTakeover (cClient (fwConn w)) opts) thr ps (fwEnc w)" by blast
  from Read_flate_sent[OF laws rest w'(2,4,5) fits] obtain r' h' where
    r': "Read_flate cd opts sz (deliverF w w' r) = Some (Inr (mt, concat ps), r')" "between r' []" "keeps r r'" "windowFor opts r' h'"
      "case fwEnc w' of None \<Rightarrow> h' = [] | Some e \<Rightarrow> hist e h' \<and> writerTakeover (cClient (fwConn w)) opts" by blast
  have s: "drained (fwConn w')" "cClient (fwConn w') = cClient (fwConn w)" "cFlate (fwConn w') = cFlate (fwConn w)"
    "cRand (fwConn w') = dropKeys (Suc (length qs)) (fwConn w)" using w'(2) by (simp_all add: sentAs_def)
  have "restingF hist opts limit h' (w', r')" using r'(2-5) s(1-3) rest by (auto simp: restingF_def keeps_def split: option.splits)
  moreover have "canWrite n (fwConn w')" using keys s(2,4) w'(3) by (auto simp: canWrite_def dropKeys_def)
  ultimately show ?thesis using w'(1,5) r'(1) s(2) by blast
qed

text \<open>
  C7: Compressed messages survive the link. For every codec that keeps the law above, every choice of context takeover for either role,
  every threshold, every split of the messages into parts and every sizes of the reads: after any number of messages, compressed or
  not, no call has failed and the reader has returned exactly the messages written, in order and with their types. The last four bytes, the
  reserved bit and the window of the last 32768 bytes therefore agree between the two ends.
\<close>

theorem compressed_link:
  assumes "flateLaws cd hist" and "restingF hist opts limit h (w, r)"
    and "fitsF cd (writerTakeover (cClient (fwConn w)) opts) thr limit (fwEnc w) ms"
    and "canWrite (keysF cd (writerTakeover (cClient (fwConn w)) opts) thr (fwEnc w) ms) (fwConn w)"
  shows "\<exists>s. exchangeF cd opts thr sz ms (w, r) = Some (Inr (map (\<lambda>(mt, ps). (mt, concat ps)) ms), s)"
  using assms(2-)
proof (induction ms arbitrary: w r h)
  case (Cons m ms)
  obtain mt ps where m: "m = (mt, ps)" by (cases m)
  let ?tk = "writerTakeover (cClient (fwConn w)) opts"
  have f: "mt = opText \<or> mt = opBinary" "length (concat (outsOf cd thr ps (fwEnc w))) < 2 ^ 63" "limit < 0 \<or> int (length (concat ps)) < limit"
    "fitsF cd ?tk thr limit (nextEnc cd ?tk thr ps (fwEnc w)) ms" using Cons.prems(2) by (auto simp: m)
  have k: "canWrite (Suc (2 * length (outsOf cd thr ps (fwEnc w))) + keysF cd ?tk thr (nextEnc cd ?tk thr ps (fwEnc w)) ms) (fwConn w)"
    using Cons.prems(3) by (simp add: m)
  from exchange_one[OF assms(1) Cons.prems(1) f(1-3) k, of sz] obtain w' r' h' where
    e: "writeStreamF cd opts thr mt ps w = (None, w')" "Read_flate cd opts sz (deliverF w w' r) = Some (Inr (mt, concat ps), r')"
      "restingF hist opts limit h' (w', r')" "canWrite (keysF cd ?tk thr (nextEnc cd ?tk thr ps (fwEnc w)) ms) (fwConn w')"
      "cClient (fwConn w') = cClient (fwConn w)" "fwEnc w' = nextEnc cd ?tk thr ps (fwEnc w)" by blast
  from Cons.IH[OF e(3)] f(4) e(4-6) obtain s where
    "exchangeF cd opts thr sz ms (w', r') = Some (Inr (map (\<lambda>(mt, ps). (mt, concat ps)) ms), s)" by auto
  with e(1,2) show ?case by (simp add: m)
qed simp


subsection \<open>A codec\<close>

text \<open>A small codec that keeps the law: one byte in front of every byte, and a block that is not the last one, as four bytes, or is.\<close>

datatype escState = Start | Lit | Out "8 word" | Tail nat | Final | Bad

fun escNext :: "escState \<Rightarrow> escState ask" where
  "escNext Start = Ask (\<lambda>b. if b = 1 then Lit else if b = 0 then Tail 0 else if b = 2 then Final else Bad) []"
| "escNext Lit = Ask Out []"
| "escNext (Out b) = Give b [] Start"
| "escNext (Tail n) =
     Ask (\<lambda>b. if n = 0 then (if b = 0 then Tail 1 else Bad) else if b = 255 then (if n = 1 then Tail 2 else Start) else Bad) []"
| "escNext Final = Fail EOF"
| "escNext Bad = Fail (Plain ''flate: corrupt input'')"

definition escBytes :: "bytes \<Rightarrow> bytes" where "escBytes p = concat (map (\<lambda>b. [1, b]) p)"

definition escCodec :: "(unit, escState) codec" where
  "escCodec = \<lparr>eNew = (), eWrite = (\<lambda>p _. ([escBytes p], ())), eFlush = (\<lambda>_. ([deflateMessageTail], ())), dNew = (\<lambda>_. Start), dNext = escNext\<rparr>"

lemma decodes_append: "decodes cd d z out d1 \<Longrightarrow> decodes cd d1 z' out' d2 \<Longrightarrow> decodes cd d (z @ z') (out @ out') d2"
proof (induction rule: decodes.induct)
  case (Gives d b bs d1 z out d')
  from decodes.Gives[OF Gives.hyps(1) Gives.IH[OF Gives.prems]] show ?case by simp
qed (auto intro: decodes.intros)

lemma esc_compressAll: "compressAll escCodec ps u = (map escBytes ps @ [deflateMessageTail], ())"
  by (induction ps arbitrary: u) (simp_all add: escCodec_def)

lemma esc_dNext [simp]: "dNext escCodec = escNext"
  by (simp add: escCodec_def)

lemma esc_decodes: "decodes escCodec Start (escBytes p) p Start"
proof (induction p)
  case (Cons b p)
  have "decodes escCodec (Out b) (escBytes p) ([b] @ p) Start" by (rule decodes.Gives[OF _ Cons.IH]) simp
  then have "decodes escCodec Lit (b # escBytes p) (b # p) Start" by (auto intro!: decodes.Asks[where k = Out and held = "[]"])
  then have "decodes escCodec Start (1 # b # escBytes p) (b # p) Start" by - (rule decodes.Asks, simp, simp)
  then show ?case by (simp add: escBytes_def)
qed (simp add: escBytes_def decodes.DoneAll)

lemma esc_decodes_concat: "decodes escCodec Start (concat (map escBytes ps)) (concat ps) Start"
  by (induction ps) (auto intro: decodes.DoneAll decodes_append[OF esc_decodes])

lemma esc_tail: "decodes escCodec Start deflateMessageTail [] Start"
  unfolding deflateMessageTail_def by (rule decodes.Asks, simp, simp)+ (simp add: decodes.DoneAll)

lemma esc_laws: "flateLaws escCodec (\<lambda>_ _. True)"
proof -
  have "decodesAll escCodec Start (concat (map escBytes ps) @ deflateMessageTail) (concat ps)" for ps
    using decodes_append[OF esc_decodes_concat esc_tail, of ps] by (auto simp: decodesAll_def escCodec_def)
  moreover have "dNew escCodec d = Start" for d by (simp add: escCodec_def)
  ultimately show ?thesis by (auto simp: flateLaws_def esc_compressAll)
qed

definition exampleWriter :: "unit fwriter" where
  "exampleWriter = \<lparr>fwConn = (newConn False (\<lambda>_. []) None [] emptyBw [])\<lparr>cFlate := True\<rparr>, fwFlate = False, fwTail = [], fwEnc = None\<rparr>"

definition exampleReader :: "bytes \<Rightarrow> escState freader" where
  "exampleReader inp = \<lparr>frConn = (exampleConn inp)\<lparr>cFlate := True\<rparr>, frFlate = False, frDec = ([], Inr EOF), frBufio = [], frTail = [], frDict = None\<rparr>"

theorem compressed_link_witness:
  "\<exists>s. exchangeF escCodec (modeOpts CompressionContextTakeover) 2 (\<lambda>_. 0) [(opText, [[1, 2], [3]]), (opBinary, [[4]]), (opText, [[1, 2, 3]])]
     (exampleWriter, exampleReader []) = Some (Inr [(opText, [1, 2, 3]), (opBinary, [4]), (opText, [1, 2, 3])], s)"
proof -
  have "restingF (\<lambda>_ _. True) (modeOpts CompressionContextTakeover) 32769 [] (exampleWriter, exampleReader [])"
    by (simp add: restingF_def exampleWriter_def exampleReader_def drained_def between_def idle_def connOK_def exampleConn_def newConn_def emptyBw_def
        bwGood_def defaultReadLimit_def windowFor_def)
  from compressed_link[OF esc_laws this, of 2 "[(opText, [[1, 2], [3]]), (opBinary, [[4]]), (opText, [[1, 2, 3]])]" "\<lambda>_. 0"] show ?thesis
    by (auto simp: exampleWriter_def newConn_def canWrite_def modeOpts_def writerTakeover_def outsOf_def nextEnc_def compressible_def esc_compressAll
        escBytes_def deflateMessageTail_def simp del: compressAll.simps)
qed

text \<open>
  The buffered reader is not reset between messages. A message that ends with a final block, as RFC 7692 allows, leaves there the bytes behind the
  block, and the next message is decompressed with these bytes in front: it fails and closes the connection, where a new reader
  returns it.
\<close>

definition finalBlock :: bytes where "finalBlock = flateWire True True opText [[1, 7, 2, 0]] [0]"
definition plainBlock :: bytes where "plainBlock = flateWire True True opText [[1, 9]] [0]"

definition readTwice :: "bytes \<Rightarrow> (msg \<times> (gerr + msg) \<times> bool) option" where
  "readTwice inp =
     (case Read_flate escCodec (modeOpts CompressionNoContextTakeover) (\<lambda>_. 0) (exampleReader inp) of
        Some (Inr m, s) \<Rightarrow>
          map_option (\<lambda>(x, s'). (m, x, cClosed (frConn s'))) (Read_flate escCodec (modeOpts CompressionNoContextTakeover) (\<lambda>_. 0) s)
      | _ \<Rightarrow> None)"

lemma final_block_corrupts_next:
  "readTwice (finalBlock @ plainBlock) = Some ((opText, [7]), Inl (Wrapped ''failed to read'' (Plain ''flate: corrupt input'')), True)"
  by code_simp

lemma plain_block_reads:
  "map_option fst (Read_flate escCodec (modeOpts CompressionNoContextTakeover) (\<lambda>_. 0) (exampleReader plainBlock)) = Some (Inr (opText, [9]))"
  by code_simp

end
