(* ===== verification/ConnSync.thy ===== *)
theory ConnSync
  imports ConnLink
begin

text \<open>
  \<open>internal/nhooyr.io/websocket/conn.go\<close> and \<open>read.go\<close>, the parts that several goroutines share: the mutex \<open>mu\<close>, the timeout
  loop, \<open>Ping\<close> with its wait, \<open>CloseRead\<close> and the setters of the listeners. A \<open>select\<close> takes any of its ready cases; the choice is an
  argument. The second half shows that the frames of concurrent writers do not interleave.
\<close>

subsection \<open>The mutex\<close>

text \<open>A channel of capacity one: full while the mutex is held. The error of a context is \<open>None\<close> as long as it has not ended.\<close>

type_synonym mu = bool

definition Canceled :: gerr where "Canceled = Sentinel ''context.Canceled''"

definition newMu :: mu where "newMu = False"

definition forceLock :: "mu \<Rightarrow> mu option" where "forceLock m = (if m then None else Some True)"

definition tryLock :: "mu \<Rightarrow> bool \<times> mu" where "tryLock m = (if m then (False, m) else (True, True))"

definition unlock :: "mu \<Rightarrow> mu" where "unlock m = False"

definition lock :: "nat \<Rightarrow> gerr option \<Rightarrow> mu \<Rightarrow> conn \<Rightarrow> (gerr option \<times> mu \<times> conn) option" where
  "lock pick ctxErr m c =
     goSelect pick
       [(cClosed c, (Some ErrNetClosed, m, c)),
        (ctxErr \<noteq> None,
           let err = Wrapped ''failed to acquire lock'' (case ctxErr of Some e \<Rightarrow> e | None \<Rightarrow> Canceled)
           in (Some err, m, closeConn (Some err) c)),
        (\<not> m, if cClosed c then (Some ErrNetClosed, unlock True, c) else (None, True, c))]"

lemma cClosed_closeConn [simp]: "cClosed (closeConn err c)"
  by (simp add: closeConn_def)

lemma cClosed_Close_conn [simp]: "cClosed (snd (Close_conn code reason c))"
  by (simp add: Close_conn_def waitCloseHandshake_def split: prod.splits option.splits)

lemma lock_ok: "lock pick ctxErr m c = Some (None, m', c') \<Longrightarrow> m' \<and> \<not> m \<and> c' = c \<and> \<not> cClosed c"
  by (auto simp: lock_def Let_def split: if_splits dest!: goSelect_ready)

lemma lock_error: "lock pick ctxErr m c = Some (Some e, m', c') \<Longrightarrow> m' = m \<and> cClosed c'"
  by (auto simp: lock_def Let_def unlock_def split: if_splits dest!: goSelect_ready)

lemma lock_free: "\<not> cClosed c \<Longrightarrow> lock pick None False c = Some (None, True, c)"
  by (simp add: lock_def goSelect_def readyCases_def)

lemma lock_returns: "\<not> m \<or> cClosed c \<or> ctxErr \<noteq> None \<Longrightarrow> lock pick ctxErr m c \<noteq> None"
  by (auto simp: lock_def goSelect_blocks)

subsection \<open>Concurrent writers\<close>

text \<open>
  \<open>writeFrame\<close> in the steps between which other goroutines run: with the mutex held the header, the payload and the flush. The
  three parts are those of \<open>writeFrame\<close>; \<open>Inl\<close> is its return.
\<close>

record job =
  jFin :: bool
  jOp :: opcode
  jPayload :: bytes

definition hdrPhase :: "job \<Rightarrow> conn \<Rightarrow> (gerr option \<times> conn) + header \<times> conn" where
  "hdrPhase j c =
     (case nextKey c of
        None \<Rightarrow> Inl (failFrame (Wrapped ''failed to generate masking key'' ErrRand) c)
      | Some (key, c1) \<Rightarrow>
          (let h = frameHeader (cClient c) (jFin j) (jOp j) (length (jPayload j)) key
           in case writeFrameHeader h bufWrite (cBw c1) of
                (Some e, w) \<Rightarrow> Inl (failFrame e (c1\<lparr>cBw := w\<rparr>))
              | (None, w) \<Rightarrow> Inr (h, c1\<lparr>cBw := w\<rparr>)))"

definition payPhase :: "job \<Rightarrow> header \<Rightarrow> conn \<Rightarrow> (gerr option \<times> conn) + conn" where
  "payPhase j h c =
     (case writeFramePayload h (jPayload j) (cBw c) of
        (Some e, w) \<Rightarrow> Inl (failFrame e (c\<lparr>cBw := w\<rparr>))
      | (None, w) \<Rightarrow> Inr (c\<lparr>cBw := w\<rparr>))"

definition flushPhase :: "job \<Rightarrow> conn \<Rightarrow> gerr option \<times> conn" where
  "flushPhase j c =
     (if jFin j
      then (case Flush (cBw c) of
              (Some e, w) \<Rightarrow> failFrame (Wrapped ''failed to flush'' e) (c\<lparr>cBw := w\<rparr>)
            | (None, w) \<Rightarrow> (None, c\<lparr>cBw := w\<rparr>))
      else (None, c))"

abbreviation writeJob :: "job \<Rightarrow> conn \<Rightarrow> gerr option \<times> conn" where
  "writeJob j \<equiv> writeFrame (jFin j) (jOp j) (jPayload j)"

abbreviation refused :: "job \<Rightarrow> conn \<Rightarrow> bool" where
  "refused j c \<equiv> cWroteClose c \<and> jOp j \<noteq> opClose"

lemma nextKey_conn: "nextKey c = Some (k, c1) \<Longrightarrow> c1\<lparr>cBw := cBw c1\<rparr> = c1 \<and> cClosed c1 = cClosed c \<and> cWroteClose c1 = cWroteClose c"
  by (auto simp: nextKey_def split: if_splits list.splits)

lemma writeJob_phases:
  assumes "\<not> cClosed c" and "\<not> refused j c"
  shows "writeJob j c = (case hdrPhase j c of Inl r \<Rightarrow> r | Inr (h, c1) \<Rightarrow> (case payPhase j h c1 of Inl r \<Rightarrow> r | Inr c2 \<Rightarrow> flushPhase j c2))"
proof (cases "nextKey c")
  case None
  with assms show ?thesis by (auto simp: writeFrame_def hdrPhase_def)
next
  case (Some kc)
  obtain key c1 where kc: "kc = (key, c1)" by (cases kc)
  let ?h = "frameHeader (cClient c) (jFin j) (jOp j) (length (jPayload j)) key"
  obtain e w where hw: "writeFrameHeader ?h bufWrite (cBw c1) = (e, w)" by (cases "writeFrameHeader ?h bufWrite (cBw c1)")
  obtain e' w' where pw: "writeFramePayload ?h (jPayload j) w = (e', w')" by (cases "writeFramePayload ?h (jPayload j) w")
  show ?thesis
    using assms Some kc hw pw
    by (cases e; cases e') (auto simp: writeFrame_def hdrPhase_def payPhase_def flushPhase_def Let_def split: option.splits prod.splits)
qed

datatype pc = PIdle | PLocked job | PPayload job header | PFlush job | PUnlock

record wsys =
  wsMu :: mu
  wsConn :: conn
  wsPc :: "nat \<Rightarrow> pc"
  wsLog :: "(nat \<times> job \<times> gerr option) list"

definition startSys :: "conn \<Rightarrow> wsys" where
  "startSys c = \<lparr>wsMu = newMu, wsConn = c, wsPc = (\<lambda>_. PIdle), wsLog = []\<rparr>"

text \<open>The call of a goroutine has returned, with or without the mutex to release.\<close>

definition finishJob :: "nat \<Rightarrow> job \<Rightarrow> pc \<Rightarrow> gerr option \<times> conn \<Rightarrow> wsys \<Rightarrow> wsys" where
  "finishJob i j q r s = s\<lparr>wsConn := snd r, wsPc := (wsPc s)(i := q), wsLog := wsLog s @ [(i, j, fst r)]\<rparr>"

inductive wfStep :: "wsys \<Rightarrow> wsys \<Rightarrow> bool" where
  lockFails: "wsPc s i = PIdle \<Longrightarrow> lock pick None (wsMu s) (wsConn s) = Some (Some e, m, c)
    \<Longrightarrow> wfStep s (finishJob i j PIdle (Some e, c) (s\<lparr>wsMu := m\<rparr>))"
| lockTaken: "wsPc s i = PIdle \<Longrightarrow> lock pick None (wsMu s) (wsConn s) = Some (None, m, c)
    \<Longrightarrow> wfStep s (s\<lparr>wsMu := m, wsConn := c, wsPc := (wsPc s)(i := PLocked j)\<rparr>)"
| afterClose: "wsPc s i = PLocked j \<Longrightarrow> refused j (wsConn s)
    \<Longrightarrow> wfStep s (finishJob i j PIdle (Some DeadlineExceeded, wsConn s) (s\<lparr>wsMu := unlock (wsMu s)\<rparr>))"
| headerFails: "wsPc s i = PLocked j \<Longrightarrow> \<not> refused j (wsConn s) \<Longrightarrow> hdrPhase j (wsConn s) = Inl r
    \<Longrightarrow> wfStep s (finishJob i j PUnlock r s)"
| header: "wsPc s i = PLocked j \<Longrightarrow> \<not> refused j (wsConn s) \<Longrightarrow> hdrPhase j (wsConn s) = Inr (h, c)
    \<Longrightarrow> wfStep s (s\<lparr>wsConn := c, wsPc := (wsPc s)(i := PPayload j h)\<rparr>)"
| payloadFails: "wsPc s i = PPayload j h \<Longrightarrow> payPhase j h (wsConn s) = Inl r \<Longrightarrow> wfStep s (finishJob i j PUnlock r s)"
| payload: "wsPc s i = PPayload j h \<Longrightarrow> payPhase j h (wsConn s) = Inr c
    \<Longrightarrow> wfStep s (s\<lparr>wsConn := c, wsPc := (wsPc s)(i := PFlush j)\<rparr>)"
| flush: "wsPc s i = PFlush j \<Longrightarrow> wfStep s (finishJob i j PUnlock (flushPhase j (wsConn s)) s)"
| release: "wsPc s i = PUnlock \<Longrightarrow> wfStep s (s\<lparr>wsMu := unlock (wsMu s), wsPc := (wsPc s)(i := PIdle)\<rparr>)"

text \<open>The specification: the calls one after the other.\<close>

fun seqJobs :: "job list \<Rightarrow> conn \<Rightarrow> gerr option list \<times> conn" where
  "seqJobs [] c = ([], c)"
| "seqJobs (j # js) c = (case writeJob j c of (e, c1) \<Rightarrow> (case seqJobs js c1 of (es, c2) \<Rightarrow> (e # es, c2)))"

lemma seqJobs_snoc: "seqJobs (js @ [j]) c = (let (es, c1) = seqJobs js c; (e, c2) = writeJob j c1 in (es @ [e], c2))"
  by (induction js arbitrary: c) (auto split: prod.splits)

text \<open>How far the holder of the mutex is: \<open>c\<close> is the connection when it took the mutex, \<open>c'\<close> the one of now.\<close>

fun midway :: "pc \<Rightarrow> conn \<Rightarrow> conn \<Rightarrow> bool" where
  "midway PIdle c c' \<longleftrightarrow> False"
| "midway (PLocked j) c c' \<longleftrightarrow> c' = c \<and> \<not> cClosed c"
| "midway (PPayload j h) c c' \<longleftrightarrow> \<not> cClosed c \<and> \<not> refused j c \<and> hdrPhase j c = Inr (h, c')"
| "midway (PFlush j) c c' \<longleftrightarrow> \<not> cClosed c \<and> \<not> refused j c \<and> (\<exists>h c1. hdrPhase j c = Inr (h, c1) \<and> payPhase j h c1 = Inr c')"
| "midway PUnlock c c' \<longleftrightarrow> c' = c"

definition wsInv :: "conn \<Rightarrow> wsys \<Rightarrow> bool" where
  "wsInv c0 s \<longleftrightarrow> (\<exists>c. seqJobs (map (fst \<circ> snd) (wsLog s)) c0 = (map (snd \<circ> snd) (wsLog s), c)
     \<and> ((\<forall>i. wsPc s i = PIdle) \<and> \<not> wsMu s \<and> wsConn s = c
        \<or> (\<exists>i. wsMu s \<and> (\<forall>k. k \<noteq> i \<longrightarrow> wsPc s k = PIdle) \<and> midway (wsPc s i) c (wsConn s))))"

lemma hdrPhase_open: "hdrPhase j c = Inr (h, c') \<Longrightarrow> cClosed c' = cClosed c"
  by (auto simp: hdrPhase_def Let_def nextKey_def split: option.splits prod.splits if_splits list.splits)

lemma payPhase_open: "payPhase j h c = Inr c' \<Longrightarrow> cClosed c' = cClosed c"
  by (auto simp: payPhase_def split: option.splits prod.splits)

text \<open>A goroutine may find the connection closed while another holds the mutex only when that one is about to release it.\<close>

lemma midway_closed: "midway q c c' \<Longrightarrow> cClosed c' \<Longrightarrow> c' = c"
  by (cases "(q, c, c')" rule: midway.cases) (auto dest: hdrPhase_open payPhase_open)

lemma wsInv_finish:
  assumes "seqJobs (map (fst \<circ> snd) (wsLog s)) c0 = (map (snd \<circ> snd) (wsLog s), c)" and "writeJob j c = r"
  shows "seqJobs (map (fst \<circ> snd) (wsLog (finishJob i j q r s))) c0 = (map (snd \<circ> snd) (wsLog (finishJob i j q r s)), snd r)"
  using assms by (auto simp: finishJob_def seqJobs_snoc split: prod.splits)

lemma wsInv_holder: "wsInv c0 s \<Longrightarrow> wsPc s i \<noteq> PIdle \<Longrightarrow> wsMu s \<and> (\<forall>k. k \<noteq> i \<longrightarrow> wsPc s k = PIdle)
    \<and> (\<exists>c. seqJobs (map (fst \<circ> snd) (wsLog s)) c0 = (map (snd \<circ> snd) (wsLog s), c) \<and> midway (wsPc s i) c (wsConn s))"
  unfolding wsInv_def by metis

lemma wsInv_unlocking:
  assumes "wsInv c0 s" and "wsPc s i \<noteq> PIdle" and "\<And>c. midway (wsPc s i) c (wsConn s) \<Longrightarrow> writeJob j c = r"
  shows "wsInv c0 (finishJob i j PUnlock r s)"
proof -
  from wsInv_holder[OF assms(1,2)] obtain c where c: "wsMu s" "\<forall>k. k \<noteq> i \<longrightarrow> wsPc s k = PIdle"
    "seqJobs (map (fst \<circ> snd) (wsLog s)) c0 = (map (snd \<circ> snd) (wsLog s), c)" "midway (wsPc s i) c (wsConn s)" by blast
  from wsInv_finish[OF c(3) assms(3)[OF c(4)], of i PUnlock] c(1,2) show ?thesis
    unfolding wsInv_def by (intro exI[of _ "snd r"] conjI disjI2 exI[of _ i]) (auto simp: finishJob_def)
qed

lemma wsInv_advance:
  assumes "wsInv c0 s" and "wsPc s i \<noteq> PIdle" and "\<And>c. midway (wsPc s i) c (wsConn s) \<Longrightarrow> midway q c c'"
  shows "wsInv c0 (s\<lparr>wsConn := c', wsPc := (wsPc s)(i := q)\<rparr>)"
  using wsInv_holder[OF assms(1,2)] assms(3) unfolding wsInv_def by auto

lemma wsInv_step: "wfStep s s' \<Longrightarrow> wsInv c0 s \<Longrightarrow> wsInv c0 s'"
proof (induction rule: wfStep.induct)
  case (lockFails s i pick e m c j)
  from lockFails(2) have cl: "cClosed (wsConn s)" "e = ErrNetClosed" "m = wsMu s" "c = wsConn s"
    by (auto simp: lock_def unlock_def split: if_splits dest!: goSelect_ready)
  from lockFails(3) obtain d where d0: "seqJobs (map (fst \<circ> snd) (wsLog s)) c0 = (map (snd \<circ> snd) (wsLog s), d)"
    and hold: "(\<forall>i. wsPc s i = PIdle) \<and> \<not> wsMu s \<and> wsConn s = d
      \<or> (\<exists>i. wsMu s \<and> (\<forall>k. k \<noteq> i \<longrightarrow> wsPc s k = PIdle) \<and> midway (wsPc s i) d (wsConn s))" unfolding wsInv_def by blast
  have d: "seqJobs (map (fst \<circ> snd) (wsLog s)) c0 = (map (snd \<circ> snd) (wsLog s), d)" "wsConn s = d"
    using d0 hold midway_closed cl(1) by metis+
  have "writeJob j d = (Some ErrNetClosed, d)" using d(2) cl(1) by (simp add: writeFrame_def)
  from wsInv_finish[OF d(1) this, of i PIdle] show ?case
    using lockFails(1) cl hold d(2) unfolding wsInv_def finishJob_def by (intro exI[of _ d]) (simp add: fun_upd_idem)
next
  case (lockTaken s i pick m c j)
  with lock_ok[OF lockTaken(2)] show ?case unfolding wsInv_def by auto
next
  case (afterClose s i j)
  from wsInv_holder[OF afterClose(3), of i] afterClose(1) obtain d where d: "\<forall>k. k \<noteq> i \<longrightarrow> wsPc s k = PIdle"
    "seqJobs (map (fst \<circ> snd) (wsLog s)) c0 = (map (snd \<circ> snd) (wsLog s), d)" "wsConn s = d" "\<not> cClosed d" by auto
  have "writeJob j d = (Some DeadlineExceeded, d)" using d(3,4) afterClose(2) by (simp add: writeFrame_def)
  from wsInv_finish[OF d(2) this, of i PIdle] show ?case
    using d(1,3) unfolding wsInv_def finishJob_def by (auto simp: unlock_def)
next
  case (headerFails s i j r)
  show ?case by (rule wsInv_unlocking[OF headerFails(4)]) (use headerFails in \<open>auto simp: writeJob_phases\<close>)
next
  case (header s i j h c)
  show ?case by (rule wsInv_advance[OF header(4)]) (use header in auto)
next
  case (payloadFails s i j h r)
  show ?case by (rule wsInv_unlocking[OF payloadFails(3)]) (use payloadFails in \<open>auto simp: writeJob_phases\<close>)
next
  case (payload s i j h c)
  show ?case by (rule wsInv_advance[OF payload(3)]) (use payload in auto)
next
  case (flush s i j)
  show ?case by (rule wsInv_unlocking[OF flush(2)]) (use flush in \<open>auto simp: writeJob_phases\<close>)
next
  case (release s i)
  from wsInv_holder[OF release(2), of i] release(1) show ?case unfolding wsInv_def by (auto simp: unlock_def)
qed

text \<open>
  C9: The frames of concurrent writers do not interleave: whatever the schedule, every call of \<open>writeFrame\<close> that has returned has
  the result it has when the calls are made one after the other, in the order of the log, and when no call is under way the
  connection, its buffer and its stream are those of that sequence of calls.
\<close>

theorem writers_linearise:
  assumes "wfStep\<^sup>*\<^sup>* (startSys c0) s"
  shows "fst (seqJobs (map (fst \<circ> snd) (wsLog s)) c0) = map (snd \<circ> snd) (wsLog s)
     \<and> ((\<forall>i. wsPc s i = PIdle) \<longrightarrow> wsConn s = snd (seqJobs (map (fst \<circ> snd) (wsLog s)) c0))
     \<and> (\<forall>i k. wsPc s i \<noteq> PIdle \<longrightarrow> wsPc s k \<noteq> PIdle \<longrightarrow> i = k)"
proof -
  have "wsInv c0 (startSys c0)" by (simp add: wsInv_def startSys_def newMu_def)
  with assms have "wsInv c0 s" by (induction rule: rtranclp_induct) (auto dest: wsInv_step)
  then show ?thesis unfolding wsInv_def by (metis fst_conv midway.simps(1) snd_conv)
qed

text \<open>A call can always be made and completed when the mutex is free.\<close>

definition ranJob :: "nat \<Rightarrow> job \<Rightarrow> wsys \<Rightarrow> wsys" where
  "ranJob i j s = s\<lparr>wsMu := False, wsConn := snd (writeJob j (wsConn s)), wsLog := wsLog s @ [(i, j, fst (writeJob j (wsConn s)))]\<rparr>"

lemma wfStep_released:
  assumes "wsPc s i = PIdle" and "\<not> wsMu s" and "wfStep\<^sup>*\<^sup>* s (finishJob i j PUnlock r (s\<lparr>wsMu := True, wsConn := c, wsPc := (wsPc s)(i := q)\<rparr>))"
    and "writeJob j (wsConn s) = r"
  shows "wfStep\<^sup>*\<^sup>* s (ranJob i j s)"
proof -
  let ?f = "finishJob i j PUnlock r (s\<lparr>wsMu := True, wsConn := c, wsPc := (wsPc s)(i := q)\<rparr>)"
  have "wsPc ?f i = PUnlock" by (simp add: finishJob_def)
  note rel = wfStep.release[OF this]
  have "?f\<lparr>wsMu := unlock (wsMu ?f), wsPc := (wsPc ?f)(i := PIdle)\<rparr> = ranJob i j s"
    using assms(1,4) by (cases s) (simp add: finishJob_def ranJob_def unlock_def fun_upd_idem)
  with rel have "wfStep ?f (ranJob i j s)" by (simp only:)
  with assms(3) show ?thesis by (rule rtranclp.rtrancl_into_rtrancl)
qed

lemma wfStep_run:
  assumes "wsPc s i = PIdle" and "\<not> wsMu s"
  shows "wfStep\<^sup>*\<^sup>* s (ranJob i j s)"
proof (cases "cClosed (wsConn s)")
  case True
  then have "lock 0 None (wsMu s) (wsConn s) = Some (Some ErrNetClosed, False, wsConn s)"
    using assms(2) by (simp add: lock_def goSelect_def readyCases_def)
  from wfStep.lockFails[OF assms(1) this, of j] have "wfStep s (ranJob i j s)"
    using True assms(1) by (simp add: finishJob_def ranJob_def writeFrame_def fun_upd_idem)
  then show ?thesis by (rule r_into_rtranclp)
next
  case False
  let ?s1 = "s\<lparr>wsMu := True, wsConn := wsConn s, wsPc := (wsPc s)(i := PLocked j)\<rparr>"
  have "lock 0 None (wsMu s) (wsConn s) = Some (None, True, wsConn s)" using lock_free[OF False] assms(2) by simp
  from wfStep.lockTaken[OF assms(1) this] have s1: "wfStep\<^sup>*\<^sup>* s ?s1" by (rule r_into_rtranclp)
  have pc1: "wsPc ?s1 i = PLocked j" "wsConn ?s1 = wsConn s" by simp_all
  show ?thesis
  proof (cases "refused j (wsConn s)")
    case True
    from wfStep.afterClose[OF pc1(1)] True have "wfStep ?s1 (ranJob i j s)"
      using False assms by (simp add: finishJob_def ranJob_def writeFrame_def unlock_def fun_upd_idem)
    with s1 show ?thesis by (rule rtranclp.rtrancl_into_rtrancl)
  next
    case go: False
    note ph = writeJob_phases[OF False go]
    have step1: "\<not> refused j (wsConn ?s1)" using go by simp
    show ?thesis
    proof (cases "hdrPhase j (wsConn s)")
      case (Inl r)
      from wfStep.headerFails[OF pc1(1) step1] Inl have "wfStep ?s1 (finishJob i j PUnlock r ?s1)" by simp
      from wfStep_released[OF assms rtranclp.rtrancl_into_rtrancl[OF s1 this]] Inl ph show ?thesis by simp
    next
      case (Inr hc)
      obtain h c1 where hc: "hc = (h, c1)" by (cases hc)
      let ?s2 = "s\<lparr>wsMu := True, wsConn := c1, wsPc := (wsPc s)(i := PPayload j h)\<rparr>"
      from wfStep.header[OF pc1(1) step1] Inr hc have "wfStep ?s1 ?s2" by simp
      with s1 have s2: "wfStep\<^sup>*\<^sup>* s ?s2" by (rule rtranclp.rtrancl_into_rtrancl)
      have pc2: "wsPc ?s2 i = PPayload j h" by simp
      show ?thesis
      proof (cases "payPhase j h c1")
        case (Inl r)
        from wfStep.payloadFails[OF pc2] Inl have "wfStep ?s2 (finishJob i j PUnlock r ?s2)" by simp
        from wfStep_released[OF assms rtranclp.rtrancl_into_rtrancl[OF s2 this]] Inl Inr hc ph show ?thesis by simp
      next
        case pay: (Inr c2)
        let ?s3 = "s\<lparr>wsMu := True, wsConn := c2, wsPc := (wsPc s)(i := PFlush j)\<rparr>"
        from wfStep.payload[OF pc2] pay have "wfStep ?s2 ?s3" by simp
        with s2 have s3: "wfStep\<^sup>*\<^sup>* s ?s3" by (rule rtranclp.rtrancl_into_rtrancl)
        have "wsPc ?s3 i = PFlush j" by simp
        from wfStep.flush[OF this] have "wfStep ?s3 (finishJob i j PUnlock (flushPhase j c2) ?s3)" by simp
        from wfStep_released[OF assms rtranclp.rtrancl_into_rtrancl[OF s3 this]] pay Inr hc ph show ?thesis by simp
      qed
    qed
  qed
qed

definition exampleJob :: "bytes \<Rightarrow> job" where "exampleJob p = \<lparr>jFin = True, jOp = opText, jPayload = p\<rparr>"

theorem writers_linearise_witness:
  "\<exists>s. wfStep\<^sup>*\<^sup>* (startSys (exampleConn [])) s \<and> map fst (wsLog s) = [1, 0]
     \<and> wsConn s = snd (seqJobs [exampleJob [7], exampleJob [8, 9]] (exampleConn []))"
proof -
  let ?s0 = "startSys (exampleConn [])"
  let ?s1 = "ranJob 1 (exampleJob [7]) ?s0"
  let ?s2 = "ranJob 0 (exampleJob [8, 9]) ?s1"
  have "wfStep\<^sup>*\<^sup>* ?s0 ?s1" "wfStep\<^sup>*\<^sup>* ?s1 ?s2"
    by (rule wfStep_run; simp add: startSys_def newMu_def ranJob_def)+
  then have r: "wfStep\<^sup>*\<^sup>* ?s0 ?s2" by (rule rtranclp_trans)
  have "\<forall>i. wsPc ?s2 i = PIdle" by (simp add: startSys_def ranJob_def)
  with writers_linearise[OF r] have
    "wsConn ?s2 = snd (seqJobs (map (fst \<circ> snd) (wsLog ?s2)) (exampleConn []))" by blast
  moreover have "map (fst \<circ> snd) (wsLog ?s2) = [exampleJob [7], exampleJob [8, 9]]" "map fst (wsLog ?s2) = [1, 0]"
    by (simp_all add: startSys_def ranJob_def)
  ultimately show ?thesis using r by metis
qed

subsection \<open>The timeout loop\<close>

text \<open>
  A context is a number, \<open>None\<close> the background context, which never ends; \<open>tlDone\<close> has the errors of those that have ended.
  \<open>tlSpawned\<close> counts the goroutines the loop has started and that have not run yet.
\<close>

record tloop =
  tlConn :: conn
  tlRead :: "nat option"
  tlWrite :: "nat option"
  tlDone :: "nat \<Rightarrow> gerr option"
  tlSpawned :: nat
  tlReturned :: bool

definition ctxErrOf :: "nat option \<Rightarrow> tloop \<Rightarrow> gerr option" where
  "ctxErrOf x s = (case x of None \<Rightarrow> None | Some i \<Rightarrow> tlDone s i)"

definition startLoop :: "conn \<Rightarrow> tloop" where
  "startLoop c = \<lparr>tlConn = c, tlRead = None, tlWrite = None, tlDone = (\<lambda>_. None), tlSpawned = 0, tlReturned = False\<rparr>"

text \<open>One round: \<open>offerW\<close> and \<open>offerR\<close> are the contexts that other goroutines are about to send on the two channels.\<close>

definition timeoutRound :: "nat \<Rightarrow> nat option option \<Rightarrow> nat option option \<Rightarrow> tloop \<Rightarrow> tloop option" where
  "timeoutRound pick offerW offerR s =
     goSelect pick
       [(cClosed (tlConn s), s\<lparr>tlReturned := True\<rparr>),
        (offerW \<noteq> None, s\<lparr>tlWrite := (case offerW of Some x \<Rightarrow> x | None \<Rightarrow> None)\<rparr>),
        (offerR \<noteq> None, s\<lparr>tlRead := (case offerR of Some x \<Rightarrow> x | None \<Rightarrow> None)\<rparr>),
        (ctxErrOf (tlRead s) s \<noteq> None,
           s\<lparr>tlConn := setCloseErr (Wrapped ''read timed out'' (the (ctxErrOf (tlRead s) s))) (tlConn s),
             tlSpawned := Suc (tlSpawned s)\<rparr>),
        (ctxErrOf (tlWrite s) s \<noteq> None,
           s\<lparr>tlConn := closeConn (Some (Wrapped ''write timed out'' (the (ctxErrOf (tlWrite s) s)))) (tlConn s),
             tlReturned := True\<rparr>)]"

definition readTimedOut :: "conn \<Rightarrow> conn" where
  "readTimedOut c = writeError StatusPolicyViolation (Plain ''read timed out'') c"

text \<open>The loop, the ends of contexts, and the goroutines it has started.\<close>

inductive tlStep :: "tloop \<Rightarrow> tloop \<Rightarrow> bool" where
  round: "\<not> tlReturned s \<Longrightarrow> timeoutRound pick offerW offerR s = Some s' \<Longrightarrow> tlStep s s'"
| ctxEnds: "tlDone s i = None \<Longrightarrow> tlStep s (s\<lparr>tlDone := (tlDone s)(i := Some e)\<rparr>)"
| spawned: "tlSpawned s = Suc n \<Longrightarrow> tlStep s (s\<lparr>tlConn := readTimedOut (tlConn s), tlSpawned := n\<rparr>)"

definition timedOut :: "string \<Rightarrow> tloop \<Rightarrow> bool" where
  "timedOut txt s \<longleftrightarrow> (\<exists>i e. tlDone s i = Some e \<and> cCloseErr (tlConn s) = Some (Wrapped ''WebSocket closed'' (Wrapped txt e)))"

definition tlInv :: "tloop \<Rightarrow> bool" where
  "tlInv s \<longleftrightarrow> (tlReturned s \<longrightarrow> cClosed (tlConn s)) \<and> (tlSpawned s \<noteq> 0 \<longrightarrow> cCloseErr (tlConn s) \<noteq> None)
     \<and> (cClosed (tlConn s) \<longrightarrow> cCloseErr (tlConn s) \<noteq> None)
     \<and> (cCloseErr (tlConn s) \<noteq> None \<longrightarrow> timedOut ''read timed out'' s \<or> timedOut ''write timed out'' s)"

lemma closeErr_first:
  "cCloseErr c = Some x \<Longrightarrow> cCloseErr (setCloseErr e c) = Some x" "cCloseErr c = Some x \<Longrightarrow> cCloseErr (closeConn err c) = Some x"
  by (auto simp: setCloseErr_def closeConn_def setCloseErrLocked_def split: option.splits)

lemma closeErr_writeFrame: "cCloseErr c = Some x \<Longrightarrow> cCloseErr (snd (writeFrame f op p c)) = Some x"
proof -
  assume x: "cCloseErr c = Some x"
  have k: "nextKey c = Some (key, c1) \<Longrightarrow> cCloseErr c1 = Some x" for key c1
    using x by (auto simp: nextKey_def split: if_splits list.splits)
  show ?thesis
    by (auto simp: writeFrame_def failFrame_def Let_def x k closeErr_first split: option.splits prod.splits)
qed

lemma closeErr_writeClose: "cCloseErr c = Some x \<Longrightarrow> cCloseErr (snd (writeClose code reason c)) = Some x"
  by (auto simp: writeClose_def writeControl_def split_def intro!: closeErr_first closeErr_writeFrame)

lemma closeErr_writeError: "cCloseErr c = Some x \<Longrightarrow> cCloseErr (writeError code err c) = Some x"
  by (simp add: writeError_def closeErr_first closeErr_writeClose)

lemma closeErr_set: "cCloseErr c = None \<Longrightarrow> cCloseErr (setCloseErr e c) = Some (Wrapped ''WebSocket closed'' e)"
  "cCloseErr c = None \<Longrightarrow> \<not> cClosed c \<Longrightarrow> cCloseErr (closeConn (Some e) c) = Some (Wrapped ''WebSocket closed'' e)"
  by (auto simp: setCloseErr_def closeConn_def setCloseErrLocked_def)

lemma timedOut_mono: "timedOut txt s \<Longrightarrow> (\<And>i e. tlDone s i = Some e \<Longrightarrow> tlDone s' i = Some e)
    \<Longrightarrow> (\<And>x. cCloseErr (tlConn s) = Some x \<Longrightarrow> cCloseErr (tlConn s') = Some x) \<Longrightarrow> timedOut txt s'"
  unfolding timedOut_def by blast

lemma cClosed_setCloseErr [simp]: "cClosed (setCloseErr e c) = cClosed c"
  by (simp add: setCloseErr_def)

lemma tlInv_readDone:
  assumes "tlInv s" and "ctxErrOf (tlRead s) s = Some e"
  shows "tlInv (s\<lparr>tlConn := setCloseErr (Wrapped ''read timed out'' e) (tlConn s), tlSpawned := Suc (tlSpawned s)\<rparr>)"
proof (cases "cCloseErr (tlConn s)")
  case None
  then show ?thesis using assms by (auto simp: tlInv_def timedOut_def closeErr_set ctxErrOf_def split: option.splits)
next
  case (Some x)
  then show ?thesis using assms closeErr_first(1)[OF Some] by (auto simp: tlInv_def timedOut_def)
qed

lemma tlInv_writeDone:
  assumes "tlInv s" and "ctxErrOf (tlWrite s) s = Some e"
  shows "tlInv (s\<lparr>tlConn := closeConn (Some (Wrapped ''write timed out'' e)) (tlConn s), tlReturned := True\<rparr>)"
proof (cases "cCloseErr (tlConn s)")
  case None
  then have "\<not> cClosed (tlConn s)" using assms(1) by (auto simp: tlInv_def)
  with None show ?thesis using assms by (auto simp: tlInv_def timedOut_def closeErr_set ctxErrOf_def split: option.splits)
next
  case (Some x)
  then show ?thesis using assms closeErr_first(2)[OF Some] by (auto simp: tlInv_def timedOut_def)
qed

lemma tlInv_step: "tlStep s s' \<Longrightarrow> tlInv s \<Longrightarrow> tlInv s'"
proof (induction rule: tlStep.induct)
  case (round s pick offerW offerR s')
  from goSelect_ready[OF round(2)[unfolded timeoutRound_def]] round(3) show ?case
    using tlInv_readDone[OF round(3)] tlInv_writeDone[OF round(3)]
    by (auto, auto simp: tlInv_def timedOut_def)
next
  case (ctxEnds s i e)
  let ?s = "s\<lparr>tlDone := (tlDone s)(i := Some e)\<rparr>"
  have "tlDone s k = Some x \<Longrightarrow> tlDone ?s k = Some x" for k x using ctxEnds(1) by auto
  then have "timedOut t s \<Longrightarrow> timedOut t ?s" for t using timedOut_mono[of t s ?s] by simp
  then show ?case using ctxEnds(2) by (auto simp: tlInv_def)
next
  case (spawned s n)
  then obtain x where x: "cCloseErr (tlConn s) = Some x" by (auto simp: tlInv_def)
  then have "cCloseErr (readTimedOut (tlConn s)) = Some x" by (simp add: readTimedOut_def closeErr_writeError)
  with spawned x show ?case by (auto simp: tlInv_def timedOut_def readTimedOut_def)
qed

text \<open>
  The timeout loop of a connection: it returns only when the connection is closed, and whatever it does to the connection it
  does because a context it was given has ended: the close error, once set, says whether a read or a write timed out and wraps
  the error of a context that has ended.
\<close>

theorem timeoutLoop_sound:
  assumes "tlStep\<^sup>*\<^sup>* (startLoop c) s" and "\<not> cClosed c" and "cCloseErr c = None"
  shows "(tlReturned s \<longrightarrow> cClosed (tlConn s)) \<and> (cClosed (tlConn s) \<longrightarrow> cCloseErr (tlConn s) \<noteq> None)
     \<and> (\<forall>x. cCloseErr (tlConn s) = Some x \<longrightarrow>
          (\<exists>txt i e. txt \<in> {''read timed out'', ''write timed out''} \<and> tlDone s i = Some e
             \<and> x = Wrapped ''WebSocket closed'' (Wrapped txt e)))"
proof -
  have "tlInv (startLoop c)" using assms(2,3) by (simp add: tlInv_def startLoop_def)
  with assms(1) have "tlInv s" by (induction rule: rtranclp_induct) (auto dest: tlInv_step)
  then have "(tlReturned s \<longrightarrow> cClosed (tlConn s)) \<and> (cClosed (tlConn s) \<longrightarrow> cCloseErr (tlConn s) \<noteq> None)"
    "cCloseErr (tlConn s) \<noteq> None \<longrightarrow> timedOut ''read timed out'' s \<or> timedOut ''write timed out'' s" by (simp_all add: tlInv_def)
  then show ?thesis unfolding timedOut_def by (metis insertI1 insertI2 option.distinct(1) option.inject)
qed

text \<open>The loop on one context that ends: from then on every round may take the case of the read timeout again.\<close>

definition spin :: "nat \<Rightarrow> gerr \<Rightarrow> conn \<Rightarrow> tloop" where
  "spin n e c = \<lparr>tlConn = (if n = 0 then c else setCloseErr (Wrapped ''read timed out'' e) c), tlRead = Some 0, tlWrite = None,
     tlDone = (\<lambda>_. None)(0 := Some e), tlSpawned = n, tlReturned = False\<rparr>"

lemma setCloseErr_again: "setCloseErr e (setCloseErr e c) = setCloseErr e c"
  by (cases c) (simp add: setCloseErr_def setCloseErrLocked_def split: option.splits)

lemma spin_round: "\<not> cClosed c \<Longrightarrow> timeoutRound 0 None None (spin n e c) = Some (spin (Suc n) e c)"
  by (auto simp: timeoutRound_def spin_def goSelect_def readyCases_def ctxErrOf_def setCloseErr_again)

lemma spin_reached:
  assumes "\<not> cClosed c"
  shows "tlStep\<^sup>*\<^sup>* (startLoop c) (spin n e c)"
proof (induction n)
  case 0
  let ?s1 = "(startLoop c)\<lparr>tlRead := Some 0\<rparr>"
  have "timeoutRound 0 None (Some (Some 0)) (startLoop c) = Some ?s1"
    using assms by (simp add: timeoutRound_def goSelect_def readyCases_def startLoop_def ctxErrOf_def)
  from tlStep.round[OF _ this] have "tlStep (startLoop c) ?s1" by (simp add: startLoop_def)
  moreover have "tlStep ?s1 (spin 0 e c)"
    using tlStep.ctxEnds[of ?s1 0 e] by (simp add: startLoop_def spin_def)
  ultimately show ?case by (meson converse_rtranclp_into_rtranclp r_into_rtranclp)
next
  case (Suc n)
  have "tlStep (spin n e c) (spin (Suc n) e c)" using tlStep.round[OF _ spin_round[OF assms]] by (simp add: spin_def)
  with Suc show ?case by (rule rtranclp.rtrancl_into_rtrancl)
qed

theorem timeoutLoop_sound_witness:
  "\<exists>s. tlStep\<^sup>*\<^sup>* (startLoop (exampleConn [])) s
     \<and> cCloseErr (tlConn s) = Some (Wrapped ''WebSocket closed'' (Wrapped ''read timed out'' Canceled)) \<and> tlDone s 0 = Some Canceled"
proof -
  let ?s = "spin 1 Canceled (exampleConn [])"
  have r: "tlStep\<^sup>*\<^sup>* (startLoop (exampleConn [])) ?s" by (rule spin_reached) (simp add: exampleConn_def newConn_def)
  from timeoutLoop_sound[OF r] have "cCloseErr (tlConn ?s) = Some x \<longrightarrow> (\<exists>txt i e. txt \<in> {''read timed out'', ''write timed out''}
      \<and> tlDone ?s i = Some e \<and> x = Wrapped ''WebSocket closed'' (Wrapped txt e))" for x
    by (simp add: exampleConn_def newConn_def)
  with r show ?thesis by (intro exI[of _ ?s]) (simp add: spin_def setCloseErr_def setCloseErrLocked_def exampleConn_def newConn_def)
qed

text \<open>
  A read that times out makes the loop spin: the ended context stays its read context, so that until the connection is closed
  the same case is ready in every round, and each round starts another goroutine: there is no bound on their number.
\<close>

theorem timeoutLoop_spins:
  assumes "\<not> cClosed c"
  shows "\<exists>s. tlStep\<^sup>*\<^sup>* (startLoop c) s \<and> tlSpawned s = n \<and> \<not> cClosed (tlConn s) \<and> \<not> tlReturned s"
  using spin_reached[OF assms, of n Canceled] assms by (intro exI[of _ "spin n Canceled c"]) (simp add: spin_def)

theorem timeoutLoop_spins_witness:
  "\<exists>s. tlStep\<^sup>*\<^sup>* (startLoop (exampleConn [])) s \<and> tlSpawned s = 1000 \<and> \<not> cClosed (tlConn s) \<and> \<not> tlReturned s"
  by (rule timeoutLoop_spins) (simp add: exampleConn_def newConn_def)

subsection \<open>Ping\<close>

text \<open>
  The channel of a ping has a signal when a pong with its payload has been handled since the ping was registered, which was when
  \<open>n0\<close> events had been seen. The deferred function removes the ping.
\<close>

definition pingWait :: "nat \<Rightarrow> gerr option \<Rightarrow> bytes \<Rightarrow> nat \<Rightarrow> conn \<Rightarrow> (gerr option \<times> conn) option" where
  "pingWait pick ctxErr p n0 c =
     map_option (\<lambda>(err, c'). (err, c'\<lparr>cActivePings := removeAll p (cActivePings c')\<rparr>))
       (goSelect pick
          [(cClosed c, (Some ErrNetClosed, c)),
           (ctxErr \<noteq> None,
              let err = Wrapped ''failed to wait for pong'' (case ctxErr of Some e \<Rightarrow> e | None \<Rightarrow> Canceled)
              in (Some err, closeConn (Some err) c)),
           (PongSignalled p \<in> set (drop n0 (cEvents c)), (None, c))])"

definition nextPing :: "conn \<Rightarrow> bytes" where
  "nextPing c = bytes_of (show_int (sint (word_of_int (cPingCounter c + 1) :: 32 word)))"

text \<open>\<open>env\<close> is what the other goroutines do to the connection between the send and the return of the select.\<close>

definition Ping :: "nat \<Rightarrow> gerr option \<Rightarrow> (conn \<Rightarrow> conn) \<Rightarrow> conn \<Rightarrow> (gerr option \<times> conn) option" where
  "Ping pick ctxErr env c =
     (case sendPing c of
        (Some e, c1) \<Rightarrow> Some (Some e, c1)
      | (None, c1) \<Rightarrow>
          map_option (\<lambda>(err, c2). (errdWrap ''failed to ping'' err, c2)) (pingWait pick ctxErr (nextPing c) (length (cEvents c)) (env c1)))"

lemma sendPing_ok:
  assumes "drained c" and "canWrite 1 c"
  shows "\<exists>c'. sendPing c = (None, c') \<and> drained c' \<and> cClient c' = cClient c \<and> cIn c' = cIn c \<and> cEvents c' = cEvents c
     \<and> cActivePings c' = nextPing c # cActivePings c \<and> cRand c' = dropKeys 1 c \<and> mrFin c' = mrFin c \<and> mrPayloadLength c' = mrPayloadLength c
     \<and> lrLimit c' = lrLimit c
     \<and> bwSent (cBw c') = bwSent (cBw c) @ frameBytes (cClient c) True opPing (nextPing c) (if cClient c then List.hd (cRand c) else 0)"
proof -
  let ?n = "sint (word_of_int (cPingCounter c + 1) :: 32 word)"
  let ?c = "c\<lparr>cPingCounter := ?n, cActivePings := nextPing c # cActivePings c\<rparr>" and ?k = "if cClient c then List.hd (cRand c) else 0"
  have ok: "connOK ?c" "canWrite (Suc 0) ?c" using assms by (simp_all add: drained_def connOK_def canWrite_def)
  from nextKey_eq[OF ok(2)] have k: "nextKey ?c = Some (?k, ?c\<lparr>cRand := dropKeys 1 c\<rparr>)" by (simp add: dropKeys_def)
  from writeFrame_ok[OF disjI1[OF ok(1)] k, of True opPing "nextPing c"] obtain w where
    w: "writeFrame True opPing (nextPing c) ?c = (None, ?c\<lparr>cRand := dropKeys 1 c, cBw := w\<rparr>)"
    "bwContent w = bwContent (cBw c) @ frameBytes (cClient c) True opPing (nextPing c) ?k" "bwGood w" "bwBuf w = []" by auto
  have "sendPing c = (None, ?c\<lparr>cRand := dropKeys 1 c, cBw := w\<rparr>)"
    using w(1) by (simp add: sendPing_def nextPing_def writeControl_def errdWrap_def Let_def)
  with w(2-4) assms(1) show ?thesis by (simp add: drained_def connOK_def bwContent_def)
qed

lemma length_show_nat: "n < 10 ^ Suc k \<Longrightarrow> length (show_nat n) \<le> Suc k"
proof (induction k arbitrary: n)
  case 0
  then show ?case by (subst show_nat.simps) simp
next
  case (Suc k)
  then have "n div 10 < 10 ^ Suc k" by (simp add: div_less_iff_less_mult)
  from Suc.IH[OF this] show ?case by (subst show_nat.simps) simp
qed

lemma length_nextPing: "length (nextPing c) \<le> 125"
proof -
  let ?n = "sint (word_of_int (cPingCounter c + 1) :: 32 word)"
  have "- (2 ^ 31) \<le> ?n" "?n < 2 ^ 31"
    using sint_greater_eq[of "word_of_int (cPingCounter c + 1) :: 32 word"] sint_less[of "word_of_int (cPingCounter c + 1) :: 32 word"] by simp_all
  then have "nat (- ?n) < 10 ^ Suc 9" "nat ?n < 10 ^ Suc 9" by simp_all
  from this[THEN length_show_nat] show ?thesis by (auto simp: nextPing_def show_int_def bytes_of_def)
qed

lemma ioStep_Write_conn: "\<exists>c1. c1 = c\<lparr>mwOpcode := mwOpcode c1, mwClosed := mwClosed c1\<rparr> \<and> ioStep c1 (snd (Write_conn mt p c))"
proof (cases "cClosed c")
  case True
  then show ?thesis by (intro exI[of _ c]) (simp add: Write_conn_def mwReset_def)
next
  case False
  let ?c = "c\<lparr>mwOpcode := mt, mwClosed := False\<rparr>"
  from False have "snd (Write_conn mt p c) = snd (writeFrame True mt p ?c)" by (simp add: Write_conn_def mwReset_def split_def)
  then show ?thesis by (intro exI[of _ ?c]) simp
qed

lemma Write_conn_keeps:
  assumes "Write_conn mt p c = (e, c')"
  shows "cIn c' = cIn c" "cEvents c' = cEvents c" "cActivePings c' = cActivePings c" "mrFin c' = mrFin c"
    "mrPayloadLength c' = mrPayloadLength c" "lrLimit c' = lrLimit c"
proof -
  from ioStep_Write_conn[of c mt p] assms obtain c1 where
    c1: "c1 = c\<lparr>mwOpcode := mwOpcode c1, mwClosed := mwClosed c1\<rparr>" "ioStep c1 c'" by auto
  have "cIn c1 = cIn c" "cEvents c1 = cEvents c" "cActivePings c1 = cActivePings c" "mrFin c1 = mrFin c"
    "mrPayloadLength c1 = mrPayloadLength c" "lrLimit c1 = lrLimit c" by (subst c1(1), simp)+
  with ioStep_fields[OF c1(2)] show "cIn c' = cIn c" "cEvents c' = cEvents c" "cActivePings c' = cActivePings c" "mrFin c' = mrFin c"
    "mrPayloadLength c' = mrPayloadLength c" "lrLimit c' = lrLimit c" by simp_all
qed

text \<open>
  A request and its response: one end writes a message, the other reads it and answers with a message, which the first end
  reads. \<open>c\<close> and \<open>s\<close> are the ends when all that had been sent had arrived.
\<close>

definition exchange :: "conn \<Rightarrow> conn \<Rightarrow> msg \<Rightarrow> msg \<Rightarrow> conn \<Rightarrow> conn" where
  "exchange c s m m' c1 =
     (let c2 = snd (Write_conn (fst m) (snd m) c1);
          s1 = snd (Read_conn (\<lambda>_. 0) (deliver c c2 s));
          s2 = snd (Write_conn (fst m') (snd m') s1)
      in snd (Read_conn (\<lambda>_. 0) (deliver s s2 c2)))"

definition msgOK :: "conn \<Rightarrow> msg \<Rightarrow> bool" where
  "msgOK c m \<longleftrightarrow> fst m \<in> {opText, opBinary} \<and> length (snd m) < 2 ^ 63 \<and> (lrLimit c < 0 \<or> int (length (snd m)) < lrLimit c)"

text \<open>A message behind a control frame.\<close>

lemma Read_ctl_message:
  assumes "idle r" and "msgOK r m" and "length b \<le> 125" and "keysFor [Ctl ping b k] r"
    and "cIn r = peerFrame (cClient r) True (if ping then opPing else opPong) b k @ wireBytes (cClient r) (fst m) (message [snd m] [k'])"
  shows "\<exists>r'. Read_conn sz r = (Inr m, r') \<and> served [Ctl ping b k] r r' \<and> idle r'"
proof -
  let ?items = "[Ctl ping b k, Part (snd m) k']"
  have "cIn r = wireBytes (cClient r) (fst m) ?items @ []" using assms(5) by (simp add: message_def)
  moreover have "keysFor ?items r" "lrLimit r < 0 \<or> int (length (partsOf ?items)) < lrLimit r" "list_all itemOK ?items"
    "fst m \<in> {opText, opBinary}" "connOK r" "mrFin r"
    using assms(1-4) by (auto simp: keysFor_def msgOK_def idle_def)
  ultimately obtain r' where r': "Read_conn sz r = (Inr (fst m, snd m), r')" "served ?items r r'" "idle r'"
    using Read_conn_message[of r "fst m" ?items "[]" sz] by auto
  have "served [Ctl ping b k] r r'" using r'(2) by (cases ping) (auto simp: served_def)
  with r' show ?thesis by auto
qed

lemma canWrite_dropKeys: "canWrite 2 c \<Longrightarrow> cRand c' = dropKeys 1 c \<Longrightarrow> cClient c' = cClient c \<Longrightarrow> canWrite 1 c'"
  by (auto simp: canWrite_def dropKeys_def)

text \<open>
  C24: \<open>Ping\<close> is answered: when a ping goes out before a request, the peer answers it while it reads the request, the pong is handled
  while the response is read, and \<open>Ping\<close> returns without an error, for both roles. The ping is registered no longer.
\<close>

theorem Ping_answered:
  assumes "drained c" "idle c" "cIn c = []" "canWrite 2 c" and "drained s" "idle s" "cIn s = []" "canWrite 2 s"
    and "cClient s \<noteq> cClient c" and "msgOK s m" and "msgOK c m'"
  shows "\<exists>c'. Ping pick None (exchange c s m m') c = Some (None, c') \<and> idle c' \<and> nextPing c \<notin> set (cActivePings c')
     \<and> cEvents c' = cEvents c @ [PongHeard (nextPing c), PongSignalled (nextPing c)]"
proof -
  let ?p = "nextPing c" and ?k = "if cClient c then List.hd (cRand c) else 0"
  have w1: "canWrite 1 c" "canWrite 1 s" using assms(4,8) by (auto simp: canWrite_def)
  from sendPing_ok[OF assms(1) w1(1)] obtain c1 where c1: "sendPing c = (None, c1)" "drained c1" "cClient c1 = cClient c" "cIn c1 = cIn c"
    "cEvents c1 = cEvents c" "cActivePings c1 = ?p # cActivePings c" "cRand c1 = dropKeys 1 c" "mrFin c1 = mrFin c"
    "mrPayloadLength c1 = mrPayloadLength c" "lrLimit c1 = lrLimit c"
    "bwSent (cBw c1) = bwSent (cBw c) @ frameBytes (cClient c) True opPing ?p ?k" by blast
  have "canWrite 1 c1" using canWrite_dropKeys[OF assms(4) c1(7,3)] .
  from Write_conn_ok[OF c1(2) this, of "fst m" "snd m"] obtain c2 where c2: "Write_conn (fst m) (snd m) c1 = (None, c2)" "drained c2"
    "cClient c2 = cClient c1" "bwSent (cBw c2) = bwSent (cBw c1) @ wireBytes (\<not> cClient c1) (fst m) (message [snd m] (writeKeys 1 c1))" by blast
  note k2 = Write_conn_keeps[OF c2(1)]
  obtain k' where k': "writeKeys 1 c1 = [k']" using length_writeKeys[OF \<open>canWrite 1 c1\<close>] by (cases "writeKeys 1 c1") auto
  let ?s = "deliver c c2 s"
  have s: "idle ?s" "msgOK ?s m" "cClient ?s = (\<not> cClient c)" "cEvents ?s = cEvents s" "cActivePings ?s = cActivePings s" "cBw ?s = cBw s"
    "cRand ?s = cRand s"
    using assms(6,9,10) by (auto simp: deliver_def msgOK_def)
  have "cIn ?s = peerFrame (cClient ?s) True opPing ?p ?k @ wireBytes (cClient ?s) (fst m) (message [snd m] [k'])"
    using c1(3,11) c2(4) k' assms(7) s(3) by (simp add: deliver_def peerFrame_def)
  moreover have "keysFor [Ctl True ?p ?k] ?s" using assms(8,9) by (auto simp: keysFor_def canWrite_def deliver_def)
  ultimately obtain s1 where s1: "Read_conn (\<lambda>_. 0) ?s = (Inr m, s1)" "served [Ctl True ?p ?k] ?s s1" "idle s1"
    using Read_ctl_message[OF s(1,2) length_nextPing, of True c ?k k'] by auto
  let ?ks = "if cClient s then List.hd (cRand s) else 0"
  have d1: "drained s1" "cClient s1 = cClient s" "cRand s1 = dropKeys 1 s"
    "bwSent (cBw s1) = bwSent (cBw s) @ frameBytes (cClient s) True opPong ?p ?ks"
    using s1(2) assms(5) by (auto simp: served_def drained_def bwContent_def deliver_def dropKeys_def)
  have "canWrite 1 s1" using canWrite_dropKeys[OF assms(8) d1(3,2)] .
  from Write_conn_ok[OF d1(1) this, of "fst m'" "snd m'"] obtain s2 where s2: "Write_conn (fst m') (snd m') s1 = (None, s2)"
    "bwSent (cBw s2) = bwSent (cBw s1) @ wireBytes (\<not> cClient s1) (fst m') (message [snd m'] (writeKeys 1 s1))" by blast
  obtain k'' where k'': "writeKeys 1 s1 = [k'']" using length_writeKeys[OF \<open>canWrite 1 s1\<close>] by (cases "writeKeys 1 s1") auto
  let ?c = "deliver s s2 c2"
  have c: "idle ?c" "msgOK ?c m'" "cClient ?c = cClient c" "cEvents ?c = cEvents c" "cActivePings ?c = ?p # cActivePings c"
    using assms(2,11) c1 c2(2,3) k2 by (auto simp: deliver_def msgOK_def idle_def drained_def)
  have "cIn ?c = peerFrame (cClient ?c) True opPong ?p ?ks @ wireBytes (cClient ?c) (fst m') (message [snd m'] [k''])"
    using d1(2,4) s2(2) k'' assms(3,9) c(3) k2(1) c1(4) by (auto simp: deliver_def peerFrame_def)
  then obtain c3 where c3: "Read_conn (\<lambda>_. 0) ?c = (Inr m', c3)" "served [Ctl False ?p ?ks] ?c c3" "idle c3"
    using Read_ctl_message[OF c(1,2) length_nextPing, of False c ?ks k''] by (auto simp: keysFor_def)
  have ev: "cEvents c3 = cEvents c @ [PongHeard ?p, PongSignalled ?p]" "\<not> cClosed c3"
    using c3(2,3) c(4,5) by (auto simp: served_def idle_def connOK_def)
  have ex: "exchange c s m m' c1 = c3" using c2(1) s1(1) s2(1) c3(1) by (simp add: exchange_def)
  have "Ping pick None (exchange c s m m') c = Some (None, c3\<lparr>cActivePings := removeAll ?p (cActivePings c3)\<rparr>)"
    using c1(1) ev by (simp add: Ping_def ex pingWait_def goSelect_def readyCases_def errdWrap_def)
  with ev c3(3) show ?thesis by (simp add: idle_def connOK_def)
qed

definition exampleServer :: conn where "exampleServer = newConn False (\<lambda>_. []) None [] emptyBw []"

theorem Ping_answered_witness:
  "\<exists>c'. Ping 0 None (exchange (exampleConn []) exampleServer (opText, [1]) (opBinary, [2, 3])) (exampleConn []) = Some (None, c')
     \<and> idle c' \<and> cEvents c' = [PongHeard (nextPing (exampleConn [])), PongSignalled (nextPing (exampleConn []))]"
proof -
  have e: "drained (exampleConn [])" "idle (exampleConn [])" "cIn (exampleConn []) = []" "canWrite 2 (exampleConn [])"
    "cEvents (exampleConn []) = []" "msgOK (exampleConn []) (opBinary, [2, 3])"
    by (simp_all add: drained_def idle_def connOK_def exampleConn_def newConn_def emptyBw_def bwGood_def canWrite_def msgOK_def defaultReadLimit_def)
  have s: "drained exampleServer" "idle exampleServer" "cIn exampleServer = []" "canWrite 2 exampleServer"
    "cClient exampleServer \<noteq> cClient (exampleConn [])" "msgOK exampleServer (opText, [1])"
    by (simp_all add: drained_def idle_def connOK_def exampleConn_def exampleServer_def newConn_def emptyBw_def bwGood_def canWrite_def msgOK_def
        defaultReadLimit_def)
  from Ping_answered[OF e(1-4) s e(6), of 0] e(5) show ?thesis by auto
qed

subsection \<open>CloseRead\<close>

text \<open>
  The goroutine of \<open>CloseRead\<close> and the wait group of the connection: \<open>crOthers\<close> is the number of the other goroutines in the group,
  \<open>crSelf\<close> whether this one is in it, \<open>crCtx\<close> whether the returned context has ended. \<open>Close\<close> and \<open>CloseNow\<close> wait for the group when
  they return.
\<close>

datatype crPc = CrReader | CrCloseWait | CrCancel | CrDoneWg | CrCloseNow | CrCloseNowWait | CrFinished

record crSys =
  crConn :: conn
  crPc :: crPc
  crOthers :: nat
  crSelf :: bool
  crCtx :: bool

definition unexpectedData :: bytes where "unexpectedData = bytes_of ''unexpected data message''"

definition crStart :: "conn \<Rightarrow> nat \<Rightarrow> crSys" where
  "crStart c n = \<lparr>crConn = c, crPc = CrReader, crOthers = n, crSelf = True, crCtx = False\<rparr>"

definition wgEmpty :: "crSys \<Rightarrow> bool" where "wgEmpty s \<longleftrightarrow> crOthers s = 0 \<and> \<not> crSelf s"

fun crNext :: "crSys \<Rightarrow> crSys option" where
  "crNext s =
     (case crPc s of
        CrReader \<Rightarrow>
          (case reader (crConn s) of
             (Inl e, c) \<Rightarrow> Some (s\<lparr>crConn := c, crPc := CrCancel\<rparr>)
           | (Inr mt, c) \<Rightarrow> Some (s\<lparr>crConn := snd (Close_conn StatusPolicyViolation unexpectedData c), crPc := CrCloseWait\<rparr>))
      | CrCloseWait \<Rightarrow> if wgEmpty s then Some (s\<lparr>crPc := CrCancel\<rparr>) else None
      | CrCancel \<Rightarrow> Some (s\<lparr>crCtx := True, crPc := CrDoneWg\<rparr>)
      | CrDoneWg \<Rightarrow> Some (s\<lparr>crSelf := False, crPc := CrCloseNow\<rparr>)
      | CrCloseNow \<Rightarrow> Some (s\<lparr>crConn := snd (CloseNow (crConn s)), crPc := CrCloseNowWait\<rparr>)
      | CrCloseNowWait \<Rightarrow> if wgEmpty s then Some (s\<lparr>crPc := CrFinished\<rparr>) else None
      | CrFinished \<Rightarrow> None)"

declare crNext.simps [simp del]

inductive crStep :: "crSys \<Rightarrow> crSys \<Rightarrow> bool" where
  self: "crNext s = Some s' \<Longrightarrow> crStep s s'"
| other: "crOthers s = Suc n \<Longrightarrow> crStep s (s\<lparr>crOthers := n\<rparr>)"

lemma closeReadWait_stuck: "crStep s s' \<Longrightarrow> crPc s = CrCloseWait \<and> crSelf s \<and> \<not> crCtx s \<Longrightarrow> crPc s' = CrCloseWait \<and> crSelf s' \<and> \<not> crCtx s'"
  by (induction rule: crStep.induct) (auto simp: crNext.simps wgEmpty_def split: if_splits)

text \<open>
  \<open>CloseRead\<close> deadlocks on a data message, the case it exists for: the goroutine calls \<open>Close\<close>, which waits for the goroutines of
  the connection, this one among them. The connection is closed, but the goroutine never ends and the context that was
  returned to the caller is never cancelled.
\<close>

theorem CloseRead_deadlocks:
  assumes "reader c = (Inr mt, c1)" and "crStep\<^sup>*\<^sup>* (crStart c n) s"
  shows "\<not> crCtx s \<and> crPc s \<in> {CrReader, CrCloseWait}"
proof -
  have "crSelf s \<and> \<not> crCtx s \<and> (crPc s = CrReader \<and> crConn s = c \<or> crPc s = CrCloseWait)" using assms(2)
  proof (induction rule: rtranclp_induct)
    case base
    show ?case by (simp add: crStart_def)
  next
    case (step s s')
    then show ?case
    proof (cases "crPc s = CrReader")
      case True
      from step(2) show ?thesis by cases (use True step(3) assms(1) in \<open>auto simp: crNext.simps\<close>)
    next
      case False
      with step closeReadWait_stuck[OF step(2)] show ?thesis by blast
    qed
  qed
  then show ?thesis by auto
qed

lemma crStep_others: "crStep\<^sup>*\<^sup>* s (s\<lparr>crOthers := 0\<rparr>)"
proof (induction "crOthers s" arbitrary: s)
  case 0
  then have "s\<lparr>crOthers := 0\<rparr> = s" by (cases s) simp
  then show ?case by simp
next
  case (Suc n)
  then have "crStep s (s\<lparr>crOthers := n\<rparr>)" by (intro crStep.other) simp
  moreover have "crStep\<^sup>*\<^sup>* (s\<lparr>crOthers := n\<rparr>) (s\<lparr>crOthers := 0\<rparr>)" using Suc(1)[of "s\<lparr>crOthers := n\<rparr>"] by simp
  ultimately show ?case by (rule converse_rtranclp_into_rtranclp)
qed

text \<open>When the reader ends with an error, as it does on the close frame of the peer, the goroutine can run to its end.\<close>

lemma CloseRead_ends:
  assumes "reader c = (Inl e, c1)"
  shows "\<exists>s. crStep\<^sup>*\<^sup>* (crStart c n) s \<and> crPc s = CrFinished \<and> crCtx s \<and> cClosed (crConn s)"
proof -
  define c2 where "c2 = snd (CloseNow c1)"
  let ?mk = "\<lambda>cc q m self ctx. \<lparr>crConn = cc, crPc = q, crOthers = m, crSelf = self, crCtx = ctx\<rparr>"
  have "crStep (crStart c n) (?mk c1 CrCancel n True False)" "crStep (?mk c1 CrCancel n True False) (?mk c1 CrDoneWg n True True)"
    "crStep (?mk c1 CrDoneWg n True True) (?mk c1 CrCloseNow n False True)" "crStep (?mk c1 CrCloseNow n False True) (?mk c2 CrCloseNowWait n False True)"
    "crStep (?mk c2 CrCloseNowWait 0 False True) (?mk c2 CrFinished 0 False True)"
    by (rule crStep.self, simp add: crNext.simps crStart_def assms c2_def wgEmpty_def)+
  moreover have "crStep\<^sup>*\<^sup>* (?mk c2 CrCloseNowWait n False True) (?mk c2 CrCloseNowWait 0 False True)"
    using crStep_others[of "?mk c2 CrCloseNowWait n False True"] by simp
  ultimately have "crStep\<^sup>*\<^sup>* (crStart c n) (?mk c2 CrFinished 0 False True)"
    by (meson converse_rtranclp_into_rtranclp rtranclp.rtrancl_into_rtrancl)
  moreover have "cClosed c2" by (simp add: c2_def CloseNow_def Let_def)
  ultimately show ?thesis by (metis crSys.select_convs(1,2,5))
qed

lemma reader_example: "\<exists>c1. reader (exampleConn (wireBytes True opText [Part [7] 0] @ [])) = (Inr opText, c1)"
proof -
  let ?c = "exampleConn (wireBytes True opText [Part [7] 0] @ [])"
  have "connOK ?c" "mrFin ?c" using exampleConn_idle by (simp_all add: idle_def del: wireBytes.simps)
  moreover have "keysFor [Part [7] 0] ?c" "cIn ?c = wireBytes (cClient ?c) opText [Part [7] 0] @ []"
    by (simp_all add: keysFor_def exampleConn_def newConn_def del: wireBytes.simps)
  ultimately show ?thesis
    using reader_message[of ?c opText "[Part [7] 0]" "[]" "\<exists>c1. reader ?c = (Inr opText, c1)"] by (simp del: wireBytes.simps)
qed

theorem CloseRead_deadlocks_witness:
  "\<exists>s. crStep (crStart (exampleConn (wireBytes True opText [Part [7] 0] @ [])) 1) s \<and> \<not> crCtx s \<and> crPc s = CrCloseWait"
proof -
  let ?c = "exampleConn (wireBytes True opText [Part [7] 0] @ [])"
  from reader_example obtain c1 where r: "reader ?c = (Inr opText, c1)" by blast
  let ?s = "(crStart ?c 1)\<lparr>crConn := snd (Close_conn StatusPolicyViolation unexpectedData c1), crPc := CrCloseWait\<rparr>"
  have st: "crStep (crStart ?c 1) ?s" by (rule crStep.self) (simp add: crNext.simps crStart_def r[simplified])
  have "crStep\<^sup>*\<^sup>* (crStart ?c 1) ?s" using st by (rule r_into_rtranclp)
  from CloseRead_deadlocks[OF r this] have "\<not> crCtx ?s" by blast
  with st show ?thesis by (intro exI[of _ ?s]) simp
qed

subsection \<open>Listeners and settings\<close>

text \<open>The listeners are functions on a state of their own; a missing one does nothing.\<close>

record 'l listeners =
  pingListener :: "bytes \<Rightarrow> 'l \<Rightarrow> 'l"
  pongListener :: "bytes \<Rightarrow> 'l \<Rightarrow> 'l"
  pingWriteTimeout :: int

definition SetPingListener :: "(bytes \<Rightarrow> 'l \<Rightarrow> 'l) option \<Rightarrow> 'l listeners \<Rightarrow> 'l listeners" where
  "SetPingListener f l = l\<lparr>pingListener := (case f of None \<Rightarrow> (\<lambda>_ s. s) | Some g \<Rightarrow> g)\<rparr>"

definition SetPongListener :: "(bytes \<Rightarrow> 'l \<Rightarrow> 'l) option \<Rightarrow> 'l listeners \<Rightarrow> 'l listeners" where
  "SetPongListener f l = l\<lparr>pongListener := (case f of None \<Rightarrow> (\<lambda>_ s. s) | Some g \<Rightarrow> g)\<rparr>"

definition SetPingWriteTimeout :: "int \<Rightarrow> 'l listeners \<Rightarrow> 'l listeners" where
  "SetPingWriteTimeout d l = l\<lparr>pingWriteTimeout := d\<rparr>"

text \<open>The time a control frame may take, in seconds, and the tighter bound for the pong.\<close>

definition pongTimeout :: "'l listeners \<Rightarrow> int \<Rightarrow> int" where
  "pongTimeout l second = (if pingWriteTimeout l > 0 then min (5 * second) (pingWriteTimeout l) else 5 * second)"

fun notify :: "'l listeners \<Rightarrow> connEvent \<Rightarrow> 'l \<Rightarrow> 'l" where
  "notify l (PingHeard b) s = pingListener l b s"
| "notify l (PongHeard b) s = pongListener l b s"
| "notify l (PongSignalled b) s = s"

end
