(* ===== verification/NetConn.thy ===== *)
theory NetConn
  imports ConnSync
begin

text \<open>
  \<open>internal/nhooyr.io/websocket/netconn.go\<close>: a connection as a \<open>net.Conn\<close>. The calls of one goroutine follow one another, as in the
  model of the connection; the timers fire between or during them. A call that does not return is \<open>None\<close>. The number of bytes that
  comes with an error is left out, and the text of an unexpected message type is the fixed part of it.
\<close>

subsection \<open>The state\<close>

text \<open>
  A context is the error with which it has ended, if it has; a timer the duration it is set to, if it runs. The reader, when there
  is one, is the message reader of the connection.
\<close>

record netConn =
  ncConn :: conn
  ncMsgType :: opcode
  writeTimer :: "int option"
  writeMu :: mu
  writeExpired :: int
  writeCtx :: "gerr option"
  readTimer :: "int option"
  readMu :: mu
  readExpired :: int
  readCtx :: "gerr option"
  readEOFed :: bool
  ncReader :: bool

definition NetConn :: "gerr option \<Rightarrow> conn \<Rightarrow> opcode \<Rightarrow> netConn" where
  "NetConn ctx c mt =
     \<lparr>ncConn = SetReadLimit (-1) c, ncMsgType = mt, writeTimer = None, writeMu = newMu, writeExpired = 0, writeCtx = ctx,
      readTimer = None, readMu = newMu, readExpired = 0, readCtx = ctx, readEOFed = False, ncReader = False\<rparr>"

definition cancelCtx :: "gerr option \<Rightarrow> gerr option" where
  "cancelCtx ctx = (case ctx of None \<Rightarrow> Some Canceled | Some e \<Rightarrow> Some e)"

subsection \<open>Deadlines\<close>

text \<open>The functions of the two timers: while a call holds the mutex its context is cancelled, otherwise later calls are refused.\<close>

definition writeTimerFires :: "netConn \<Rightarrow> netConn" where
  "writeTimerFires nc =
     (case tryLock (writeMu nc) of
        (False, _) \<Rightarrow> nc\<lparr>writeTimer := None, writeCtx := cancelCtx (writeCtx nc)\<rparr>
      | (True, m) \<Rightarrow> nc\<lparr>writeTimer := None, writeExpired := 1, writeMu := unlock m\<rparr>)"

definition readTimerFires :: "netConn \<Rightarrow> netConn" where
  "readTimerFires nc =
     (case tryLock (readMu nc) of
        (False, _) \<Rightarrow> nc\<lparr>readTimer := None, readCtx := cancelCtx (readCtx nc)\<rparr>
      | (True, m) \<Rightarrow> nc\<lparr>readTimer := None, readExpired := 1, readMu := unlock m\<rparr>)"

text \<open>\<open>None\<close> is the zero time.\<close>

definition deadlineTimer :: "int \<Rightarrow> int option \<Rightarrow> int option" where
  "deadlineTimer now t = (case t of None \<Rightarrow> None | Some at \<Rightarrow> Some (if at - now \<le> 0 then 1 else at - now))"

definition SetWriteDeadline :: "int \<Rightarrow> int option \<Rightarrow> netConn \<Rightarrow> netConn" where
  "SetWriteDeadline now t nc = nc\<lparr>writeExpired := 0, writeTimer := deadlineTimer now t\<rparr>"

definition SetReadDeadline :: "int \<Rightarrow> int option \<Rightarrow> netConn \<Rightarrow> netConn" where
  "SetReadDeadline now t nc = nc\<lparr>readExpired := 0, readTimer := deadlineTimer now t\<rparr>"

definition SetDeadline :: "int \<Rightarrow> int option \<Rightarrow> netConn \<Rightarrow> netConn" where
  "SetDeadline now t nc = SetReadDeadline now t (SetWriteDeadline now t nc)"

subsection \<open>Close, Write and Read\<close>

definition Close_nc :: "netConn \<Rightarrow> gerr option \<times> netConn" where
  "Close_nc nc =
     (let nc1 = nc\<lparr>writeTimer := None, writeCtx := cancelCtx (writeCtx nc), readTimer := None, readCtx := cancelCtx (readCtx nc)\<rparr>
      in case Close_conn StatusNormalClosure [] (ncConn nc1) of (err, c) \<Rightarrow> (err, nc1\<lparr>ncConn := c\<rparr>))"

text \<open>
  A call of the connection under a context: the mutex it takes first fails when the context has ended, unless the select takes the
  free mutex instead. \<open>msg\<close> is the text its error is wrapped with.
\<close>

definition underCtx :: "nat \<Rightarrow> gerr option \<Rightarrow> string \<Rightarrow> (conn \<Rightarrow> (gerr + 'a) \<times> conn) \<Rightarrow> conn \<Rightarrow> (gerr + 'a) \<times> conn" where
  "underCtx pick ctx msg f c =
     (case lock pick ctx newMu c of
        Some (Some e, _, c1) \<Rightarrow> (Inl (Wrapped msg e), c1)
      | _ \<Rightarrow> f c)"

definition Write_nc :: "nat \<Rightarrow> bytes \<Rightarrow> netConn \<Rightarrow> ((gerr + nat) \<times> netConn) option" where
  "Write_nc pick p nc =
     (case forceLock (writeMu nc) of
        None \<Rightarrow> None
      | Some m \<Rightarrow> Some
          (if writeExpired nc = 1 then (Inl (Wrapped ''failed to write'' DeadlineExceeded), nc\<lparr>writeMu := unlock m\<rparr>)
           else case underCtx pick (writeCtx nc) ''failed to write msg''
                       (\<lambda>c. case Write_conn (ncMsgType nc) p c of (Some e, c1) \<Rightarrow> (Inl e, c1) | (None, c1) \<Rightarrow> (Inr (length p), c1))
                       (ncConn nc) of
                  (r, c) \<Rightarrow> (r, nc\<lparr>ncConn := c, writeMu := unlock m\<rparr>)))"

definition unexpectedType :: gerr where "unexpectedType = Plain ''unexpected frame type read''"

text \<open>The part of \<open>read\<close> that makes sure there is a message reader: \<open>Inl\<close> when \<open>read\<close> returns.\<close>

definition ensureReader :: "nat \<Rightarrow> netConn \<Rightarrow> gerr option \<times> netConn" where
  "ensureReader pick nc =
     (if ncReader nc then (None, nc)
      else case underCtx pick (readCtx nc) ''failed to get reader'' reader (ncConn nc) of
        (Inl e, c) \<Rightarrow>
          if CloseStatus (Some e) = StatusNormalClosure \<or> CloseStatus (Some e) = StatusGoingAway
          then (Some EOF, nc\<lparr>ncConn := c, readEOFed := True\<rparr>)
          else (Some e, nc\<lparr>ncConn := c\<rparr>)
      | (Inr mt, c) \<Rightarrow>
          if mt \<noteq> ncMsgType nc
          then (Some unexpectedType, nc\<lparr>ncConn := snd (Close_conn StatusUnsupportedData (cErrText c unexpectedType) c)\<rparr>)
          else (None, nc\<lparr>ncConn := c, ncReader := True\<rparr>))"

definition read_nc :: "(nat \<Rightarrow> nat) \<Rightarrow> nat \<Rightarrow> netConn \<Rightarrow> (gerr + bytes) \<times> netConn" where
  "read_nc pick n nc =
     (if readExpired nc = 1 then (Inl (Wrapped ''failed to read'' DeadlineExceeded), nc)
      else if readEOFed nc then (Inl EOF, nc)
      else case ensureReader (pick 0) nc of
        (Some e, nc1) \<Rightarrow> (Inl e, nc1)
      | (None, nc1) \<Rightarrow>
          (case underCtx (pick 1) (readCtx nc1) ''failed to read'' (mrRead n) (ncConn nc1) of
             (Inr b, c) \<Rightarrow> (Inr b, nc1\<lparr>ncConn := c\<rparr>)
           | (Inl e, c) \<Rightarrow> if e = EOF then (Inr [], nc1\<lparr>ncConn := c, ncReader := False\<rparr>) else (Inl e, nc1\<lparr>ncConn := c\<rparr>)))"

partial_function (option) readRounds :: "(nat \<Rightarrow> nat) \<Rightarrow> nat \<Rightarrow> netConn \<Rightarrow> ((gerr + bytes) \<times> netConn) option" where
  "readRounds pick n nc =
     (case read_nc pick n nc of
        (Inl e, nc1) \<Rightarrow> Some (Inl e, nc1)
      | (Inr b, nc1) \<Rightarrow> if b = [] then readRounds (\<lambda>i. pick (i + 2)) n nc1 else Some (Inr b, nc1))"

definition Read_nc :: "(nat \<Rightarrow> nat) \<Rightarrow> nat \<Rightarrow> netConn \<Rightarrow> ((gerr + bytes) \<times> netConn) option" where
  "Read_nc pick n nc =
     (case forceLock (readMu nc) of
        None \<Rightarrow> None
      | Some m \<Rightarrow> map_option (\<lambda>(r, nc1). (r, nc1\<lparr>readMu := unlock m\<rparr>)) (readRounds pick n (nc\<lparr>readMu := m\<rparr>)))"

definition websocketAddr_Network :: string where "websocketAddr_Network = ''websocket''"
definition websocketAddr_String :: string where "websocketAddr_String = ''websocket/unknown-addr''"

subsection \<open>A byte stream\<close>

text \<open>
  What stands between the bytes that have been written and those that have been read: the rest of the current message, if the
  reader is inside one, and \<open>k\<close> whole messages behind it.
\<close>

definition queuedAt :: "conn \<Rightarrow> opcode \<Rightarrow> bytes list \<Rightarrow> bytes list \<Rightarrow> bool" where
  "queuedAt c mt ms bs \<longleftrightarrow> list_all2 (\<lambda>p b. wireOf (cClient c) (mt, p) b) ms bs"

definition streamIn :: "nat \<Rightarrow> conn \<Rightarrow> opcode \<Rightarrow> bytes \<Rightarrow> bool" where
  "streamIn k c mt s \<longleftrightarrow> (\<exists>q items ms bs. positioned c q items (concat bs) \<and> connOK c \<and> keysFor items c
     \<and> withinLimit c (length (q @ partsOf items)) \<and> queuedAt c mt ms bs \<and> length ms = k
     \<and> lrLimit c < 0 \<and> s = q @ partsOf items @ concat ms)"

definition streamOut :: "nat \<Rightarrow> conn \<Rightarrow> opcode \<Rightarrow> bytes \<Rightarrow> bool" where
  "streamOut k c mt s \<longleftrightarrow> (\<exists>ms bs. idle c \<and> cIn c = concat bs \<and> queuedAt c mt ms bs \<and> length ms = k \<and> lrLimit c < 0 \<and> s = concat ms)"

lemma queuedAt_client: "cClient c' = cClient c \<Longrightarrow> queuedAt c' mt ms bs = queuedAt c mt ms bs"
  by (simp add: queuedAt_def)

lemma ReadFull_length: "ReadFull n r = Inr (b, r') \<Longrightarrow> length b = n"
  by (auto simp: ReadFull_def split: if_splits)

lemma mask_frame_lengthD: "mask_frame key b = (m, key') \<Longrightarrow> length m = length b"
  using mask_frame_length[of key b] by simp

lemma msgRead_length: "msgRead n c = (Inr b, c') \<Longrightarrow> length b \<le> n"
proof (induction n c arbitrary: b c' rule: msgRead.induct)
  case (1 n c)
  show ?case
  proof (cases "mrPayloadLength c = 0")
    case True
    with 1(2) obtain h c1 where l: "readLoop c = (Inr h, c1)" "\<not> mrFin c" "hopcode h = opContinuation" "msgRead n (setFrame h c1) = (Inr b, c')"
      by (subst (asm) msgRead.simps) (auto simp: Let_def split: if_splits prod.splits sum.splits)
    from 1(1)[OF True l(2) l(1)[symmetric] refl _ l(4)] l(3) show ?thesis by simp
  next
    case False
    with 1(2) obtain b0 c1 where p: "readFramePayload (min n (mrPayloadLength c)) c = (Inr b0, c1)" "length b = length b0"
      by (subst (asm) msgRead.simps) (auto simp: Let_def split: if_splits prod.splits sum.splits dest: mask_frame_lengthD)
    then show ?thesis by (auto simp: readFramePayload_def Let_def split: if_splits sum.splits dest: ReadFull_length)
  qed
qed

lemma mrRead_length: "mrRead n c = (Inr b, c') \<Longrightarrow> length b \<le> n"
  using msgRead_length[of n c b] msgRead_length[of "min n (nat (lrN c))" c b]
  by (auto simp: mrRead_def limitRead_def Let_def split: if_splits prod.splits sum.splits)

text \<open>One read inside a message: the next bytes, or the end of the message.\<close>

lemma mrRead_stream:
  assumes "streamIn k c mt s" and "0 < n"
  shows "(\<exists>b c' s'. mrRead n c = (Inr b, c') \<and> b \<noteq> [] \<and> length b \<le> n \<and> s = b @ s' \<and> streamIn k c' mt s' \<and> cClient c' = cClient c)
       \<or> (\<exists>c'. mrRead n c = (Inl EOF, c') \<and> streamOut k c' mt s \<and> cClient c' = cClient c)"
proof -
  from assms(1) obtain q items ms bs where st: "positioned c q items (concat bs)" "connOK c" "keysFor items c"
    "withinLimit c (length (q @ partsOf items))" "queuedAt c mt ms bs" "length ms = k" "lrLimit c < 0" "s = q @ partsOf items @ concat ms"
    unfolding streamIn_def by blast
  from mrRead_message[OF st(1-3) assms(2) st(4)] show ?thesis
  proof (elim disjE exE conjE)
    fix b c' q' items' past
    assume d: "mrRead n c = (Inr b, c')" "b \<noteq> []" "items = past @ items'" "positioned c' q' items' (concat bs)" "served past c c'"
      "q @ partsOf items = b @ q' @ partsOf items'" "withinLimit c' (length (q' @ partsOf items'))"
    have c': "connOK c'" "cClient c' = cClient c" "lrLimit c' < 0" "keysFor items' c'"
      using d(3,5) st(3,7) keysFor_append[of past items' c c'] by (auto simp: served_def)
    have "streamIn k c' mt (q' @ partsOf items' @ concat ms)"
      unfolding streamIn_def using d(4,7) c' st(5,6) queuedAt_client[OF c'(2)] by blast
    moreover have "s = b @ q' @ partsOf items' @ concat ms" using st(8) arg_cong[OF d(6), of "\<lambda>x. x @ concat ms"] by simp
    ultimately show ?thesis using d(1,2) mrRead_length[OF d(1)] c'(2) by blast
  next
    fix c'
    assume e: "mrRead n c = (Inl EOF, c')" "q @ partsOf items = []" "served items c c'" "positioned c' [] [] (concat bs)"
    have "streamOut k c' mt s"
      unfolding streamOut_def using e(2-4) st(5-8) queuedAt_client[of c' c]
      by (intro exI[of _ ms] exI[of _ bs]) (auto simp: served_def idle_def positioned_def)
    with e(1,3) show ?thesis by (auto simp: served_def)
  qed
qed

text \<open>Between messages the next one is begun.\<close>

lemma reader_stream:
  assumes "streamOut (Suc k) c mt s" and "mt \<in> {opText, opBinary}"
  shows "\<exists>c'. reader c = (Inr mt, c') \<and> streamIn k c' mt s \<and> cClient c' = cClient c"
proof -
  from assms(1) obtain p ms b bs where st: "idle c" "cIn c = b @ concat bs" "wireOf (cClient c) (mt, p) b" "queuedAt c mt ms bs"
    "length ms = k" "lrLimit c < 0" "s = p @ concat ms"
    unfolding streamOut_def queuedAt_def by (auto simp: length_Suc_conv list_all2_Cons1)
  from st(3) obtain ps ks where ps: "length ks = length ps" "ps \<noteq> []" "list_all (\<lambda>p. length p < 2 ^ 63) ps" "concat ps = p"
    "b = wireBytes (cClient c) mt (message ps ks)" by (auto simp: wireOf_def)
  note ms = message_simps[OF ps(1)]
  have i: "connOK c" "mrFin c" using st(1) by (auto simp: idle_def)
  have n: "message ps ks \<noteq> []" "isPart (last (message ps ks))" "list_all itemOK (message ps ks)" "keysFor (message ps ks) c"
    using ms ps(2,3) by (auto simp: keysFor_def)
  have "cIn c = wireBytes (cClient c) mt (message ps ks) @ concat bs" using st(2) ps(5) by simp
  from reader_message[OF i assms(2) n this] obtain past c2 q items where
    r: "reader c = (Inr mt, c2)" "positioned c2 q items (concat bs)" "connOK c2" "keysFor items c2"
    "lrN c2 = lrLimit c" "lrLimit c2 = lrLimit c" "partsOf (message ps ks) = q @ partsOf items" "served past c c2" by metis
  have "cClient c2 = cClient c" using r(8) by (simp add: served_def)
  moreover have "s = q @ partsOf items @ concat ms" using st(7) r(7) ms(2) ps(4) by simp
  moreover have "withinLimit c2 (length (q @ partsOf items))" using r(5) st(6) by (simp add: withinLimit_def)
  ultimately show ?thesis using r(1-6) st(4-6) queuedAt_client[of c2 c] unfolding streamIn_def by metis
qed

subsection \<open>Reading the stream\<close>

definition readyToRead :: "opcode \<Rightarrow> netConn \<Rightarrow> bool" where
  "readyToRead mt nc \<longleftrightarrow> ncMsgType nc = mt \<and> mt \<in> {opText, opBinary} \<and> readCtx nc = None \<and> readExpired nc \<noteq> 1 \<and> \<not> readEOFed nc"

definition ncAt :: "opcode \<Rightarrow> bytes \<Rightarrow> netConn \<Rightarrow> bool" where
  "ncAt mt s nc \<longleftrightarrow> readyToRead mt nc \<and> (\<exists>k. if ncReader nc then streamIn k (ncConn nc) mt s else streamOut k (ncConn nc) mt s)"

lemma underCtx_open: "\<not> cClosed c \<Longrightarrow> underCtx pick None msg f c = f c"
  by (simp add: underCtx_def lock_free newMu_def)

lemma streamIn_open: "streamIn k c mt s \<Longrightarrow> \<not> cClosed c" and streamOut_open: "streamOut k c mt s \<Longrightarrow> \<not> cClosed c"
  by (auto simp: streamIn_def streamOut_def connOK_def idle_def)

text \<open>A round inside a message.\<close>

lemma read_nc_inside:
  assumes "readyToRead mt nc" "ncReader nc" "streamIn k (ncConn nc) mt s" "0 < n"
  shows "(\<exists>b c' s'. read_nc pick n nc = (Inr b, nc\<lparr>ncConn := c'\<rparr>) \<and> b \<noteq> [] \<and> length b \<le> n \<and> s = b @ s'
            \<and> ncAt mt s' (nc\<lparr>ncConn := c'\<rparr>) \<and> cClient c' = cClient (ncConn nc))
       \<or> (\<exists>c'. read_nc pick n nc = (Inr [], nc\<lparr>ncConn := c', ncReader := False\<rparr>) \<and> streamOut k c' mt s \<and> cClient c' = cClient (ncConn nc))"
proof -
  have u: "underCtx (pick 1) (readCtx nc) ''failed to read'' (mrRead n) (ncConn nc) = mrRead n (ncConn nc)"
    using underCtx_open[OF streamIn_open[OF assms(3)]] assms(1) by (simp add: readyToRead_def)
  have r: "read_nc pick n nc = (case mrRead n (ncConn nc) of
      (Inr b, c) \<Rightarrow> (Inr b, nc\<lparr>ncConn := c\<rparr>)
    | (Inl e, c) \<Rightarrow> if e = EOF then (Inr [], nc\<lparr>ncConn := c, ncReader := False\<rparr>) else (Inl e, nc\<lparr>ncConn := c\<rparr>))"
    unfolding read_nc_def using assms(1,2) u by (simp add: ensureReader_def readyToRead_def)
  from mrRead_stream[OF assms(3,4)] show ?thesis
  proof (elim disjE exE conjE)
    fix b c' s'
    assume d: "mrRead n (ncConn nc) = (Inr b, c')" "b \<noteq> []" "length b \<le> n" "s = b @ s'" "streamIn k c' mt s'" "cClient c' = cClient (ncConn nc)"
    have "ncAt mt s' (nc\<lparr>ncConn := c'\<rparr>)" using assms(1,2) d(5) by (auto simp: ncAt_def readyToRead_def)
    with r d show ?thesis by auto
  qed (use r in auto)
qed

text \<open>A round between messages begins the next one.\<close>

lemma read_nc_between:
  assumes "readyToRead mt nc" "\<not> ncReader nc" "streamOut (Suc k) (ncConn nc) mt s"
  obtains c' where "streamIn k c' mt s" "cClient c' = cClient (ncConn nc)"
    "\<And>pick n. read_nc pick n nc = read_nc pick n (nc\<lparr>ncConn := c', ncReader := True\<rparr>)"
proof -
  from assms(1) have mt: "mt \<in> {opText, opBinary}" by (simp add: readyToRead_def)
  from reader_stream[OF assms(3) mt] obtain c' where c': "reader (ncConn nc) = (Inr mt, c')" "streamIn k c' mt s" "cClient c' = cClient (ncConn nc)"
    by blast
  have "underCtx p (readCtx nc) ''failed to get reader'' reader (ncConn nc) = (Inr mt, c')" for p
    using assms(1) c'(1) by (simp add: readyToRead_def underCtx_open[OF streamOut_open[OF assms(3)]])
  then have e: "ensureReader p nc = (None, nc\<lparr>ncConn := c', ncReader := True\<rparr>)" for p
    using assms(1,2) by (simp add: ensureReader_def readyToRead_def)
  have "ensureReader p (nc\<lparr>ncConn := c', ncReader := True\<rparr>) = (None, nc\<lparr>ncConn := c', ncReader := True\<rparr>)" for p
    by (simp add: ensureReader_def)
  then have "read_nc pick n nc = read_nc pick n (nc\<lparr>ncConn := c', ncReader := True\<rparr>)" for pick n
    using assms(1) by (simp add: read_nc_def e readyToRead_def)
  with c' that show thesis by blast
qed

lemma readRounds_between:
  assumes "readyToRead mt nc" "\<not> ncReader nc" "streamOut k (ncConn nc) mt s" "0 < n" "s \<noteq> []"
  shows "\<exists>b c' s' rd. readRounds pick n nc = Some (Inr b, nc\<lparr>ncConn := c', ncReader := rd\<rparr>) \<and> b \<noteq> [] \<and> length b \<le> n \<and> s = b @ s'
     \<and> ncAt mt s' (nc\<lparr>ncConn := c', ncReader := rd\<rparr>) \<and> cClient c' = cClient (ncConn nc)"
  using assms
proof (induction k arbitrary: nc pick)
  case 0
  then show ?case by (auto simp: streamOut_def)
next
  case (Suc k)
  from read_nc_between[OF Suc.prems(1-3)] obtain c1 where c1: "streamIn k c1 mt s" "cClient c1 = cClient (ncConn nc)"
    "\<And>pick n. read_nc pick n nc = read_nc pick n (nc\<lparr>ncConn := c1, ncReader := True\<rparr>)" by blast
  let ?nc1 = "nc\<lparr>ncConn := c1, ncReader := True\<rparr>"
  have r1: "readyToRead mt ?nc1" "ncReader ?nc1" "streamIn k (ncConn ?nc1) mt s" using Suc.prems(1) c1(1) by (simp_all add: readyToRead_def)
  from read_nc_inside[OF r1 Suc.prems(4), of pick] show ?case
  proof (elim disjE exE conjE)
    fix b c' s'
    assume d: "read_nc pick n ?nc1 = (Inr b, ?nc1\<lparr>ncConn := c'\<rparr>)" "b \<noteq> []" "length b \<le> n" "s = b @ s'" "ncAt mt s' (?nc1\<lparr>ncConn := c'\<rparr>)"
      "cClient c' = cClient (ncConn ?nc1)"
    have u: "?nc1\<lparr>ncConn := c'\<rparr> = nc\<lparr>ncConn := c', ncReader := True\<rparr>" by simp
    have "readRounds pick n nc = Some (Inr b, nc\<lparr>ncConn := c', ncReader := True\<rparr>)" using d(1,2) c1(3) u by (subst readRounds.simps) simp
    moreover have "ncAt mt s' (nc\<lparr>ncConn := c', ncReader := True\<rparr>)" using d(5) unfolding u .
    ultimately show ?thesis using d(2-4,6) c1(2) by auto
  next
    fix c'
    assume e: "read_nc pick n ?nc1 = (Inr [], ?nc1\<lparr>ncConn := c', ncReader := False\<rparr>)" "streamOut k c' mt s" "cClient c' = cClient (ncConn ?nc1)"
    let ?nc2 = "nc\<lparr>ncConn := c', ncReader := False\<rparr>"
    have "readRounds pick n nc = readRounds (\<lambda>i. pick (i + 2)) n ?nc2"
      using e(1) c1(3) by (subst readRounds.simps) simp
    moreover have "readyToRead mt ?nc2" "\<not> ncReader ?nc2" "streamOut k (ncConn ?nc2) mt s"
      using Suc.prems(1) e(2) by (simp_all add: readyToRead_def)
    ultimately show ?thesis using Suc.IH[of ?nc2 "\<lambda>i. pick (i + 2)"] Suc.prems(4,5) e(3) c1(2) by auto
  qed
qed

lemma readRounds_stream:
  assumes "ncAt mt s nc" "0 < n" "s \<noteq> []"
  shows "\<exists>b c' s' rd. readRounds pick n nc = Some (Inr b, nc\<lparr>ncConn := c', ncReader := rd\<rparr>) \<and> b \<noteq> [] \<and> length b \<le> n \<and> s = b @ s'
     \<and> ncAt mt s' (nc\<lparr>ncConn := c', ncReader := rd\<rparr>) \<and> cClient c' = cClient (ncConn nc)"
proof (cases "ncReader nc")
  case False
  with assms(1) obtain k where "readyToRead mt nc" "streamOut k (ncConn nc) mt s" by (auto simp: ncAt_def)
  from readRounds_between[OF this(1) False this(2) assms(2,3)] show ?thesis .
next
  case True
  then obtain k where k: "readyToRead mt nc" "streamIn k (ncConn nc) mt s" using assms(1) by (auto simp: ncAt_def)
  from read_nc_inside[OF k(1) True k(2) assms(2), of pick] show ?thesis
  proof (elim disjE exE conjE)
    fix b c' s'
    assume d: "read_nc pick n nc = (Inr b, nc\<lparr>ncConn := c'\<rparr>)" "b \<noteq> []" "length b \<le> n" "s = b @ s'" "ncAt mt s' (nc\<lparr>ncConn := c'\<rparr>)"
      "cClient c' = cClient (ncConn nc)"
    have u: "nc\<lparr>ncConn := c'\<rparr> = nc\<lparr>ncConn := c', ncReader := True\<rparr>" using True by (cases nc) simp
    have "readRounds pick n nc = Some (Inr b, nc\<lparr>ncConn := c'\<rparr>)" using d(1,2) by (subst readRounds.simps) simp
    with d(2-6) u show ?thesis by metis
  next
    fix c'
    assume e: "read_nc pick n nc = (Inr [], nc\<lparr>ncConn := c', ncReader := False\<rparr>)" "streamOut k c' mt s" "cClient c' = cClient (ncConn nc)"
    let ?nc2 = "nc\<lparr>ncConn := c', ncReader := False\<rparr>"
    have "readRounds pick n nc = readRounds (\<lambda>i. pick (i + 2)) n ?nc2" using e(1) by (subst readRounds.simps) simp
    with readRounds_between[of mt ?nc2 k s n "\<lambda>i. pick (i + 2)"] k(1) e(2,3) assms(2,3) show ?thesis by (auto simp: readyToRead_def)
  qed
qed

subsection \<open>A link\<close>

text \<open>
  Two ends: what the one writes arrives at the other. A write needs a mask key when it is a client's, and a read is made while
  there are bytes to come. \<open>sent\<close> and \<open>got\<close> are the bytes of all writes and of all reads, \<open>errs\<close> the errors of all calls.
\<close>

definition readyToWrite :: "opcode \<Rightarrow> netConn \<Rightarrow> bool" where
  "readyToWrite mt nc \<longleftrightarrow> ncMsgType nc = mt \<and> writeCtx nc = None \<and> writeExpired nc \<noteq> 1 \<and> \<not> writeMu nc \<and> drained (ncConn nc)"

definition deliver_nc :: "netConn \<Rightarrow> netConn \<Rightarrow> netConn \<Rightarrow> netConn" where
  "deliver_nc w w' r = r\<lparr>ncConn := deliver (ncConn w) (ncConn w') (ncConn r)\<rparr>"

inductive tunnel :: "netConn \<Rightarrow> netConn \<Rightarrow> bytes \<Rightarrow> bytes \<Rightarrow> gerr list \<Rightarrow> netConn \<Rightarrow> netConn \<Rightarrow> bool" for w0 r0 where
  start: "tunnel w0 r0 [] [] [] w0 r0"
| wrote: "tunnel w0 r0 sent got errs w r \<Longrightarrow> canWrite 1 (ncConn w) \<Longrightarrow> length p < 2 ^ 63 \<Longrightarrow> Write_nc pick p w = Some (Inr n, w')
    \<Longrightarrow> tunnel w0 r0 (sent @ take n p) got errs w' (deliver_nc w w' r)"
| writeFailed: "tunnel w0 r0 sent got errs w r \<Longrightarrow> canWrite 1 (ncConn w) \<Longrightarrow> length p < 2 ^ 63 \<Longrightarrow> Write_nc pick p w = Some (Inl e, w')
    \<Longrightarrow> tunnel w0 r0 sent got (errs @ [e]) w' (deliver_nc w w' r)"
| readSome: "tunnel w0 r0 sent got errs w r \<Longrightarrow> 0 < n \<Longrightarrow> got \<noteq> sent \<Longrightarrow> Read_nc picks n r = Some (Inr b, r')
    \<Longrightarrow> tunnel w0 r0 sent (got @ b) errs w r'"
| readFailed: "tunnel w0 r0 sent got errs w r \<Longrightarrow> 0 < n \<Longrightarrow> got \<noteq> sent \<Longrightarrow> Read_nc picks n r = Some (Inl e, r')
    \<Longrightarrow> tunnel w0 r0 sent got (errs @ [e]) w r'"

lemma Write_nc_ok:
  assumes "readyToWrite mt w" and "canWrite 1 (ncConn w)"
  shows "\<exists>w'. Write_nc pick p w = Some (Inr (length p), w') \<and> readyToWrite mt w' \<and> cClient (ncConn w') = cClient (ncConn w)
     \<and> bwSent (cBw (ncConn w')) = bwSent (cBw (ncConn w)) @ wireBytes (\<not> cClient (ncConn w)) mt (message [p] (writeKeys 1 (ncConn w)))"
proof -
  have d: "drained (ncConn w)" and o: "\<not> cClosed (ncConn w)" using assms(1) by (auto simp: readyToWrite_def drained_def connOK_def)
  from Write_conn_ok[OF d assms(2), of mt p] obtain c where c: "Write_conn mt p (ncConn w) = (None, c)" "drained c" "cClient c = cClient (ncConn w)"
    "bwSent (cBw c) = bwSent (cBw (ncConn w)) @ wireBytes (\<not> cClient (ncConn w)) mt (message [p] (writeKeys 1 (ncConn w)))" by blast
  have "Write_nc pick p w = Some (Inr (length p), w\<lparr>ncConn := c, writeMu := False\<rparr>)"
    using assms(1) c(1) by (simp add: Write_nc_def readyToWrite_def forceLock_def unlock_def underCtx_open[OF o])
  with c assms(1) show ?thesis by (auto simp: readyToWrite_def)
qed

lemma streamIn_more:
  assumes "streamIn k c mt s" and "wireOf (cClient c) (mt, p) b"
  shows "streamIn (Suc k) (c\<lparr>cIn := cIn c @ b\<rparr>) mt (s @ p)"
proof -
  from assms(1) obtain q items ms bs where st: "positioned c q items (concat bs)" "connOK c" "keysFor items c"
    "withinLimit c (length (q @ partsOf items))" "queuedAt c mt ms bs" "length ms = k" "lrLimit c < 0" "s = q @ partsOf items @ concat ms"
    unfolding streamIn_def by blast
  have "positioned (c\<lparr>cIn := cIn c @ b\<rparr>) q items (concat (bs @ [b]))" using st(1) by (simp add: positioned_def)
  moreover have "queuedAt (c\<lparr>cIn := cIn c @ b\<rparr>) mt (ms @ [p]) (bs @ [b])" using st(5) assms(2) by (simp add: queuedAt_def list_all2_appendI)
  ultimately show ?thesis unfolding streamIn_def
    by (rule_tac exI[of _ q], rule_tac exI[of _ items], rule_tac exI[of _ "ms @ [p]"], rule_tac exI[of _ "bs @ [b]"])
      (use st in \<open>simp add: withinLimit_def\<close>)
qed

lemma streamOut_more:
  assumes "streamOut k c mt s" and "wireOf (cClient c) (mt, p) b"
  shows "streamOut (Suc k) (c\<lparr>cIn := cIn c @ b\<rparr>) mt (s @ p)"
proof -
  from assms(1) obtain ms bs where st: "idle c" "cIn c = concat bs" "queuedAt c mt ms bs" "length ms = k" "lrLimit c < 0" "s = concat ms"
    unfolding streamOut_def by blast
  have "queuedAt (c\<lparr>cIn := cIn c @ b\<rparr>) mt (ms @ [p]) (bs @ [b])" using st(3) assms(2) by (simp add: queuedAt_def list_all2_appendI)
  then show ?thesis unfolding streamOut_def
    by (rule_tac exI[of _ "ms @ [p]"], rule_tac exI[of _ "bs @ [b]"]) (use st in simp)
qed

lemma ncAt_deliver:
  assumes "ncAt mt s r" and "cClient (ncConn r) = (\<not> cClient (ncConn w))" and "length p < 2 ^ 63" and "canWrite 1 (ncConn w)"
    and "bwSent (cBw (ncConn w')) = bwSent (cBw (ncConn w)) @ wireBytes (\<not> cClient (ncConn w)) mt (message [p] (writeKeys 1 (ncConn w)))"
  shows "ncAt mt (s @ p) (deliver_nc w w' r)"
proof -
  let ?b = "wireBytes (cClient (ncConn r)) mt (message [p] (writeKeys 1 (ncConn w)))"
  have "mt \<in> {opText, opBinary}" using assms(1) by (simp add: ncAt_def readyToRead_def)
  then have "wireOf (cClient (ncConn r)) (mt, p) ?b"
    unfolding wireOf_def using assms(3) length_writeKeys[OF assms(4)]
    by (intro conjI exI[of _ "[p]"] exI[of _ "writeKeys 1 (ncConn w)"]) auto
  then have "streamIn k (ncConn r) mt s \<Longrightarrow> streamIn (Suc k) (ncConn (deliver_nc w w' r)) mt (s @ p)"
    "streamOut k (ncConn r) mt s \<Longrightarrow> streamOut (Suc k) (ncConn (deliver_nc w w' r)) mt (s @ p)" for k
    using assms(2,5) streamIn_more[of k "ncConn r" mt s p ?b] streamOut_more[of k "ncConn r" mt s p ?b] by (simp_all add: deliver_nc_def deliver_def)
  moreover have "ncReader (deliver_nc w w' r) = ncReader r" "readyToRead mt (deliver_nc w w' r) = readyToRead mt r"
    by (simp_all add: deliver_nc_def readyToRead_def)
  ultimately show ?thesis using assms(1) unfolding ncAt_def by metis
qed

lemma ncAt_readMu [simp]: "ncAt mt s (r\<lparr>readMu := m\<rparr>) = ncAt mt s r"
  by (simp add: ncAt_def readyToRead_def)

lemma Read_nc_ok:
  assumes "ncAt mt s r" "\<not> readMu r" "0 < n" "s \<noteq> []"
  shows "\<exists>b r' s'. Read_nc picks n r = Some (Inr b, r') \<and> b \<noteq> [] \<and> length b \<le> n \<and> s = b @ s' \<and> ncAt mt s' r' \<and> \<not> readMu r'
     \<and> cClient (ncConn r') = cClient (ncConn r)"
proof -
  let ?r = "r\<lparr>readMu := True\<rparr>"
  have "ncAt mt s ?r" using assms(1) by simp
  from readRounds_stream[OF this assms(3,4), of picks] obtain b c' s' rd where
    b: "readRounds picks n ?r = Some (Inr b, ?r\<lparr>ncConn := c', ncReader := rd\<rparr>)" "b \<noteq> []" "length b \<le> n" "s = b @ s'"
      "ncAt mt s' (?r\<lparr>ncConn := c', ncReader := rd\<rparr>)" "cClient c' = cClient (ncConn ?r)" by blast
  let ?r' = "?r\<lparr>ncConn := c', ncReader := rd, readMu := False\<rparr>"
  have "Read_nc picks n r = Some (Inr b, ?r')" using assms(2) b(1) by (simp add: Read_nc_def forceLock_def unlock_def)
  moreover have "ncAt mt s' ?r'" using b(5) ncAt_readMu[where r = "?r\<lparr>ncConn := c', ncReader := rd\<rparr>" and m = False] by (simp only:)
  ultimately show ?thesis using b(2-4,6) by fastforce
qed

definition tunnelInv :: "opcode \<Rightarrow> bytes \<Rightarrow> bytes \<Rightarrow> gerr list \<Rightarrow> netConn \<Rightarrow> netConn \<Rightarrow> bool" where
  "tunnelInv mt sent got errs w r \<longleftrightarrow> errs = [] \<and> readyToWrite mt w \<and> \<not> readMu r \<and> cClient (ncConn r) = (\<not> cClient (ncConn w))
     \<and> (\<exists>s. sent = got @ s \<and> ncAt mt s r)"

lemma tunnelInv_holds: "tunnel w0 r0 sent got errs w r \<Longrightarrow> tunnelInv mt [] [] [] w0 r0 \<Longrightarrow> tunnelInv mt sent got errs w r"
proof (induction rule: tunnel.induct)
  case (wrote sent got errs w r p pick n w')
  then have inv: "tunnelInv mt sent got errs w r" by blast
  then obtain s where s: "errs = []" "readyToWrite mt w" "\<not> readMu r" "cClient (ncConn r) = (\<not> cClient (ncConn w))" "sent = got @ s" "ncAt mt s r"
    by (auto simp: tunnelInv_def)
  from Write_nc_ok[OF s(2) wrote(2), of pick p] wrote(4) have w': "n = length p" "readyToWrite mt w'" "cClient (ncConn w') = cClient (ncConn w)"
    "bwSent (cBw (ncConn w')) = bwSent (cBw (ncConn w)) @ wireBytes (\<not> cClient (ncConn w)) mt (message [p] (writeKeys 1 (ncConn w)))" by auto
  from ncAt_deliver[OF s(6,4) wrote(3,2) w'(4)] s w' show ?case
    by (auto simp: tunnelInv_def deliver_nc_def deliver_def)
next
  case (writeFailed sent got errs w r p pick e w')
  then have "readyToWrite mt w" by (auto simp: tunnelInv_def)
  from Write_nc_ok[OF this writeFailed(2), of pick p] writeFailed(4) show ?case by auto
next
  case (readSome sent got errs w r n picks b r')
  then obtain s where s: "errs = []" "readyToWrite mt w" "\<not> readMu r" "cClient (ncConn r) = (\<not> cClient (ncConn w))" "sent = got @ s" "ncAt mt s r"
    by (auto simp: tunnelInv_def)
  with Read_nc_ok[OF s(6,3) readSome(2), of picks] readSome(3,4) show ?case by (auto simp: tunnelInv_def)
next
  case (readFailed sent got errs w r n picks e r')
  then obtain s where s: "\<not> readMu r" "sent = got @ s" "ncAt mt s r" by (auto simp: tunnelInv_def)
  with Read_nc_ok[OF s(3,1) readFailed(2), of picks] readFailed(3,4) show ?case by auto
qed

text \<open>
  C8: A pair of \<open>net.Conn\<close>s over a WebSocket link is a byte stream: whatever the writes and the sizes of the reads, no call fails, the
  bytes read are a prefix of the bytes written, every read that is made while bytes are outstanding returns, with at least one
  and at most as many as asked for, and every write takes all its bytes. Message boundaries and empty messages leave no trace.
\<close>

theorem NetConn_is_a_stream:
  assumes "drained c" and "idle d" "cIn d = []" and "cClient d \<noteq> cClient c" and "mt \<in> {opText, opBinary}"
    and "tunnel (NetConn None c mt) (NetConn None d mt) sent got errs w r"
  shows "errs = [] \<and> (\<exists>rest. sent = got @ rest)
     \<and> (\<forall>n picks. 0 < n \<longrightarrow> got \<noteq> sent \<longrightarrow> (\<exists>b r'. Read_nc picks n r = Some (Inr b, r') \<and> b \<noteq> [] \<and> length b \<le> n))
     \<and> (\<forall>p pick. canWrite 1 (ncConn w) \<longrightarrow> (\<exists>w'. Write_nc pick p w = Some (Inr (length p), w')))"
proof -
  have "readyToWrite mt (NetConn None c mt)"
    using assms(1) by (simp add: readyToWrite_def NetConn_def newMu_def SetReadLimit_def drained_def connOK_def)
  moreover have "streamOut 0 (SetReadLimit (-1) d) mt []"
    using assms(2,3) by (simp add: streamOut_def SetReadLimit_def idle_def connOK_def queuedAt_def)
  then have "ncAt mt [] (NetConn None d mt)" using assms(5) by (auto simp: ncAt_def readyToRead_def NetConn_def)
  ultimately have "tunnelInv mt [] [] [] (NetConn None c mt) (NetConn None d mt)"
    using assms(4) by (simp add: tunnelInv_def NetConn_def newMu_def SetReadLimit_def)
  from tunnelInv_holds[OF assms(6) this] obtain s where s: "errs = []" "readyToWrite mt w" "\<not> readMu r" "sent = got @ s" "ncAt mt s r"
    by (auto simp: tunnelInv_def)
  show ?thesis
  proof (intro conjI allI impI)
    fix n picks assume n: "0 < (n :: nat)" "got \<noteq> sent"
    with s(4) have "s \<noteq> []" by auto
    from Read_nc_ok[OF s(5,3) n(1) this, of picks] show "\<exists>b r'. Read_nc picks n r = Some (Inr b, r') \<and> b \<noteq> [] \<and> length b \<le> n" by blast
  next
    fix p pick assume "canWrite 1 (ncConn w)"
    from Write_nc_ok[OF s(2) this, of pick p] show "\<exists>w'. Write_nc pick p w = Some (Inr (length p), w')" by blast
  qed (use s in auto)
qed

theorem NetConn_is_a_stream_witness:
  "\<exists>w r w' r'. NetConn None exampleServer opBinary = w \<and> NetConn None (exampleConn []) opBinary = r
     \<and> Write_nc 0 [1, 2, 3] w = Some (Inr 3, w') \<and> (\<exists>b. Read_nc (\<lambda>_. 0) 2 (deliver_nc w w' r) = Some (Inr b, r') \<and> b \<noteq> [] \<and> length b \<le> 2)"
proof -
  let ?w = "NetConn None exampleServer opBinary" and ?r = "NetConn None (exampleConn []) opBinary"
  have e: "drained exampleServer" "idle (exampleConn [])" "cIn (exampleConn []) = []" "cClient (exampleConn []) \<noteq> cClient exampleServer"
    "opBinary \<in> {opText, opBinary}"
    by (simp_all add: drained_def idle_def connOK_def exampleServer_def exampleConn_def newConn_def emptyBw_def bwGood_def)
  have cw: "canWrite 1 (ncConn ?w)" by (simp add: canWrite_def NetConn_def SetReadLimit_def exampleServer_def newConn_def)
  from NetConn_is_a_stream[OF e tunnel.start] cw obtain w' where w': "Write_nc 0 [1, 2, 3] ?w = Some (Inr (length [1::8 word, 2, 3]), w')" by blast
  have t: "tunnel ?w ?r [1, 2, 3] [] [] w' (deliver_nc ?w w' ?r)"
    using tunnel.wrote[OF tunnel.start cw _ w'] by simp
  from NetConn_is_a_stream[OF e t] have "\<exists>b r'. Read_nc (\<lambda>_. 0) 2 (deliver_nc ?w w' ?r) = Some (Inr b, r') \<and> b \<noteq> [] \<and> length b \<le> 2"
    by (metis list.distinct(1) zero_less_numeral)
  with w' show ?thesis by auto
qed

subsection \<open>The end of the stream\<close>

lemma Read_nc_error:
  assumes "\<not> readMu nc" and "read_nc picks n (nc\<lparr>readMu := True\<rparr>) = (Inl e, nc1)"
  shows "Read_nc picks n nc = Some (Inl e, nc1\<lparr>readMu := False\<rparr>)"
  using assms by (simp add: Read_nc_def forceLock_def unlock_def readRounds.simps[of picks n "nc\<lparr>readMu := True\<rparr>"])

lemma errAs_Wrapped_close: "CloseStatus (Some (Wrapped msg e)) = CloseStatus (Some e)"
  by (simp add: CloseStatus_def)



text \<open>
  A \<open>Read\<close> into an empty buffer inside a frame never returns: the message reader yields no byte and no error, nothing has
  changed, and the loop goes round again.
\<close>

theorem Read_nc_empty_buffer_hangs:
  assumes "readyToRead mt nc" "ncReader nc" and "\<not> cClosed (ncConn nc)" "0 < mrPayloadLength (ncConn nc)" "lrN (ncConn nc) \<noteq> 0"
  shows "Read_nc picks 0 nc = None"
proof -
  let ?hang = "\<lambda>nc. readyToRead mt nc \<and> ncReader nc \<and> \<not> cClosed (ncConn nc) \<and> 0 < mrPayloadLength (ncConn nc) \<and> lrN (ncConn nc) \<noteq> 0"
  have same: "read_nc p 0 x = (Inr [], x)" if x: "?hang x" for p x
  proof -
    have "readFramePayload 0 (ncConn x) = (Inr [], ncConn x)" using x by (simp add: readFramePayload_def ReadFull_def)
    then have "msgRead 0 (ncConn x) = (Inr [], ncConn x)" using x by (subst msgRead.simps) simp
    then have "mrRead 0 (ncConn x) = (Inr [], ncConn x)" using x by (auto simp: mrRead_def limitRead_def max_def)
    with x show ?thesis by (simp add: read_nc_def ensureReader_def readyToRead_def underCtx_open)
  qed
  have never: "n = 0 \<longrightarrow> \<not> ?hang x" if "readRounds p n x = Some y" for p n x y
  proof (rule readRounds.raw_induct[where P = "\<lambda>p n x y. n = 0 \<longrightarrow> \<not> ?hang x", OF _ that], intro impI notI)
    fix rr p n x y
    assume ih: "\<And>p n x y. rr p n x = Some y \<Longrightarrow> n = 0 \<longrightarrow> \<not> ?hang x" and z: "n = (0::nat)" and x: "?hang x"
      and step: "(case read_nc p n x of (Inl e, nc1) \<Rightarrow> Some (Inl e, nc1)
        | (Inr b, nc1) \<Rightarrow> if b = [] then rr (\<lambda>i. p (i + 2)) n nc1 else Some (Inr b, nc1)) = Some y"
    from step z same[OF x] have "rr (\<lambda>i. p (i + 2)) n x = Some y" by simp
    from ih[OF this] z x show False by simp
  qed
  have "?hang (nc\<lparr>readMu := True\<rparr>)" using assms by (simp add: readyToRead_def)
  with never[of picks 0 "nc\<lparr>readMu := True\<rparr>"] have "readRounds picks 0 (nc\<lparr>readMu := True\<rparr>) = None"
    by (cases "readRounds picks 0 (nc\<lparr>readMu := True\<rparr>)") auto
  then show ?thesis by (simp add: Read_nc_def forceLock_def)
qed

theorem Read_nc_empty_buffer_hangs_witness:
  "Read_nc (\<lambda>_. 0) 0 ((NetConn None ((exampleConn [7])\<lparr>mrPayloadLength := 1, lrN := -1\<rparr>) opText)\<lparr>ncReader := True\<rparr>) = None"
  by (rule Read_nc_empty_buffer_hangs[of opText])
    (simp_all add: readyToRead_def NetConn_def SetReadLimit_def exampleConn_def newConn_def)

subsection \<open>Deadlines and calls\<close>

text \<open>
  A deadline that passes between two calls: the next calls fail with \<open>context.DeadlineExceeded\<close> and leave the connection as it is,
  and setting a new deadline makes the end what it was before, whatever the order of the two deadlines.
\<close>

theorem deadline_between_calls:
  assumes "\<not> writeMu nc" "\<not> readMu nc" "writeExpired nc = 0" "readExpired nc = 0"
    and "nc1 = readTimerFires (writeTimerFires (SetDeadline now (Some t) nc))"
  shows "Write_nc pick p nc1 = Some (Inl (Wrapped ''failed to write'' DeadlineExceeded), nc1)
     \<and> Read_nc picks n nc1 = Some (Inl (Wrapped ''failed to read'' DeadlineExceeded), nc1)
     \<and> ncConn nc1 = ncConn nc
     \<and> SetDeadline now' None nc1 = nc\<lparr>writeTimer := None, readTimer := None\<rparr>"
proof -
  have nc1: "nc1 = nc\<lparr>writeTimer := None, writeExpired := 1, writeMu := False, readTimer := None, readExpired := 1, readMu := False\<rparr>"
    using assms(1,2) by (simp add: assms(5) SetDeadline_def SetReadDeadline_def SetWriteDeadline_def readTimerFires_def writeTimerFires_def tryLock_def
        unlock_def)
  have "Write_nc pick p nc1 = Some (Inl (Wrapped ''failed to write'' DeadlineExceeded), nc1)"
    by (simp add: nc1 Write_nc_def forceLock_def unlock_def)
  moreover have "Read_nc picks n nc1 = Some (Inl (Wrapped ''failed to read'' DeadlineExceeded), nc1)"
    using Read_nc_error[of nc1 picks n _ "nc1\<lparr>readMu := True\<rparr>"] by (simp add: nc1 read_nc_def)
  moreover have "SetDeadline now' None nc1 = nc\<lparr>writeTimer := None, readTimer := None\<rparr>"
    using assms(1-4) by (cases nc) (simp add: nc1 SetDeadline_def SetReadDeadline_def SetWriteDeadline_def deadlineTimer_def)
  ultimately show ?thesis by (simp add: nc1)
qed

theorem deadline_between_calls_witness:
  "fst (the (Write_nc 0 [1] (readTimerFires (writeTimerFires (SetDeadline 5 (Some 3) (NetConn None (exampleConn []) opText))))))
     = Inl (Wrapped ''failed to write'' DeadlineExceeded)"
  using deadline_between_calls[of "NetConn None (exampleConn []) opText" _ 5 3 0 "[1]"] by (simp add: NetConn_def newMu_def)

text \<open>A timer set in the past fires after one nanosecond, never at once and never not at all.\<close>

lemma deadlineTimer_positive: "deadlineTimer now (Some t) = Some d \<Longrightarrow> 0 < d"
  by (auto simp: deadlineTimer_def split: if_splits)

text \<open>A deadline that passes during a call cancels the context of the call and refuses no later one by itself.\<close>

lemma deadline_during_call:
  "writeMu nc \<Longrightarrow> writeCtx (writeTimerFires nc) \<noteq> None \<and> writeExpired (writeTimerFires nc) = writeExpired nc"
  "readMu nc \<Longrightarrow> readCtx (readTimerFires nc) \<noteq> None \<and> readExpired (readTimerFires nc) = readExpired nc"
  by (auto simp: writeTimerFires_def readTimerFires_def tryLock_def cancelCtx_def split: option.splits)

text \<open>After \<open>Close\<close> every call fails: the connection is closed and the contexts have ended.\<close>

lemma Close_nc_closes: "Close_nc nc = (err, nc') \<Longrightarrow> cClosed (ncConn nc') \<and> writeCtx nc' \<noteq> None \<and> readCtx nc' \<noteq> None"
  by (auto simp: Close_nc_def cancelCtx_def Let_def split_def split: option.splits)

lemma lock_closed: "cClosed c \<Longrightarrow> \<exists>e c'. lock pick ctx newMu c = Some (Some e, newMu, c')"
proof -
  assume cl: "cClosed c"
  then obtain err m c' where l: "lock pick ctx newMu c = Some (err, m, c')" using lock_returns[of newMu c ctx pick] by (cases "lock pick ctx newMu c") auto
  with cl lock_ok[of pick ctx newMu c m c'] obtain e where "err = Some e" by (cases err) auto
  with l lock_error[of pick ctx newMu c e m c'] show ?thesis by auto
qed

lemma underCtx_closed: "cClosed c \<Longrightarrow> \<exists>e c'. underCtx pick ctx msg f c = (Inl (Wrapped msg e), c') \<and> cClosed c'"
  using lock_closed[of c pick ctx] lock_error[of pick ctx newMu c] by (auto simp: underCtx_def)

lemma ensureReader_closed: "cClosed (ncConn nc) \<Longrightarrow> \<not> ncReader nc \<Longrightarrow> \<exists>e x. ensureReader pick nc = (Some e, x)"
  using underCtx_closed[of "ncConn nc" pick "readCtx nc" "''failed to get reader''" reader] by (auto simp: ensureReader_def)

lemma read_nc_closed: "cClosed (ncConn nc) \<Longrightarrow> \<exists>e x. read_nc pick n nc = (Inl e, x)"
proof -
  assume cl: "cClosed (ncConn nc)"
  show ?thesis
  proof (cases "ncReader nc")
    case True
    then have "ensureReader (pick 0) nc = (None, nc)" by (simp add: ensureReader_def)
    with underCtx_closed[OF cl, of "pick 1" "readCtx nc" "''failed to read''" "mrRead n"] show ?thesis by (auto simp: read_nc_def EOF_def)
  next
    case False
    with ensureReader_closed[OF cl, of "pick 0"] show ?thesis by (auto simp: read_nc_def)
  qed
qed

text \<open>
  After \<open>Close\<close> no call succeeds and none hangs: every later \<open>Write\<close> and \<open>Read\<close> returns an error, whichever case its selects take.
\<close>

theorem closed_end_fails:
  assumes "\<not> writeMu nc" "\<not> readMu nc" and "Close_nc nc = (err, nc')"
  shows "(\<exists>e w. Write_nc pick p nc' = Some (Inl e, w)) \<and> (\<exists>e r. Read_nc picks n nc' = Some (Inl e, r))"
proof -
  from Close_nc_closes[OF assms(3)] have cl: "cClosed (ncConn nc')" by blast
  have mu: "\<not> writeMu nc'" "\<not> readMu nc'" using assms by (auto simp: Close_nc_def Let_def split: prod.splits)
  let ?w = "\<lambda>c. case Write_conn (ncMsgType nc') p c of (Some e, c1) \<Rightarrow> (Inl e, c1) | (None, c1) \<Rightarrow> (Inr (length p), c1)"
  from underCtx_closed[OF cl] obtain e c where
    "underCtx pick (writeCtx nc') ''failed to write msg'' ?w (ncConn nc') = (Inl (Wrapped ''failed to write msg'' e), c)" by blast
  then have "\<exists>e w. Write_nc pick p nc' = Some (Inl e, w)" using mu(1) by (simp add: Write_nc_def forceLock_def)
  moreover have "cClosed (ncConn (nc'\<lparr>readMu := True\<rparr>))" using cl by simp
  from read_nc_closed[OF this, of picks n] obtain e x where "read_nc picks n (nc'\<lparr>readMu := True\<rparr>) = (Inl e, x)" by blast
  from Read_nc_error[OF mu(2) this] have "\<exists>e r. Read_nc picks n nc' = Some (Inl e, r)" by blast
  ultimately show ?thesis by blast
qed

theorem closed_end_fails_witness:
  "\<exists>e r. Read_nc (\<lambda>_. 0) 4 (snd (Close_nc (NetConn None (exampleConn []) opText))) = Some (Inl e, r)"
  using closed_end_fails[of "NetConn None (exampleConn []) opText" "fst (Close_nc (NetConn None (exampleConn []) opText))"
      "snd (Close_nc (NetConn None (exampleConn []) opText))" 0 "[]" "\<lambda>_. 0" 4]
  by (simp add: NetConn_def newMu_def)

text \<open>A message of the other type is an error, and the connection is closed.\<close>

lemma Read_nc_wrong_type:
  assumes "readyToRead mt nc" "\<not> ncReader nc" "\<not> readMu nc" and "reader (ncConn nc) = (Inr mt', c1)" "mt' \<noteq> mt"
  shows "\<exists>nc'. Read_nc picks n nc = Some (Inl unexpectedType, nc') \<and> cClosed (ncConn nc')"
proof -
  have "\<not> cClosed (ncConn nc)" using assms(4) by (auto simp: reader_def)
  then have "underCtx p None ''failed to get reader'' reader (ncConn nc) = (Inr mt', c1)" for p
    using assms(4) by (simp add: underCtx_open)
  then have "read_nc picks n (nc\<lparr>readMu := True\<rparr>)
      = (Inl unexpectedType, nc\<lparr>readMu := True, ncConn := snd (Close_conn StatusUnsupportedData (cErrText c1 unexpectedType) c1)\<rparr>)"
    using assms(1,2,5) by (simp add: read_nc_def ensureReader_def readyToRead_def)
  from Read_nc_error[OF assms(3) this] show ?thesis by simp
qed

end
