(* ===== verification/Configuration.thy ===== *)
theory Configuration
  imports Prelude
begin

text \<open>
  \<open>internal/configuration/external.go\<close> (external configuration files whose values are expanded into the configuration) and, of
  \<open>cmd/xmidt-agent\<close>, the command line, \<open>provideConfig\<close> and \<open>provideLogger\<close>. The packages goschtalt, sallust, zap and kong are arguments.
\<close>

definition ErrInvalidConfig :: gerr where "ErrInvalidConfig = Sentinel ''configuration.ErrInvalidConfig''"

definition invalidRemap :: gerr where "invalidRemap = Wrapped ''External remap is invalid'' ErrInvalidConfig"

record Remap =
  From :: string
  To :: string
  Optional :: bool

record External =
  Required :: bool
  File :: string
  As :: string
  Origin :: string
  extRemap :: "Remap list"

text \<open>
  What is used of goschtalt: a configuration from one file that is required or not, decoded by the extension \<open>As\<close>, and the string at
  a key of a configuration.
\<close>

record 'g goschtalt =
  NewFile :: "bool \<Rightarrow> string \<Rightarrow> string \<Rightarrow> gerr + 'g"
  UnmarshalString :: "'g \<Rightarrow> string \<Rightarrow> gerr + string"

definition trimSlash :: "string \<Rightarrow> string" where
  "trimSlash s = (case s of c # cs \<Rightarrow> if c = CHR ''/'' then cs else s | [] \<Rightarrow> [])"

text \<open>The loop over the remaps, with the map of the values so far; a Go map as an association list with the latest entry first.\<close>

fun remapLoop :: "(string \<Rightarrow> gerr + string) \<Rightarrow> Remap list \<Rightarrow> (string \<times> string) list \<Rightarrow> gerr + (string \<times> string) list" where
  "remapLoop get [] rv = Inr rv"
| "remapLoop get (item # items) rv =
     (if From item = [] \<or> To item = []
      then if Optional item then remapLoop get items rv else Inl invalidRemap
      else case get (From item) of
        Inl e \<Rightarrow> if Optional item \<and> errIs e ''meta.ErrNotFound'' then remapLoop get items rv else Inl e
      | Inr val \<Rightarrow> remapLoop get items ((To item, val) # rv))"

definition resolve :: "'g goschtalt \<Rightarrow> External \<Rightarrow> gerr + (string \<Rightarrow> string option)" where
  "resolve gs ext =
     (case NewFile gs (Required ext) (As ext) (trimSlash (File ext)) of
        Inl e \<Rightarrow> Inl e
      | Inr g \<Rightarrow> map_sum id map_of (remapLoop (UnmarshalString gs g) (extRemap ext) []))"

text \<open>
  \<open>apply\<close>: every external gives an expander with the options so far and its origin; the options grow from one to the next. The
  last argument is \<open>gs.With\<close>.
\<close>

fun applyLoop :: "'g goschtalt \<Rightarrow> External list \<Rightarrow> string list \<Rightarrow> ((string \<Rightarrow> string option) \<times> string list) list
    \<Rightarrow> gerr + ((string \<Rightarrow> string option) \<times> string list) list" where
  "applyLoop gs [] opts additional = Inr additional"
| "applyLoop gs (external # externals) opts additional =
     (case resolve gs external of
        Inl e \<Rightarrow> Inl e
      | Inr fn \<Rightarrow>
          (let origin = (if Origin external = [] then File external else Origin external);
               opts' = opts @ [origin]
           in applyLoop gs externals opts' (additional @ [(fn, opts')])))"

definition Apply :: "'g goschtalt \<Rightarrow> (gerr + External list) \<Rightarrow> string list \<Rightarrow> (((string \<Rightarrow> string option) \<times> string list) list \<Rightarrow> 'c \<Rightarrow> gerr + 'c)
    \<Rightarrow> 'c \<Rightarrow> gerr + 'c" where
  "Apply gs externals opts withOpts c =
     (case externals of
        Inl e \<Rightarrow> Inl e
      | Inr exts \<Rightarrow> (case applyLoop gs exts opts [] of Inl e \<Rightarrow> Inl e | Inr additional \<Rightarrow> withOpts additional c))"

subsection \<open>The command line and the configuration\<close>

record CLI =
  Dev :: bool
  Show :: bool
  DefaultFile :: string
  Graph :: string
  Files :: "string list"

text \<open>How \<open>provideConfig\<close> ends: with an error for the caller, by leaving the program with a status, or with a configuration.\<close>

datatype 'c configOutcome = ConfigError gerr | ConfigExit int | ConfigReady 'c

text \<open>
  \<open>newCfg\<close> is \<open>goschtalt.New\<close> on the files of the command line, \<open>applied\<close> the externals, \<open>writeDefault\<close> the writing of the default
  configuration to a file, \<open>unmarshalAll\<close> the decoding of everything into \<open>Config\<close>.
\<close>

definition provideConfig :: "(string list \<Rightarrow> gerr + 'c) \<Rightarrow> ('c \<Rightarrow> gerr + 'c) \<Rightarrow> (string \<Rightarrow> gerr option) \<Rightarrow> ('c \<Rightarrow> gerr option) \<Rightarrow> CLI
    \<Rightarrow> 'c configOutcome" where
  "provideConfig newCfg applied writeDefault unmarshalAll cli =
     (case newCfg (Files cli) of
        Inl e \<Rightarrow> ConfigError e
      | Inr gs0 \<Rightarrow>
          (case applied gs0 of
             Inl e \<Rightarrow> ConfigError e
           | Inr gs \<Rightarrow>
               if DefaultFile cli \<noteq> []
               then (case writeDefault (''./'' @ DefaultFile cli) of Some _ \<Rightarrow> ConfigExit (-1) | None \<Rightarrow> ConfigExit 0)
               else if Show cli then ConfigExit 0
               else (case unmarshalAll gs of Some _ \<Rightarrow> ConfigExit 0 | None \<Rightarrow> ConfigReady gs)))"

record loggerConfig =
  EncodeLevel :: string
  EncodeTime :: string
  Level :: string
  Development :: bool
  Encoding :: string
  OutputPaths :: "string list"
  ErrorOutputPaths :: "string list"

definition devLogger :: "loggerConfig \<Rightarrow> loggerConfig" where
  "devLogger cfg = cfg\<lparr>EncodeLevel := ''capitalColor'', EncodeTime := ''RFC3339'', Level := ''DEBUG'', Development := True,
     Encoding := ''console'', OutputPaths := OutputPaths cfg @ [''stderr''], ErrorOutputPaths := ErrorOutputPaths cfg @ [''stderr'']\<rparr>"

definition provideLogger :: "(loggerConfig \<Rightarrow> gerr + 'lv) \<Rightarrow> (loggerConfig \<Rightarrow> 'lg option \<times> gerr option) \<Rightarrow> CLI \<Rightarrow> loggerConfig
    \<Rightarrow> 'lv option \<times> 'lg option \<times> gerr option" where
  "provideLogger newZapConfig build cli cfg0 =
     (let cfg = (if Dev cli then devLogger cfg0 else cfg0)
      in case newZapConfig cfg of
           Inl e \<Rightarrow> (None, None, Some e)
         | Inr level \<Rightarrow> (case build cfg of (logger, err) \<Rightarrow> (Some level, logger, err)))"

text \<open>\<open>main\<close>: the status the program ends with when the application could not be built.\<close>

definition mainStatus :: "gerr option \<Rightarrow> int \<Rightarrow> int" where
  "mainStatus appErr runStatus = (case appErr of None \<Rightarrow> runStatus | Some e \<Rightarrow> -1)"

subsection \<open>What a lookup finds\<close>

text \<open>The entries that a list of remaps contributes, in order, and when it is refused.\<close>

definition remapBad :: "(string \<Rightarrow> gerr + string) \<Rightarrow> Remap \<Rightarrow> bool" where
  "remapBad get item \<longleftrightarrow>
     (if From item = [] \<or> To item = [] then \<not> Optional item
      else case get (From item) of Inl e \<Rightarrow> \<not> (Optional item \<and> errIs e ''meta.ErrNotFound'') | Inr v \<Rightarrow> False)"

definition remapEntries :: "(string \<Rightarrow> gerr + string) \<Rightarrow> Remap list \<Rightarrow> (string \<times> string) list" where
  "remapEntries get items =
     concat (map (\<lambda>item. if From item = [] \<or> To item = [] then []
                         else case get (From item) of Inl e \<Rightarrow> [] | Inr v \<Rightarrow> [(To item, v)]) items)"

lemma remapLoop_spec:
  "remapLoop get items rv = Inr rv' \<longleftrightarrow> \<not> list_ex (remapBad get) items \<and> rv' = rev (remapEntries get items) @ rv"
  by (induction get items rv rule: remapLoop.induct) (auto simp: remapBad_def remapEntries_def split: sum.splits)

lemma trimSlash_spec: "trimSlash (CHR ''/'' # s) = s" "s = [] \<or> List.hd s \<noteq> CHR ''/'' \<Longrightarrow> trimSlash s = s"
  by (auto simp: trimSlash_def split: list.splits)


text \<open>The options of the externals: each expander has the origins of those before it and its own.\<close>

lemma applyLoop_spec:
  "applyLoop gs exts opts additional = Inr out \<Longrightarrow>
     length out = length additional + length exts
     \<and> (\<forall>i < length exts. resolve gs (exts ! i) = Inr (fst (out ! (length additional + i)))
          \<and> last (snd (out ! (length additional + i))) = (if Origin (exts ! i) = [] then File (exts ! i) else Origin (exts ! i)))
     \<and> take (length additional) out = additional"
proof (induction gs exts opts additional rule: applyLoop.induct)
  case (2 gs external externals opts additional)
  define origin where "origin = (if Origin external = [] then File external else Origin external)"
  from 2(2) obtain fn where fn: "resolve gs external = Inr fn" by (auto split: sum.splits)
  let ?add = "additional @ [(fn, opts @ [origin])]"
  have loop: "applyLoop gs externals (opts @ [origin]) ?add = Inr out" using 2(2) fn unfolding origin_def by (simp only: applyLoop.simps sum.case Let_def)
  have ih: "length out = length ?add + length externals"
    "\<forall>i < length externals. resolve gs (externals ! i) = Inr (fst (out ! (length ?add + i)))
          \<and> last (snd (out ! (length ?add + i))) = (if Origin (externals ! i) = [] then File (externals ! i) else Origin (externals ! i))"
    "take (length ?add) out = ?add"
    using 2(1)[OF fn origin_def refl loop] by blast+
  have own: "out ! length additional = (fn, opts @ [origin])"
    using arg_cong[OF ih(3), of "\<lambda>x. x ! length additional"] by (simp add: nth_append)
  have "take (length additional) out = additional"
    using arg_cong[OF ih(3), of "take (length additional)"] by (simp add: min_def)
  moreover have "resolve gs ((external # externals) ! i) = Inr (fst (out ! (length additional + i)))
      \<and> last (snd (out ! (length additional + i)))
        = (if Origin ((external # externals) ! i) = [] then File ((external # externals) ! i) else Origin ((external # externals) ! i))"
    if "i < length (external # externals)" for i
    using that ih(2) own fn by (cases i) (auto simp: origin_def)
  ultimately show ?case using ih(1) by auto
qed auto

text \<open>
  How the program gets its configuration: it goes on exactly when the files could be read, the externals applied, the whole
  configuration decoded, and neither the default file nor the display was asked for; the configuration is then the one with the
  externals.
\<close>

theorem provideConfig_spec:
  "provideConfig newCfg applied writeDefault unmarshalAll cli = ConfigReady gs \<longleftrightarrow>
     (\<exists>gs0. newCfg (Files cli) = Inr gs0 \<and> applied gs0 = Inr gs) \<and> DefaultFile cli = [] \<and> \<not> Show cli \<and> unmarshalAll gs = None"
  by (auto simp: provideConfig_def split: sum.splits option.splits)

text \<open>A configuration with a critical error ends the program with the status of a success.\<close>

lemma provideConfig_broken:
  assumes "newCfg (Files cli) = Inr gs0" "applied gs0 = Inr gs" "DefaultFile cli = []" "\<not> Show cli" "unmarshalAll gs = Some e"
  shows "provideConfig newCfg applied writeDefault unmarshalAll cli = ConfigExit 0"
  using assms by (simp add: provideConfig_def)

end
