(* ===== verification/LibparodusStart.thy ===== *)
theory LibparodusStart
  imports Libparodus
begin

text \<open>
  \<open>internal/adapters/libparodus/libparodus.go\<close>, how \<open>Start\<close>, \<open>Stop\<close> and the goroutine \<open>receive\<close> meet: the setting up of the receiving socket,
  the unbuffered channel \<open>listening\<close>, the context and the wait group; and the receive loop over what the socket returns. The
  messages themselves are those of the theory of the adapter.
\<close>

subsection \<open>The receiving socket\<close>

record recvSetup =
  rsNew :: "gerr option"
  rsDeadline :: "gerr option"
  rsListen :: "gerr option"

definition setupErr :: "recvSetup \<Rightarrow> gerr option" where
  "setupErr rs =
     (case rsNew rs of
        Some e \<Rightarrow> Some e
      | None \<Rightarrow> (case rsDeadline rs of Some e \<Rightarrow> Some e | None \<Rightarrow> rsListen rs))"

subsection \<open>The receive loop\<close>

text \<open>\<open>Recv\<close> times out, or returns bytes, which an error that is no timeout leaves empty.\<close>

datatype recvOutcome = RecvTimeout | RecvBytes bytes

definition receiveRound ::
  "(bytes \<Rightarrow> gerr + message) \<Rightarrow> (string \<Rightarrow> locator \<times> gerr option) \<Rightarrow> (message \<Rightarrow> gerr option) \<Rightarrow> sockCalls \<Rightarrow> gerr option
   \<Rightarrow> recvOutcome \<Rightarrow> adapter \<Rightarrow> adapter" where
  "receiveRound decode parse encodeErr sc outcome r a =
     (case r of RecvTimeout \<Rightarrow> a | RecvBytes b \<Rightarrow> receive parse encodeErr sc outcome (decode b) a)"

text \<open>The loop over the outcomes of the calls; it returns when the context has ended. \<open>None\<close>: it still waits on the socket.\<close>

fun receiveLoop ::
  "(bytes \<Rightarrow> gerr + message) \<Rightarrow> (string \<Rightarrow> locator \<times> gerr option) \<Rightarrow> (message \<Rightarrow> gerr option)
   \<Rightarrow> (sockCalls \<times> gerr option \<times> recvOutcome) list \<Rightarrow> adapter \<Rightarrow> adapter option" where
  "receiveLoop decode parse encodeErr [] a = (if adCtxDone a then Some a else None)"
| "receiveLoop decode parse encodeErr ((sc, outcome, r) # rs) a =
     (if adCtxDone a then Some a
      else receiveLoop decode parse encodeErr rs (receiveRound decode parse encodeErr sc outcome r a))"

subsection \<open>Start and Stop\<close>

datatype recvPc = RvNew | RvSetup | RvSend "gerr option" | RvLoop | RvReturned
datatype startPc = StWait | StReturned "gerr option"
datatype stopPc = SpIdle | SpWait | SpReturned

record lpSys =
  lsCtxDone :: bool
  lsRecv :: recvPc
  lsStart :: startPc
  lsStop :: stopPc

text \<open>\<open>Start\<close> has created the context and started the goroutine, which is not in the wait group yet.\<close>

definition startedSys :: lpSys where
  "startedSys = \<lparr>lsCtxDone = False, lsRecv = RvNew, lsStart = StWait, lsStop = SpIdle\<rparr>"

inductive lpStep :: "recvSetup \<Rightarrow> lpSys \<Rightarrow> lpSys \<Rightarrow> bool" for rs where
  wgAdd: "lsRecv s = RvNew \<Longrightarrow> lpStep rs s (s\<lparr>lsRecv := RvSetup\<rparr>)"
| socketReady: "lsRecv s = RvSetup \<Longrightarrow> lpStep rs s (s\<lparr>lsRecv := RvSend (setupErr rs)\<rparr>)"
| listening: "lsRecv s = RvSend e \<Longrightarrow> lsStart s = StWait
    \<Longrightarrow> lpStep rs s (s\<lparr>lsRecv := (if e = None then RvLoop else RvReturned), lsStart := StReturned e\<rparr>)"
| startCtx: "lsStart s = StWait \<Longrightarrow> lsCtxDone s \<Longrightarrow> lpStep rs s (s\<lparr>lsStart := StReturned None\<rparr>)"
| loopEnds: "lsRecv s = RvLoop \<Longrightarrow> lsCtxDone s \<Longrightarrow> lpStep rs s (s\<lparr>lsRecv := RvReturned\<rparr>)"
| stopCalled: "lsStop s = SpIdle \<Longrightarrow> lpStep rs s (s\<lparr>lsCtxDone := True, lsStop := SpWait\<rparr>)"
| stopReturns: "lsStop s = SpWait \<Longrightarrow> lsRecv s \<in> {RvNew, RvReturned} \<Longrightarrow> lpStep rs s (s\<lparr>lsStop := SpReturned\<rparr>)"

inductive_cases lpStepE: "lpStep rs s s'"

text \<open>What each phase of the goroutine and of \<open>Start\<close> says about the other.\<close>

definition lpInv :: "recvSetup \<Rightarrow> lpSys \<Rightarrow> bool" where
  "lpInv rs s \<longleftrightarrow> (lsCtxDone s \<longrightarrow> lsStop s \<noteq> SpIdle)
     \<and> (case lsRecv s of
          RvSend e \<Rightarrow> e = setupErr rs \<and> (lsStop s = SpIdle \<longrightarrow> lsStart s = StWait)
        | RvNew \<Rightarrow> lsStop s = SpIdle \<longrightarrow> lsStart s = StWait
        | RvSetup \<Rightarrow> lsStop s = SpIdle \<longrightarrow> lsStart s = StWait
        | _ \<Rightarrow> lsStart s = StReturned (setupErr rs))"

lemma lpInv_step: "lpStep rs s s' \<Longrightarrow> lpInv rs s \<Longrightarrow> lpInv rs s'"
  by (induction rule: lpStep.induct) (auto simp: lpInv_def split: recvPc.splits)

lemma lpInv_reachable: "(lpStep rs)\<^sup>*\<^sup>* startedSys s \<Longrightarrow> lpInv rs s"
proof (induction rule: rtranclp_induct)
  case base
  show ?case by (simp add: lpInv_def startedSys_def)
qed (rule lpInv_step)

text \<open>
  \<open>Start\<close> reports the outcome of the listening: as long as \<open>Stop\<close> is not called, \<open>Start\<close> either still can go on or has returned, and
  what it returns is the first error of creating the socket, setting its deadline and listening, or no error when all three went well.
\<close>

theorem Start_reports_listening:
  assumes "(lpStep rs)\<^sup>*\<^sup>* startedSys s" and "lsStop s = SpIdle"
  shows "lsStart s = StReturned (setupErr rs) \<or> lsStart s = StWait \<and> (\<exists>s'. lpStep rs s s' \<and> lsStop s' = SpIdle)"
proof (cases "lsStart s")
  case StWait
  from lpInv_reachable[OF assms(1)] have inv: "lpInv rs s" .
  have "\<exists>s'. lpStep rs s s' \<and> lsStop s' = SpIdle"
  proof (cases "lsRecv s")
    case RvNew
    from lpStep.wgAdd[OF this, of rs] assms(2) show ?thesis by auto
  next
    case RvSetup
    from lpStep.socketReady[OF this, of rs] assms(2) show ?thesis by auto
  next
    case (RvSend e)
    from lpStep.listening[OF this StWait, of rs] assms(2) show ?thesis by (metis lpSys.select_convs(4) lpSys.surjective lpSys.update_convs(2,3))
  qed (use inv StWait in \<open>auto simp: lpInv_def\<close>)
  with StWait show ?thesis by simp
next
  case (StReturned e)
  with lpInv_reachable[OF assms(1)] assms(2) show ?thesis by (auto simp: lpInv_def split: recvPc.splits)
qed

theorem Start_reports_listening_witness:
  "\<exists>s. (lpStep \<lparr>rsNew = None, rsDeadline = None, rsListen = Some (Plain ''in use'')\<rparr>)\<^sup>*\<^sup>* startedSys s
     \<and> lsStart s = StReturned (Some (Plain ''in use''))"
proof -
  let ?rs = "\<lparr>rsNew = None, rsDeadline = None, rsListen = Some (Plain ''in use'')\<rparr>"
  let ?s1 = "startedSys\<lparr>lsRecv := RvSetup\<rparr>" and ?s2 = "startedSys\<lparr>lsRecv := RvSend (Some (Plain ''in use''))\<rparr>"
  let ?s3 = "startedSys\<lparr>lsRecv := RvReturned, lsStart := StReturned (Some (Plain ''in use''))\<rparr>"
  have "lpStep ?rs startedSys ?s1" using lpStep.wgAdd[of startedSys ?rs] by (simp add: startedSys_def)
  moreover have "lpStep ?rs ?s1 ?s2" using lpStep.socketReady[of ?s1 ?rs] by (simp add: startedSys_def setupErr_def)
  moreover have "lpStep ?rs ?s2 ?s3" using lpStep.listening[of ?s2 _ ?rs] by (simp add: startedSys_def)
  ultimately have r: "(lpStep ?rs)\<^sup>*\<^sup>* startedSys ?s3" by (meson converse_rtranclp_into_rtranclp r_into_rtranclp)
  from Start_reports_listening[OF r] have "lsStart ?s3 = StReturned (Some (Plain ''in use''))" by (simp add: startedSys_def setupErr_def)
  with r show ?thesis by blast
qed

lemma stuck_step:
  "lpStep rs s s' \<Longrightarrow> lsRecv s = RvSend e \<and> lsStart s = StReturned x \<and> lsStop s = SpWait
     \<Longrightarrow> lsRecv s' = RvSend e \<and> lsStart s' = StReturned x \<and> lsStop s' = SpWait"
  by (induction rule: lpStep.induct) auto

text \<open>
  C36: \<open>Stop\<close> during \<open>Start\<close> can hang for ever: when \<open>Start\<close> leaves its select because the context has ended, nobody receives from the
  unbuffered channel any more, the goroutine never passes its send, and the wait group that \<open>Stop\<close> waits for never empties.
\<close>

theorem Stop_during_Start_hangs:
  "\<exists>s. (lpStep rs)\<^sup>*\<^sup>* startedSys s \<and> lsStart s = StReturned None
     \<and> (\<forall>s'. (lpStep rs)\<^sup>*\<^sup>* s s' \<longrightarrow> lsStop s' = SpWait \<and> lsRecv s' = RvSend (setupErr rs))"
proof -
  let ?s1 = "startedSys\<lparr>lsRecv := RvSetup\<rparr>" and ?s2 = "startedSys\<lparr>lsRecv := RvSend (setupErr rs)\<rparr>"
  let ?s3 = "?s2\<lparr>lsCtxDone := True, lsStop := SpWait\<rparr>"
  let ?s4 = "?s3\<lparr>lsStart := StReturned None\<rparr>"
  have "lpStep rs startedSys ?s1" using lpStep.wgAdd[of startedSys rs] by (simp add: startedSys_def)
  moreover have "lpStep rs ?s1 ?s2" using lpStep.socketReady[of ?s1 rs] by (simp add: startedSys_def)
  moreover have "lpStep rs ?s2 ?s3" using lpStep.stopCalled[of ?s2 rs] by (simp add: startedSys_def)
  moreover have "lpStep rs ?s3 ?s4" using lpStep.startCtx[of ?s3 rs] by (simp add: startedSys_def)
  ultimately have r: "(lpStep rs)\<^sup>*\<^sup>* startedSys ?s4" by (meson converse_rtranclp_into_rtranclp r_into_rtranclp)
  have "lsRecv s' = RvSend (setupErr rs) \<and> lsStart s' = StReturned None \<and> lsStop s' = SpWait" if "(lpStep rs)\<^sup>*\<^sup>* ?s4 s'" for s'
    using that by (induction rule: rtranclp_induct) (simp add: startedSys_def, blast dest: stuck_step)
  with r show ?thesis by (intro exI[of _ ?s4]) simp
qed

theorem Stop_during_Start_hangs_witness:
  "\<exists>s. (lpStep \<lparr>rsNew = None, rsDeadline = None, rsListen = None\<rparr>)\<^sup>*\<^sup>* startedSys s \<and> lsStop s = SpWait \<and> lsRecv s = RvSend None"
  using Stop_during_Start_hangs[of "\<lparr>rsNew = None, rsDeadline = None, rsListen = None\<rparr>"] by (auto simp: setupErr_def)

end
