(* ===== verification/Listeners.thy ===== *)
theory Listeners
  imports Credentials WsAgent Jwtxt
begin

text \<open>
  The listeners of the services: the options that add them (\<open>internal/credentials/options.go\<close>, \<open>internal/websocket/options.go\<close>,
  \<open>internal/jwtxt/options.go\<close>) and \<open>dispatch\<close>; and the two functions of the credentials service that wait on its channels. The
  package \<open>eventor\<close> is a record of operations, a listener a function on a state. The optional last argument of an option is
  a list of addresses, \<open>None\<close> for a nil pointer, at which the function that cancels the listener is to be stored.
\<close>

record ('l, 'e) eventor =
  evAdd :: "'l \<Rightarrow> 'e \<Rightarrow> nat \<times> 'e"
  evCancel :: "nat \<Rightarrow> 'e \<Rightarrow> 'e"
  evVisit :: "'e \<Rightarrow> 'l list"

type_synonym cancels = "(nat \<times> nat) list"

subsection \<open>Credentials\<close>

record 'e credListeners =
  fetchListeners :: 'e
  decorateListeners :: 'e

definition storeListenerCancel :: "nat option list \<Rightarrow> nat \<Rightarrow> cancels" where
  "storeListenerCancel cancel h = (case cancel of Some a # _ \<Rightarrow> [(a, h)] | _ \<Rightarrow> [])"

definition AddFetchListener :: "('l, 'e) eventor \<Rightarrow> 'l \<Rightarrow> nat option list \<Rightarrow> 'e credListeners \<Rightarrow> 'e credListeners \<times> cancels" where
  "AddFetchListener ev l cancel c =
     (case evAdd ev l (fetchListeners c) of (h, e) \<Rightarrow> (c\<lparr>fetchListeners := e\<rparr>, storeListenerCancel cancel h))"

definition AddDecorateListener :: "('l, 'e) eventor \<Rightarrow> 'l \<Rightarrow> nat option list \<Rightarrow> 'e credListeners \<Rightarrow> 'e credListeners \<times> cancels" where
  "AddDecorateListener ev l cancel c =
     (case evAdd ev l (decorateListeners c) of (h, e) \<Rightarrow> (c\<lparr>decorateListeners := e\<rparr>, storeListenerCancel cancel h))"

datatype credNotice = FetchNotice fetchEvent | DecorateNotice decorateEvent

text \<open>A listener takes the event; those of one eventor are all called, in the order of the visit.\<close>

definition dispatch :: "(credNotice \<Rightarrow> 's \<Rightarrow> 's, 'e) eventor \<Rightarrow> 'e credListeners \<Rightarrow> credNotice \<Rightarrow> 's \<Rightarrow> gerr option \<times> 's" where
  "dispatch ev c n s =
     (case n of
        FetchNotice e \<Rightarrow> (feErr e, fold (\<lambda>l. l n) (evVisit ev (fetchListeners c)) s)
      | DecorateNotice e \<Rightarrow> (dErr e, fold (\<lambda>l. l n) (evVisit ev (decorateListeners c)) s))"

text \<open>\<open>WaitUntilFetched\<close> and \<open>WaitUntilValid\<close>: \<open>None\<close> while they block, otherwise whether it was the context that ended.\<close>

definition WaitUntilFetched_cred :: "nat \<Rightarrow> bool \<Rightarrow> 'f credState \<Rightarrow> bool option" where
  "WaitUntilFetched_cred pick ctxDone st = goSelect pick [(stFetchedClosed st, False), (ctxDone, True)]"

text \<open>The channel \<open>valid\<close> is read before the wait: \<open>validClosed\<close> is whether that channel, not its successor, is closed.\<close>

definition WaitUntilValid :: "nat \<Rightarrow> bool \<Rightarrow> bool \<Rightarrow> bool option" where
  "WaitUntilValid pick ctxDone validClosed = goSelect pick [(validClosed, False), (ctxDone, True)]"

subsection \<open>The websocket\<close>

record 'e wsListeners =
  msgListeners :: 'e
  connectListeners :: 'e
  disconnectListeners :: 'e
  heartbeatListeners :: 'e

text \<open>The first address is written without a check: a nil pointer panics, which is \<open>None\<close>.\<close>

definition storeFirst :: "nat option list \<Rightarrow> nat \<Rightarrow> cancels option" where
  "storeFirst cancel h = (case cancel of [] \<Rightarrow> Some [] | None # _ \<Rightarrow> None | Some a # _ \<Rightarrow> Some [(a, h)])"

definition AddMessageListener :: "('l, 'e) eventor \<Rightarrow> 'l \<Rightarrow> nat option list \<Rightarrow> 'e wsListeners \<Rightarrow> ('e wsListeners \<times> cancels) option" where
  "AddMessageListener ev l cancel w =
     (case evAdd ev l (msgListeners w) of (h, e) \<Rightarrow> map_option (\<lambda>cs. (w\<lparr>msgListeners := e\<rparr>, cs)) (storeFirst cancel h))"

definition AddConnectListener :: "('l, 'e) eventor \<Rightarrow> 'l \<Rightarrow> nat option list \<Rightarrow> 'e wsListeners \<Rightarrow> ('e wsListeners \<times> cancels) option" where
  "AddConnectListener ev l cancel w =
     (case evAdd ev l (connectListeners w) of (h, e) \<Rightarrow> map_option (\<lambda>cs. (w\<lparr>connectListeners := e\<rparr>, cs)) (storeFirst cancel h))"

definition AddDisconnectListener :: "('l, 'e) eventor \<Rightarrow> 'l \<Rightarrow> nat option list \<Rightarrow> 'e wsListeners \<Rightarrow> ('e wsListeners \<times> cancels) option" where
  "AddDisconnectListener ev l cancel w =
     (case evAdd ev l (disconnectListeners w) of (h, e) \<Rightarrow> map_option (\<lambda>cs. (w\<lparr>disconnectListeners := e\<rparr>, cs)) (storeFirst cancel h))"

definition AddHeartbeatListener :: "('l, 'e) eventor \<Rightarrow> 'l \<Rightarrow> nat option list \<Rightarrow> 'e wsListeners \<Rightarrow> ('e wsListeners \<times> cancels) option" where
  "AddHeartbeatListener ev l cancel w =
     (case evAdd ev l (heartbeatListeners w) of (h, e) \<Rightarrow> map_option (\<lambda>cs. (w\<lparr>heartbeatListeners := e\<rparr>, cs)) (storeFirst cancel h))"

text \<open>The method of the same name, which returns the function that cancels.\<close>

definition AddMessageListener_method :: "('l, 'e) eventor \<Rightarrow> 'l \<Rightarrow> 'e wsListeners \<Rightarrow> 'e wsListeners \<times> nat" where
  "AddMessageListener_method ev l w = (case evAdd ev l (msgListeners w) of (h, e) \<Rightarrow> (w\<lparr>msgListeners := e\<rparr>, h))"

subsection \<open>JWT TXT instructions\<close>

definition WithFetchListener :: "('l, 'e) eventor \<Rightarrow> 'l \<Rightarrow> 'e \<Rightarrow> 'e" where
  "WithFetchListener ev l e = snd (evAdd ev l e)"

subsection \<open>Facts\<close>

text \<open>What the services rely on: a listener that is added is visited after those before it, one that is cancelled no more.\<close>

definition eventorOK :: "('l, 'e) eventor \<Rightarrow> bool" where
  "eventorOK ev \<longleftrightarrow> (\<forall>l e. evVisit ev (snd (evAdd ev l e)) = evVisit ev e @ [l]
     \<and> evVisit ev (evCancel ev (fst (evAdd ev l e)) (snd (evAdd ev l e))) = evVisit ev e)"

text \<open>An added fetch listener hears every fetch event once, after the listeners before it, and no decorate event.\<close>

lemma AddFetchListener_hears:
  assumes "eventorOK ev" and "AddFetchListener ev l cancel c = (c', cs)"
  shows "dispatch ev c' (FetchNotice e) s = (feErr e, l (FetchNotice e) (snd (dispatch ev c (FetchNotice e) s)))"
    "dispatch ev c' (DecorateNotice d) s = dispatch ev c (DecorateNotice d) s"
proof -
  have "c' = c\<lparr>fetchListeners := snd (evAdd ev l (fetchListeners c))\<rparr>" using assms(2) by (auto simp: AddFetchListener_def split: prod.splits)
  with assms(1) show "dispatch ev c' (FetchNotice e) s = (feErr e, l (FetchNotice e) (snd (dispatch ev c (FetchNotice e) s)))"
    "dispatch ev c' (DecorateNotice d) s = dispatch ev c (DecorateNotice d) s"
    by (simp_all add: dispatch_def eventorOK_def)
qed

text \<open>An option of the websocket whose optional pointer is nil panics, where that of the credentials stores nothing.\<close>

lemma nil_cancel: "AddMessageListener ev l (None # cancel) w = None" "snd (AddFetchListener ev l (None # cancel) c) = []"
  by (simp_all add: AddMessageListener_def storeFirst_def AddFetchListener_def storeListenerCancel_def split: prod.splits)

lemma fetched_stays:
  assumes "cred_inv st" and "credStep env c e (st, m) = Some (st', m')" and "stFetchedClosed st \<or> (\<exists>now ex now'. e = Iterate now ex now')"
  shows "stFetchedClosed st'"
proof (cases e)
  case (Iterate now ex now')
  with assms(2) have "stPhase st = AtTop" by (auto split: if_splits)
  from Iterate_result[OF assms(1) this, of env c now ex now' m] assms(2) Iterate show ?thesis by auto
qed (use assms in \<open>auto split: runPhase.splits if_splits\<close>)

lemma fetched_after_round: "cred_reachable env c f x \<Longrightarrow> stPhase (fst x) \<noteq> AtTop \<Longrightarrow> stFetchedClosed (fst x)"
proof (induction rule: cred_reachable.induct)
  case (start m)
  then show ?case by (simp add: run_init_def Let_def split: prod.splits)
next
  case (step x e y)
  obtain st m st' m' where xy: "x = (st, m)" "y = (st', m')" by (metis prod.collapse)
  have inv: "cred_inv st" using cred_reachable_inv[OF step(1)] xy by simp
  show ?case
  proof (cases "stFetchedClosed st \<or> (\<exists>now ex now'. e = Iterate now ex now')")
    case True
    with fetched_stays[OF inv, of env c e m st' m'] step(2) xy show ?thesis by simp
  next
    case False
    with step(3) xy have "stPhase st = AtTop" by auto
    with step(2,4) xy False show ?thesis by (cases e) (auto split: if_splits)
  qed
qed

text \<open>
  Waiting for the credentials: once the service has made one round, whatever its outcome, \<open>WaitUntilFetched\<close> does not block, and it
  stays so whatever happens afterwards; and in every state in which the channel \<open>valid\<close> lets \<open>WaitUntilValid\<close> through there is
  a token.
\<close>

theorem waits_are_sound:
  assumes "cred_reachable env c f (st, m)"
  shows "(stPhase st \<noteq> AtTop \<longrightarrow> WaitUntilFetched_cred pick False st = Some False)
     \<and> (WaitUntilFetched_cred pick False st = Some False \<longrightarrow> credStep env c e (st, m) = Some (st', m')
          \<longrightarrow> WaitUntilFetched_cred pick' False st' = Some False)
     \<and> (WaitUntilValid pick False (stValidClosed st) = Some False \<longrightarrow> stToken st \<noteq> None)"
proof -
  have inv: "cred_inv st" using cred_reachable_inv[OF assms] by simp
  have w: "WaitUntilFetched_cred p False s = Some False \<longleftrightarrow> stFetchedClosed s" for p and s :: "'a credState"
    by (simp add: WaitUntilFetched_cred_def goSelect_def readyCases_def)
  have v: "WaitUntilValid pick False (stValidClosed st) = Some False \<longleftrightarrow> stValidClosed st"
    by (simp add: WaitUntilValid_def goSelect_def readyCases_def)
  show ?thesis
    using inv fetched_after_round[OF assms] fetched_stays[OF inv, of env c e m st' m'] unfolding w v by (auto simp: cred_inv_def)
qed

theorem waits_are_sound_witness:
  "\<exists>st. credStep memEnv exampleStored (Iterate 0 (NoUUID ErrNoToken) 0) (run_init memEnv exampleStored emptyMem, Gone) = Some (st, Gone)
     \<and> WaitUntilFetched_cred 0 False st = Some False"
proof -
  let ?st = "run_init memEnv exampleStored emptyMem"
  have r: "cred_reachable memEnv exampleStored emptyMem (?st, Gone)" by (rule cred_reachable.start)
  have top: "stPhase ?st = AtTop" by (simp add: run_init_def Let_def split: prod.splits)
  from Iterate_result[OF cred_inv_init top, of memEnv exampleStored 0 "NoUUID ErrNoToken" 0 Gone] obtain st where
    st: "credStep memEnv exampleStored (Iterate 0 (NoUUID ErrNoToken) 0) (?st, Gone) = Some (st, Gone)" by blast
  have "stPhase st \<noteq> AtTop"
    using Iterate_result[OF cred_inv_init top, of memEnv exampleStored 0 "NoUUID ErrNoToken" 0 Gone] st
    by (auto simp: Let_def split: prod.splits option.splits)
  with waits_are_sound[OF cred_reachable.step[OF r st], of 0] st show ?thesis by blast
qed

end
