(* ===== verification/WsJson.thy ===== *)
theory WsJson
  imports ConnSync
begin

text \<open>
  \<open>internal/nhooyr.io/websocket/wsjson\<close>: JSON messages over a connection. \<open>encoding/json\<close> is an argument: \<open>marshal\<close> is what an encoder
  writes in its one call of the writer, \<open>unmarshal\<close> what a decoder returns. The buffers of the pool are empty when they are taken.
\<close>

definition unmarshalReason :: bytes where "unmarshalReason = bytes_of ''failed to unmarshal JSON''"

definition Read_json :: "(bytes \<Rightarrow> gerr + 'v) \<Rightarrow> (nat \<Rightarrow> nat) \<Rightarrow> conn \<Rightarrow> (gerr + 'v) \<times> conn" where
  "Read_json unmarshal sz c =
     (let wrap = Wrapped ''failed to read JSON message'' in
      case Read_conn sz c of
        (Inl e, c1) \<Rightarrow> (Inl (wrap e), c1)
      | (Inr (mt, b), c1) \<Rightarrow>
          (case unmarshal b of
             Inl e \<Rightarrow> (Inl (wrap (Wrapped ''failed to unmarshal JSON'' e)), snd (Close_conn StatusInvalidFramePayloadData unmarshalReason c1))
           | Inr v \<Rightarrow> (Inr v, c1)))"

definition Write_json :: "('v \<Rightarrow> gerr + bytes) \<Rightarrow> 'v \<Rightarrow> conn \<Rightarrow> gerr option \<times> conn" where
  "Write_json marshal v c =
     (let wrap = (\<lambda>e. Wrapped ''failed to write JSON message'' (Wrapped ''failed to marshal JSON'' e)) in
      case marshal v of
        Inl e \<Rightarrow> (Some (wrap e), c)
      | Inr p \<Rightarrow> (case Write_conn MessageText p c of (None, c1) \<Rightarrow> (None, c1) | (Some e, c1) \<Rightarrow> (Some (wrap e), c1)))"

lemma MessageText_op: "MessageText = opText"
  by (simp add: MessageText_def opcode_defs)

text \<open>
  A JSON value survives the link: when the codec reads back what it writes, within the limits of the peer, a value written at one
  end is the value read at the other, and the link is as idle as before.
\<close>

theorem json_roundtrip:
  assumes "linked limit [] (w, r)" and "marshal v = Inr b" and "unmarshal b = Inr v" and "fits limit [b]" and "canWrite 1 w"
  shows "\<exists>w' r'. Write_json marshal v w = (None, w') \<and> Read_json unmarshal sz (deliver w w' r) = (Inr v, r') \<and> linked limit [] (w', r')"
proof -
  have "canWrite (1 + 0) w" "opFits limit (SendWhole opText b)" using assms(4,5) by simp_all
  from linkStep_whole[OF assms(1) this(2,1)] obtain w' where
    w': "Write_conn opText b w = (None, w')" "linked limit [(opText, b)] (w', deliver w w' r)"
    by (auto split: prod.splits option.splits)
  from linked_recv[OF w'(2), of sz] obtain r' where r': "Read_conn sz (deliver w w' r) = (Inr (opText, b), r')" "linked limit [] (w', r')" by blast
  have "Write_json marshal v w = (None, w')" using assms(2) w'(1) by (simp add: Write_json_def MessageText_op)
  moreover have "Read_json unmarshal sz (deliver w w' r) = (Inr v, r')" using assms(3) r'(1) by (simp add: Read_json_def)
  ultimately show ?thesis using r'(2) by blast
qed

theorem json_roundtrip_witness:
  "\<exists>w' r'. Write_json (\<lambda>n :: nat. Inr [of_nat n]) 7 (exampleConn []) = (None, w')
     \<and> Read_json (\<lambda>b. Inr (unat (List.hd b))) (\<lambda>_. 0) (deliver (exampleConn []) w' (newConn False (\<lambda>_. []) None [] emptyBw [])) = (Inr 7, r')"
proof -
  have "canWrite 1 (exampleConn [])" by (simp add: canWrite_def exampleConn_def newConn_def)
  from json_roundtrip[OF example_linked, of "\<lambda>n :: nat. Inr [of_nat n]" 7 "[7]" "\<lambda>b. Inr (unat (List.hd b))" "\<lambda>_. 0"] this
  show ?thesis by (auto simp: fits_def)
qed

text \<open>What is no JSON closes the connection, and the error of the decoder is returned.\<close>

lemma Read_json_invalid:
  assumes "Read_conn sz c = (Inr (mt, b), c1)" and "unmarshal b = Inl e"
  shows "\<exists>c'. Read_json unmarshal sz c = (Inl (Wrapped ''failed to read JSON message'' (Wrapped ''failed to unmarshal JSON'' e)), c') \<and> cClosed c'"
  using assms by (simp add: Read_json_def)

end
