(* ===== verification/WsJs.thy ===== *)
theory WsJs
  imports CloseFrame
begin

text \<open>
  \<open>internal/nhooyr.io/websocket/ws_js.go\<close> and \<open>internal/wsjs/wsjs_js.go\<close>: the connection of the JavaScript target, a wrapper around the
  WebSocket of a browser. The browser is an argument: what its calls return and the events it fires. A call that waits for an event
  that does not come is \<open>None\<close>. The mutexes protect what is one step here.
\<close>

definition ErrClosed_js :: gerr where "ErrClosed_js = Sentinel ''net.ErrClosed''"

subsection \<open>The state\<close>

text \<open>The data of a message event: \<open>OnMessage\<close> of \<open>wsjs\<close> hands over a string or the bytes of an array buffer.\<close>

datatype messageEvent = JsText bytes | JsBytes bytes

record closeEvent =
  ceCode :: StatusCode
  ceReason :: bytes
  ceWasClean :: bool

text \<open>What the object in the browser has been told: the messages sent and the calls of its \<open>close\<close>.\<close>

record jsConn =
  jLimit :: int
  jReadClosed :: bool
  jClosed :: bool
  jCloseErr :: "gerr option"
  jWasClean :: bool
  jSignal :: bool
  jBuf :: "messageEvent list"
  jSent :: "messageEvent list"
  jCloseCalls :: "(StatusCode \<times> bytes) list"

definition init_js :: jsConn where
  "init_js = \<lparr>jLimit = 32768, jReadClosed = False, jClosed = False, jCloseErr = None, jWasClean = False, jSignal = False, jBuf = [],
     jSent = [], jCloseCalls = []\<rparr>"

definition setCloseErr_js :: "gerr \<Rightarrow> jsConn \<Rightarrow> jsConn" where
  "setCloseErr_js err c = (case jCloseErr c of None \<Rightarrow> c\<lparr>jCloseErr := Some (Wrapped ''WebSocket closed'' err)\<rparr> | Some _ \<Rightarrow> c)"

definition close_js :: "gerr \<Rightarrow> bool \<Rightarrow> jsConn \<Rightarrow> jsConn" where
  "close_js err wasClean c =
     (if jClosed c then c
      else (setCloseErr_js (if wasClean then err else Wrapped ''unclean connection close'' err) c)\<lparr>jWasClean := wasClean, jClosed := True\<rparr>)"

subsection \<open>The events of the browser\<close>

definition onClose_js :: "closeEvent \<Rightarrow> jsConn \<Rightarrow> jsConn" where
  "onClose_js e c = close_js (Coded (ceCode e) (ceReason e)) (ceWasClean e) c"

definition onMessage_js :: "messageEvent \<Rightarrow> jsConn \<Rightarrow> jsConn" where
  "onMessage_js e c = c\<lparr>jBuf := jBuf c @ [e], jSignal := True\<rparr>"

subsection \<open>Closing\<close>

text \<open>
  The object in the browser: the errors of its calls, and the close event that its \<open>close\<close> leads to, if one comes.
\<close>

record browser =
  brSend :: "messageEvent \<Rightarrow> gerr option"
  brClose :: "StatusCode \<Rightarrow> bytes \<Rightarrow> gerr option"
  brCloseEvent :: "closeEvent option"

definition exportedClose :: "browser \<Rightarrow> StatusCode \<Rightarrow> bytes \<Rightarrow> jsConn \<Rightarrow> (gerr option \<times> jsConn) option" where
  "exportedClose br code reason c =
     (if jClosed c then Some (Some ErrClosed_js, c)
      else (let c1 = (setCloseErr_js (Wrapped ''sent close'' (Coded code reason)) c)\<lparr>jCloseCalls := jCloseCalls c @ [(code, reason)]\<rparr>
            in case brClose br code reason of
                 Some e \<Rightarrow> Some (Some e, c1)
               | None \<Rightarrow>
                   (case brCloseEvent br of
                      None \<Rightarrow> None
                    | Some ev \<Rightarrow> (let c2 = onClose_js ev c1 in Some (if \<not> jWasClean c2 then jCloseErr c2 else None, c2)))))"

definition Close_js :: "browser \<Rightarrow> StatusCode \<Rightarrow> bytes \<Rightarrow> jsConn \<Rightarrow> (gerr option \<times> jsConn) option" where
  "Close_js br code reason c =
     map_option (\<lambda>(err, c'). (map_option (Wrapped ''failed to close WebSocket'') err, c')) (exportedClose br code reason c)"

definition CloseNow_js :: "browser \<Rightarrow> jsConn \<Rightarrow> (gerr option \<times> jsConn) option" where
  "CloseNow_js br c = Close_js br StatusGoingAway [] c"

definition wentWrong :: bytes where "wentWrong = bytes_of ''something went wrong''"

definition closeWithInternal :: "browser \<Rightarrow> jsConn \<Rightarrow> jsConn option" where
  "closeWithInternal br c = map_option snd (Close_js br StatusInternalError wentWrong c)"

definition onError_js :: "browser \<Rightarrow> string \<Rightarrow> jsConn \<Rightarrow> jsConn option" where
  "onError_js br message c = closeWithInternal br (setCloseErr_js (Plain message) c)"

subsection \<open>Reading\<close>

text \<open>
  \<open>read\<close> in two steps, between which messages may arrive: the wait for the signal, and the taking of the first message. \<open>None\<close> in the
  second step is the panic of an index out of range.
\<close>

datatype waited = GotSignal | ReadErr gerr

definition waitSignal :: "nat \<Rightarrow> gerr option \<Rightarrow> browser \<Rightarrow> jsConn \<Rightarrow> (waited \<times> jsConn) option" where
  "waitSignal pick ctxErr br c =
     (case goSelect pick [(ctxErr \<noteq> None, (0 :: nat)), (jSignal c, 1), (jClosed c, 2)] of
        None \<Rightarrow> None
      | Some k \<Rightarrow>
          if k = 0
          then map_option (\<lambda>(_, c'). (ReadErr (case ctxErr of Some e \<Rightarrow> e | None \<Rightarrow> ErrClosed_js), c'))
                 (Close_js br StatusPolicyViolation (bytes_of ''read timed out'') c)
          else if k = 1 then Some (GotSignal, c\<lparr>jSignal := False\<rparr>)
          else Some (ReadErr ErrClosed_js, c))"

definition typedData :: "messageEvent \<Rightarrow> int \<times> bytes" where
  "typedData e = (case e of JsText p \<Rightarrow> (1, p) | JsBytes p \<Rightarrow> (2, p))"

definition takeMessage :: "jsConn \<Rightarrow> ((int \<times> bytes) \<times> jsConn) option" where
  "takeMessage c =
     (case jBuf c of
        [] \<Rightarrow> None
      | me # rest \<Rightarrow> Some (typedData me, c\<lparr>jBuf := rest, jSignal := (if rest \<noteq> [] then True else jSignal c)\<rparr>))"

definition SetReadLimit_js :: "int \<Rightarrow> jsConn \<Rightarrow> jsConn" where "SetReadLimit_js n c = c\<lparr>jLimit := n\<rparr>"

text \<open>The limit, once a message is there.\<close>

definition checkLimit :: "browser \<Rightarrow> int \<times> bytes \<Rightarrow> jsConn \<Rightarrow> ((gerr + int \<times> bytes) \<times> jsConn) option" where
  "checkLimit br m c =
     (if jLimit c \<ge> 0 \<and> int (length (snd m)) > jLimit c
      then (let msg = ''read limited at '' @ show_int (jLimit c) @ '' bytes''
            in map_option (\<lambda>(_, c'). (Inl (Plain msg), c')) (Close_js br StatusMessageTooBig (bytes_of msg) c))
      else Some (Inr m, c))"

datatype readResult = JsMessage int bytes | JsError gerr | JsPanic

definition Read_js :: "nat \<Rightarrow> gerr option \<Rightarrow> browser \<Rightarrow> jsConn \<Rightarrow> (readResult \<times> jsConn) option" where
  "Read_js pick ctxErr br c =
     (if jReadClosed c then Some (JsError (Plain ''WebSocket connection read closed''), c)
      else case waitSignal pick ctxErr br c of
        None \<Rightarrow> None
      | Some (ReadErr e, c1) \<Rightarrow> Some (JsError (Wrapped ''failed to read'' e), c1)
      | Some (GotSignal, c1) \<Rightarrow>
          (case takeMessage c1 of
             None \<Rightarrow> Some (JsPanic, c1)
           | Some (m, c2) \<Rightarrow>
               map_option (\<lambda>(r, c3). (case r of Inl e \<Rightarrow> JsError e | Inr (mt, p) \<Rightarrow> JsMessage mt p, c3)) (checkLimit br m c2)))"

subsection \<open>Writing\<close>

definition Ping_js :: "gerr option" where "Ping_js = None"

definition write_js :: "browser \<Rightarrow> int \<Rightarrow> bytes \<Rightarrow> jsConn \<Rightarrow> gerr option \<times> jsConn" where
  "write_js br mt p c =
     (if jClosed c then (Some ErrClosed_js, c)
      else if mt = 2 then (case brSend br (JsBytes p) of None \<Rightarrow> (None, c\<lparr>jSent := jSent c @ [JsBytes p]\<rparr>) | Some e \<Rightarrow> (Some e, c))
      else if mt = 1 then (case brSend br (JsText p) of None \<Rightarrow> (None, c\<lparr>jSent := jSent c @ [JsText p]\<rparr>) | Some e \<Rightarrow> (Some e, c))
      else (Some (Plain (''unexpected message type: '' @ show_int mt)), c))"

definition Write_js :: "browser \<Rightarrow> int \<Rightarrow> bytes \<Rightarrow> jsConn \<Rightarrow> (gerr option \<times> jsConn) option" where
  "Write_js br mt p c =
     (case write_js br mt p c of
        (None, c1) \<Rightarrow> Some (None, c1)
      | (Some e, c1) \<Rightarrow>
          (let err = Wrapped ''failed to write'' e
           in map_option (\<lambda>c2. (Some err, c2)) (closeWithInternal br (setCloseErr_js err c1))))"

text \<open>The writer collects a message and sends it when it is closed.\<close>

record jsWriter =
  jwClosed :: bool
  jwType :: int
  jwBuf :: bytes

definition Writer_js :: "int \<Rightarrow> jsWriter" where "Writer_js mt = \<lparr>jwClosed = False, jwType = mt, jwBuf = []\<rparr>"

definition writerWrite :: "bytes \<Rightarrow> jsWriter \<Rightarrow> gerr option \<times> jsWriter" where
  "writerWrite p w = (if jwClosed w then (Some (Plain ''cannot write to closed writer''), w) else (None, w\<lparr>jwBuf := jwBuf w @ p\<rparr>))"

definition writerClose :: "browser \<Rightarrow> jsWriter \<Rightarrow> jsConn \<Rightarrow> (gerr option \<times> jsWriter \<times> jsConn) option" where
  "writerClose br w c =
     (if jwClosed w then Some (Some (Plain ''cannot close closed writer''), w, c)
      else map_option (\<lambda>(err, c'). (map_option (Wrapped ''failed to close writer'') err, w\<lparr>jwClosed := True, jwBuf := []\<rparr>, c'))
             (Write_js br (jwType w) (jwBuf w) c))"

subsection \<open>Dialling and CloseRead\<close>

text \<open>\<open>strings.Replace\<close> with one replacement.\<close>

fun replaceFirst :: "string \<Rightarrow> string \<Rightarrow> string \<Rightarrow> string" where
  "replaceFirst old new [] = (if old = [] then new else [])"
| "replaceFirst old new (x # xs) =
     (if HasPrefix (x # xs) old then new @ drop (length old) (x # xs) else x # replaceFirst old new xs)"

definition wsURL :: "string \<Rightarrow> string" where
  "wsURL url = replaceFirst ''https://'' ''wss://'' (replaceFirst ''http://'' ''ws://'' url)"

definition dial_js :: "(string \<Rightarrow> gerr option) \<Rightarrow> nat \<Rightarrow> gerr option \<Rightarrow> bool \<Rightarrow> bool \<Rightarrow> browser \<Rightarrow> string \<Rightarrow> ((gerr + jsConn) \<times> string) option" where
  "dial_js new pick ctxErr opened closed br url0 =
     (let url = wsURL url0; wrap = Wrapped ''failed to WebSocket dial'' in
      case new url of
        Some e \<Rightarrow> Some (Inl (wrap e), url)
      | None \<Rightarrow>
          (case goSelect pick [(ctxErr \<noteq> None, (0 :: nat)), (opened, 1), (closed, 2)] of
             None \<Rightarrow> None
           | Some k \<Rightarrow>
               if k = 0
               then map_option (\<lambda>_. (Inl (wrap (case ctxErr of Some e \<Rightarrow> e | None \<Rightarrow> ErrClosed_js)), url))
                      (Close_js br StatusPolicyViolation (bytes_of ''dial timed out'') init_js)
               else if k = 1 then Some (Inr init_js, url)
               else Some (Inl (wrap ErrClosed_js), url)))"

text \<open>
  The goroutine of \<open>CloseRead\<close>, up to the deferred calls: the result is whether it calls \<open>Close\<close> in its body, where it would wait for
  itself.
\<close>

definition closeReadBody :: "nat \<Rightarrow> gerr option \<Rightarrow> browser \<Rightarrow> jsConn \<Rightarrow> (bool \<times> jsConn) option" where
  "closeReadBody pick ctxErr br c =
     (case waitSignal pick ctxErr br (c\<lparr>jReadClosed := True\<rparr>) of
        None \<Rightarrow> None
      | Some (ReadErr e, c1) \<Rightarrow> Some (True, c1)
      | Some (GotSignal, c1) \<Rightarrow> (case takeMessage c1 of None \<Rightarrow> None | Some (m, c2) \<Rightarrow> Some (False, c2)))"

datatype closeReadEnd = CrStuck jsConn | CrEnded jsConn

text \<open>
  The whole goroutine. In the first case it waits for its own end, since \<open>Close\<close> waits for the group it belongs to: in \<open>read\<close> when the
  context has ended, in the body when the connection is closed. In the second the deferred calls cancel the context and close the connection.
\<close>

definition CloseRead_js :: "nat \<Rightarrow> gerr option \<Rightarrow> browser \<Rightarrow> jsConn \<Rightarrow> closeReadEnd option" where
  "CloseRead_js pick ctxErr br c =
     (case closeReadBody pick ctxErr br c of
        None \<Rightarrow> None
      | Some (True, c1) \<Rightarrow> Some (CrStuck c1)
      | Some (False, c1) \<Rightarrow> map_option (\<lambda>r. CrEnded (snd r)) (CloseNow_js br c1))"

definition Accept_js :: gerr where "Accept_js = Plain ''unimplemented''"

subsection \<open>What the calls leave alone\<close>

lemma setCloseErr_js_fields [simp]:
  "jBuf (setCloseErr_js e c) = jBuf c" "jSignal (setCloseErr_js e c) = jSignal c" "jClosed (setCloseErr_js e c) = jClosed c"
  "jSent (setCloseErr_js e c) = jSent c" "jCloseCalls (setCloseErr_js e c) = jCloseCalls c" "jLimit (setCloseErr_js e c) = jLimit c"
  by (simp_all add: setCloseErr_js_def split: option.split)

lemma onClose_js_fields [simp]:
  "jBuf (onClose_js e c) = jBuf c" "jSignal (onClose_js e c) = jSignal c" "jClosed (onClose_js e c)"
  "jSent (onClose_js e c) = jSent c" "jCloseCalls (onClose_js e c) = jCloseCalls c" "jLimit (onClose_js e c) = jLimit c"
  by (simp_all add: onClose_js_def close_js_def)

lemma Close_js_keeps: "Close_js br code reason c = Some (r, c') \<Longrightarrow> jBuf c' = jBuf c \<and> jSignal c' = jSignal c \<and> jSent c' = jSent c"
  by (auto simp: Close_js_def exportedClose_def Let_def split: if_splits option.splits)

lemma Write_js_keeps: "Write_js br mt p c = Some (r, c') \<Longrightarrow> jBuf c' = jBuf c \<and> jSignal c' = jSignal c"
  by (auto simp: Write_js_def write_js_def closeWithInternal_def Let_def dest!: Close_js_keeps split: if_splits option.splits)

text \<open>\<open>sync.Once\<close>: the first error stays.\<close>

lemma setCloseErr_js_first: "jCloseErr c = Some e \<Longrightarrow> setCloseErr_js e' c = c"
  by (simp add: setCloseErr_js_def)

lemma Close_js_clean:
  assumes "\<not> jClosed c" "brClose br code reason = None" "brCloseEvent br = Some ev" "ceWasClean ev"
  shows "\<exists>c'. Close_js br code reason c = Some (None, c') \<and> jClosed c' \<and> jCloseCalls c' = jCloseCalls c @ [(code, reason)]"
  using assms by (auto simp: Close_js_def exportedClose_def Let_def onClose_js_def close_js_def)

subsection \<open>Reading while messages arrive\<close>

text \<open>
  One reader and the browser. \<open>syTaken\<close>: the reader has taken the signal and not yet a message.
\<close>

record jsSys =
  syConn :: jsConn
  syTaken :: bool
  syArrived :: "messageEvent list"
  syRead :: "(int \<times> bytes) list"

definition initSys :: jsSys where "initSys = \<lparr>syConn = init_js, syTaken = False, syArrived = [], syRead = []\<rparr>"

inductive jsStep :: "browser \<Rightarrow> jsSys \<Rightarrow> jsSys \<Rightarrow> bool" for br where
  Arrives: "jsStep br s (s\<lparr>syConn := onMessage_js e (syConn s), syArrived := syArrived s @ [e]\<rparr>)"
| Closes: "jsStep br s (s\<lparr>syConn := onClose_js ev (syConn s)\<rparr>)"
| Writes: "Write_js br mt p (syConn s) = Some (r, c') \<Longrightarrow> jsStep br s (s\<lparr>syConn := c'\<rparr>)"
| Signalled: "\<not> syTaken s \<Longrightarrow> waitSignal pick ctxErr br (syConn s) = Some (GotSignal, c') \<Longrightarrow>
    jsStep br s (s\<lparr>syConn := c', syTaken := True\<rparr>)"
| ReadFails: "\<not> syTaken s \<Longrightarrow> waitSignal pick ctxErr br (syConn s) = Some (ReadErr e, c') \<Longrightarrow> jsStep br s (s\<lparr>syConn := c'\<rparr>)"
| Takes: "syTaken s \<Longrightarrow> takeMessage (syConn s) = Some (m, c') \<Longrightarrow>
    jsStep br s (s\<lparr>syConn := c', syTaken := False, syRead := syRead s @ [m]\<rparr>)"

definition jsInv :: "jsSys \<Rightarrow> bool" where
  "jsInv s \<longleftrightarrow>
     syRead s @ map typedData (jBuf (syConn s)) = map typedData (syArrived s) \<and>
     of_bool (jSignal (syConn s)) + of_bool (syTaken s) \<le> length (jBuf (syConn s)) \<and>
     (jBuf (syConn s) \<noteq> [] \<longrightarrow> jSignal (syConn s) \<or> syTaken s)"

lemma waitSignal_signal: "waitSignal pick ctxErr br c = Some (GotSignal, c') \<Longrightarrow> jSignal c \<and> c' = c\<lparr>jSignal := False\<rparr>"
  by (auto simp: waitSignal_def dest!: goSelect_ready split: option.splits if_splits)

lemma waitSignal_error: "waitSignal pick ctxErr br c = Some (ReadErr e, c') \<Longrightarrow> jBuf c' = jBuf c \<and> jSignal c' = jSignal c"
  by (auto simp: waitSignal_def dest: Close_js_keeps split: option.splits if_splits)

lemma waitSignal_ready: "jSignal c \<Longrightarrow> waitSignal pick None br c \<noteq> None"
  by (auto simp: waitSignal_def goSelect_blocks dest: goSelect_ready split: option.splits)

lemma jsStep_inv:
  assumes "jsStep br s s'" and "jsInv s"
  shows "jsInv s'"
  using assms
proof cases
  case (Arrives e) then show ?thesis using assms(2) by (auto simp: jsInv_def onMessage_js_def split: if_splits)
next
  case (Closes ev) then show ?thesis using assms(2) by (simp add: jsInv_def)
next
  case (Writes mt p r c') then show ?thesis using assms(2) by (auto simp: jsInv_def dest!: Write_js_keeps)
next
  case (Signalled pick ctxErr c') then show ?thesis using assms(2) by (auto simp: jsInv_def dest!: waitSignal_signal)
next
  case (ReadFails pick ctxErr e c') then show ?thesis using assms(2) by (auto simp: jsInv_def dest!: waitSignal_error)
next
  case (Takes m c') then show ?thesis using assms(2) by (auto simp: jsInv_def takeMessage_def Suc_le_eq split: list.splits if_splits)
qed

lemma jsSteps_inv: "(jsStep br)\<^sup>*\<^sup>* initSys s \<Longrightarrow> jsInv s"
proof (induction rule: rtranclp_induct)
  case base
  show ?case by (simp add: jsInv_def initSys_def init_js_def)
qed (rule jsStep_inv)

text \<open>
  C35: In the browser, whatever the order of message events, close events, writes and failed reads: the reader gets exactly the messages
  that arrived, in their order and with their types; a reader that took the signal finds a message, so \<open>c.readBuf[0]\<close> never panics; and a
  reader that starts while a message is there does not block.
\<close>

theorem js_reader_sound:
  assumes "(jsStep br)\<^sup>*\<^sup>* initSys s"
  shows "(\<exists>rest. map typedData (syArrived s) = syRead s @ rest \<and> length rest = length (jBuf (syConn s))) \<and>
    (syTaken s \<longrightarrow> takeMessage (syConn s) \<noteq> None) \<and>
    (\<not> syTaken s \<and> length (syRead s) < length (syArrived s) \<longrightarrow> waitSignal pick None br (syConn s) \<noteq> None)"
proof -
  have i: "jsInv s" by (rule jsSteps_inv[OF assms])
  then have "map length [map typedData (syArrived s)] = map length [syRead s @ map typedData (jBuf (syConn s))]" by (simp add: jsInv_def)
  then have "length (syRead s) < length (syArrived s) \<Longrightarrow> jBuf (syConn s) \<noteq> []" by auto
  moreover have "syTaken s \<Longrightarrow> takeMessage (syConn s) \<noteq> None" using i by (auto simp: jsInv_def takeMessage_def split: list.splits)
  ultimately show ?thesis using i waitSignal_ready[of "syConn s" pick br] by (auto simp: jsInv_def intro: exI[of _ "map typedData (jBuf (syConn s))"])
qed

definition kindBrowser :: browser where
  "kindBrowser = \<lparr>brSend = (\<lambda>_. None), brClose = (\<lambda>_ _. None), brCloseEvent = Some \<lparr>ceCode = 1000, ceReason = [], ceWasClean = True\<rparr>\<rparr>"

definition oneWaiting :: jsSys where
  "oneWaiting = initSys\<lparr>syConn := onMessage_js (JsText [104, 105]) init_js, syArrived := [JsText [104, 105]]\<rparr>"

lemma oneWaiting_reachable: "(jsStep kindBrowser)\<^sup>*\<^sup>* initSys oneWaiting"
  using Arrives[of kindBrowser initSys "JsText [104, 105]"] by (auto simp: oneWaiting_def initSys_def)

lemma js_reader_sound_witness:
  "(jsStep kindBrowser)\<^sup>*\<^sup>* initSys oneWaiting \<and> waitSignal 0 None kindBrowser (syConn oneWaiting) \<noteq> None"
  using oneWaiting_reachable js_reader_sound[OF oneWaiting_reachable, where pick = 0] by (simp add: oneWaiting_def initSys_def)

subsection \<open>The limit\<close>

lemma Read_js_first:
  assumes "jSignal c" "\<not> jClosed c" "\<not> jReadClosed c" "jBuf c = me # rest"
  shows "Read_js pick None br c =
    map_option (\<lambda>(r, c3). (case r of Inl e \<Rightarrow> JsError e | Inr (mt, p) \<Rightarrow> JsMessage mt p, c3))
      (checkLimit br (typedData me) (c\<lparr>jBuf := rest, jSignal := rest \<noteq> []\<rparr>))"
proof -
  have "waitSignal pick None br c = Some (GotSignal, c\<lparr>jSignal := False\<rparr>)"
    using assms goSelect_single[of "[(False, 0), (True, 1), (False, 2)]" "1 :: nat" pick] by (simp add: waitSignal_def readyCases_def)
  then show ?thesis using assms by (simp add: Read_js_def takeMessage_def)
qed

text \<open>
  In the browser a message within the limit is returned as it came, and the browser is not asked to close. A longer one is refused: the
  caller gets an error, and the connection is closed with \<open>StatusMessageTooBig\<close>.
\<close>

theorem Read_js_limit:
  assumes "jSignal c" "\<not> jClosed c" "\<not> jReadClosed c" "jBuf c = me # rest"
    and "\<And>code reason. brClose br code reason = None" "brCloseEvent br = Some ev" "ceWasClean ev"
  shows "\<exists>r c'. Read_js pick None br c = Some (r, c') \<and> jBuf c' = rest \<and>
    (if 0 \<le> jLimit c \<and> jLimit c < int (length (snd (typedData me)))
     then (\<exists>e. r = JsError e) \<and> jClosed c' \<and> (\<exists>reason. jCloseCalls c' = jCloseCalls c @ [(StatusMessageTooBig, reason)])
     else r = JsMessage (fst (typedData me)) (snd (typedData me)) \<and> \<not> jClosed c' \<and> jCloseCalls c' = jCloseCalls c)"
proof (cases "0 \<le> jLimit c \<and> jLimit c < int (length (snd (typedData me)))")
  case True
  let ?c = "c\<lparr>jBuf := rest, jSignal := rest \<noteq> []\<rparr>" and ?msg = "bytes_of (''read limited at '' @ show_int (jLimit c) @ '' bytes'')"
  obtain c' where "Close_js br StatusMessageTooBig ?msg ?c = Some (None, c')" "jClosed c'"
      "jCloseCalls c' = jCloseCalls c @ [(StatusMessageTooBig, ?msg)]"
    using Close_js_clean[of ?c br StatusMessageTooBig ?msg ev] assms by auto
  with True show ?thesis using Close_js_keeps by (fastforce simp: Read_js_first[OF assms(1-4)] checkLimit_def Let_def)
next
  case False
  then show ?thesis using assms(2) by (auto simp: Read_js_first[OF assms(1-4)] checkLimit_def split: prod.split)
qed

theorem Read_js_limit_witness:
  "\<exists>r c'. Read_js 0 None kindBrowser (SetReadLimit_js 1 (syConn oneWaiting)) = Some (r, c') \<and> (\<exists>e. r = JsError e) \<and> jClosed c'"
proof -
  have "\<exists>r c'. Read_js 0 None kindBrowser (SetReadLimit_js 1 (syConn oneWaiting)) = Some (r, c') \<and> jBuf c' = [] \<and>
    (if 0 \<le> jLimit (SetReadLimit_js 1 (syConn oneWaiting)) \<and> jLimit (SetReadLimit_js 1 (syConn oneWaiting)) < int (length (snd (typedData (JsText [104, 105]))))
     then (\<exists>e. r = JsError e) \<and> jClosed c' \<and>
       (\<exists>reason. jCloseCalls c' = jCloseCalls (SetReadLimit_js 1 (syConn oneWaiting)) @ [(StatusMessageTooBig, reason)])
     else r = JsMessage (fst (typedData (JsText [104, 105]))) (snd (typedData (JsText [104, 105]))) \<and> \<not> jClosed c' \<and>
       jCloseCalls c' = jCloseCalls (SetReadLimit_js 1 (syConn oneWaiting)))"
    by (rule Read_js_limit[where ev = "\<lparr>ceCode = 1000, ceReason = [], ceWasClean = True\<rparr>"])
      (simp_all add: kindBrowser_def SetReadLimit_js_def oneWaiting_def initSys_def onMessage_js_def init_js_def)
  then show ?thesis by (auto simp: SetReadLimit_js_def typedData_def)
qed

subsection \<open>The writer\<close>

definition writeChunks :: "bytes list \<Rightarrow> jsWriter \<Rightarrow> jsWriter" where
  "writeChunks ps w = fold (\<lambda>p w. snd (writerWrite p w)) ps w"

lemma writeChunks_buf: "\<not> jwClosed w \<Longrightarrow> writeChunks ps w = w\<lparr>jwBuf := jwBuf w @ concat ps\<rparr>"
  by (induction ps arbitrary: w) (simp_all add: writeChunks_def writerWrite_def)

text \<open>
  In the browser a message written in pieces is sent once, whole, when its writer is closed; nothing is sent before, and a second
  \<open>Close\<close> is an error that sends nothing.
\<close>

theorem js_writer_sends_once:
  assumes "\<not> jClosed c" "mt = 1 \<or> mt = 2" "\<And>m. brSend br m = None"
  shows "\<exists>w c'. writerClose br (writeChunks ps (Writer_js mt)) c = Some (None, w, c') \<and>
    jSent c' = jSent c @ [if mt = 1 then JsText (concat ps) else JsBytes (concat ps)] \<and>
    (\<exists>e. writerClose br w c' = Some (Some e, w, c'))"
  using assms by (auto simp: writeChunks_buf Writer_js_def writerClose_def Write_js_def write_js_def)

theorem js_writer_sends_once_witness:
  "\<exists>w c'. writerClose kindBrowser (writeChunks [[1], [2, 3]] (Writer_js 2)) init_js = Some (None, w, c') \<and> jSent c' = [JsBytes [1, 2, 3]]"
  using js_writer_sends_once[of init_js 2 kindBrowser "[[1], [2, 3]]"] by (auto simp: kindBrowser_def init_js_def)

subsection \<open>CloseRead\<close>

text \<open>
  In the browser \<open>CloseRead\<close> tests its error the wrong way round. A data message is answered by the deferred \<open>CloseNow\<close>, that is with
  \<open>StatusGoingAway\<close> and never with the policy violation the code names; and when the connection is closed the goroutine waits for its own
  end.
\<close>

theorem CloseRead_js_inverted:
  assumes "\<And>code reason. brClose br code reason = None" "brCloseEvent br = Some ev"
  shows "(\<not> jClosed c \<and> jSignal c \<and> jBuf c \<noteq> [] \<longrightarrow>
      (\<exists>c'. CloseRead_js pick None br c = Some (CrEnded c') \<and> jCloseCalls c' = jCloseCalls c @ [(StatusGoingAway, [])])) \<and>
    (jClosed c \<and> \<not> jSignal c \<longrightarrow> CloseRead_js pick None br c = Some (CrStuck (c\<lparr>jReadClosed := True\<rparr>)))"
  using assms goSelect_single[of "[(False, 0), (True, 1), (False, 2)]" "1 :: nat" pick] goSelect_single[of "[(False, 0), (False, 1), (True, 2)]" "2 :: nat" pick]
  by (auto simp: CloseRead_js_def closeReadBody_def waitSignal_def takeMessage_def readyCases_def CloseNow_js_def Close_js_def exportedClose_def
      Let_def neq_Nil_conv)

theorem CloseRead_js_inverted_witness:
  "\<exists>c'. CloseRead_js 0 None kindBrowser (syConn oneWaiting) = Some (CrEnded c') \<and> jCloseCalls c' = [(StatusGoingAway, [])]"
  using CloseRead_js_inverted[of kindBrowser _ "syConn oneWaiting" 0]
  by (simp add: kindBrowser_def oneWaiting_def initSys_def onMessage_js_def init_js_def)

subsection \<open>The address\<close>

lemma replaceFirst_prefix: "old \<noteq> [] \<Longrightarrow> replaceFirst old new (old @ xs) = new @ xs"
proof (cases "old @ xs")
  case (Cons a list)
  assume "old \<noteq> []"
  have "take (length old) (a # list) = old" "drop (length old) (a # list) = xs" by (simp_all flip: Cons)
  then show ?thesis by (simp add: Cons HasPrefix_def)
qed simp

text \<open>The scheme is replaced, and the rest searched for the other scheme.\<close>

lemma wsURL_schemes:
  "wsURL (''http://'' @ xs) = ''ws://'' @ replaceFirst ''https://'' ''wss://'' xs"
  "wsURL (''https://'' @ xs) = ''wss://'' @ replaceFirst ''http://'' ''ws://'' xs"
proof -
  have "replaceFirst ''https://'' ''wss://'' (''ws://'' @ xs) = ''ws://'' @ replaceFirst ''https://'' ''wss://'' xs" by (simp add: HasPrefix_def)
  then show "wsURL (''http://'' @ xs) = ''ws://'' @ replaceFirst ''https://'' ''wss://'' xs"
    unfolding wsURL_def by (subst replaceFirst_prefix) simp_all
  have "replaceFirst ''http://'' ''ws://'' (''https://'' @ xs) = ''https://'' @ replaceFirst ''http://'' ''ws://'' xs"
    by (simp add: HasPrefix_def)
  then show "wsURL (''https://'' @ xs) = ''wss://'' @ replaceFirst ''http://'' ''ws://'' xs"
    unfolding wsURL_def by (simp only:) (rule replaceFirst_prefix, simp)
qed

text \<open>The replacement is not bound to the scheme: an address inside the query changes instead.\<close>

lemma wsURL_rewrites_query: "wsURL ''wss://a/?u=http://b'' = ''wss://a/?u=ws://b''"
  by code_simp

end
