(* ===== verification/FifoLink.thy ===== *)
theory FifoLink
  imports Prelude
begin

text \<open>
  The interface of a link that carries messages from one end to the other: what a send and a receive do to it, given how many messages can
  still be sent and which ones it holds. Whatever the order of sends and receives, such a link is a queue. The links of the connections
  interpret it.
\<close>

datatype 'm linkAct = Put 'm | Take

fun puts :: "'m linkAct list \<Rightarrow> 'm list" where
  "puts [] = []" | "puts (Put m # xs) = m # puts xs" | "puts (Take # xs) = puts xs"

fun runLink :: "('m \<Rightarrow> 's \<Rightarrow> gerr option \<times> 's) \<Rightarrow> ('s \<Rightarrow> (gerr + 'm) \<times> 's) \<Rightarrow> 'm linkAct list \<Rightarrow> 's \<Rightarrow> (gerr + 'm list) \<times> 's" where
  "runLink send recv [] s = (Inr [], s)"
| "runLink send recv (Put m # xs) s = (case send m s of (Some e, s1) \<Rightarrow> (Inl e, s1) | (None, s1) \<Rightarrow> runLink send recv xs s1)"
| "runLink send recv (Take # xs) s =
     (case recv s of
        (Inl e, s1) \<Rightarrow> (Inl e, s1)
      | (Inr m, s1) \<Rightarrow> (case runLink send recv xs s1 of (Inl e, s2) \<Rightarrow> (Inl e, s2) | (Inr out, s2) \<Rightarrow> (Inr (m # out), s2)))"

text \<open>The queue: what has been taken and what is left, unless a receive finds it empty.\<close>

fun fifoSpec :: "'m linkAct list \<Rightarrow> 'm list \<Rightarrow> ('m list \<times> 'm list) option" where
  "fifoSpec [] q = Some ([], q)"
| "fifoSpec (Put m # xs) q = fifoSpec xs (q @ [m])"
| "fifoSpec (Take # xs) q = (case q of [] \<Rightarrow> None | m # q' \<Rightarrow> map_option (apfst ((#) m)) (fifoSpec xs q'))"

lemma fifoSpec_puts: "fifoSpec xs q = Some (out, q') \<Longrightarrow> q @ puts xs = out @ q'"
  by (induction xs q arbitrary: out rule: fifoSpec.induct) (auto split: list.splits)

locale fifo_link =
  fixes send :: "'m \<Rightarrow> 's \<Rightarrow> gerr option \<times> 's"
    and recv :: "'s \<Rightarrow> (gerr + 'm) \<times> 's"
    and ok :: "'m \<Rightarrow> bool"
    and holds :: "nat \<Rightarrow> 'm list \<Rightarrow> 's \<Rightarrow> bool"
  assumes send_ok: "holds (Suc n) q s \<Longrightarrow> ok m \<Longrightarrow> \<exists>s'. send m s = (None, s') \<and> holds n (q @ [m]) s'"
    and recv_ok: "holds n (m # q) s \<Longrightarrow> \<exists>s'. recv s = (Inr m, s') \<and> holds n q s'"
begin

lemma run_refines:
  assumes "holds (length (puts xs) + n) q s" and "list_all ok (puts xs)" and "fifoSpec xs q = Some (out, q')"
  shows "\<exists>s'. runLink send recv xs s = (Inr out, s') \<and> holds n q' s'"
  using assms
proof (induction xs q arbitrary: s out rule: fifoSpec.induct)
  case (2 m xs q)
  then obtain s1 where s1: "send m s = (None, s1)" "holds (length (puts xs) + n) (q @ [m]) s1" using send_ok[of "length (puts xs) + n" q s m] by auto
  with 2 show ?case by simp
next
  case (3 xs q)
  then obtain m q1 out1 where q: "q = m # q1" "fifoSpec xs q1 = Some (out1, q')" "out = m # out1" by (auto split: list.splits)
  with 3(2) obtain s1 where s1: "recv s = (Inr m, s1)" "holds (length (puts xs) + n) q1 s1" using recv_ok[of "length (puts xs) + n" m q1 s] by auto
  with 3(1)[OF q(1) s1(2) _ q(2)] 3(3) obtain s' where "runLink send recv xs s1 = (Inr out1, s')" "holds n q' s'" by auto
  with s1(1) q(3) show ?case by simp
qed simp

end

end
