(* ===== verification/WsRead.thy ===== *)
theory WsRead
  imports ConnLink WsAgent FifoLink
begin

text \<open>
  The reads of \<open>internal/websocket/ws.go\<close> on a connection: \<open>Reader\<close>, the type of the message, and the decoder of WRP messages on the
  reader of the connection. The decoder is an argument: given the bytes it has, it asks for more, up to a number, or is done. It
  stops behind the value it decodes, and the loop goes on with the next \<open>Reader\<close>, although the connection asks for every message to be
  read to its end.
\<close>

type_synonym decoder = "bytes \<Rightarrow> nat + gerr + message"

function decodeFrom :: "decoder \<Rightarrow> bytes \<Rightarrow> conn \<Rightarrow> (gerr + message) \<times> conn" where
  "decodeFrom dec acc c =
     (case dec acc of
        Inr r \<Rightarrow> (r, c)
      | Inl n \<Rightarrow> (case mrRead (Suc n) c of (Inl e, c1) \<Rightarrow> (Inl e, c1) | (Inr b, c1) \<Rightarrow> decodeFrom dec (acc @ b) c1))"
  by pat_completeness auto
termination
  by (relation "measure (\<lambda>(dec, acc, c). length (cIn c))") (auto dest: mrRead_shorter[OF _ sym, rotated])

declare decodeFrom.simps [simp del]

definition wsRead :: "decoder \<Rightarrow> conn \<Rightarrow> readOutcome \<times> conn" where
  "wsRead dec c =
     (case reader c of
        (Inl e, c1) \<Rightarrow> (RErr e, c1)
      | (Inr typ, c1) \<Rightarrow>
          if typ \<noteq> MessageBinary then (RText, c1) else (case decodeFrom dec [] c1 of (r, c2) \<Rightarrow> (RBinary r, c2)))"

text \<open>The decoder on the encoding \<open>v\<close> of \<open>m\<close>: it asks for more before the end and is done there; \<open>exact\<close>: it never asks for bytes behind it.\<close>

definition stops :: "decoder \<Rightarrow> bytes \<Rightarrow> message \<Rightarrow> bool" where
  "stops dec v m \<longleftrightarrow> dec v = Inr (Inr m) \<and> (\<forall>k < length v. \<exists>n. dec (take k v) = Inl n)"

definition exact :: "decoder \<Rightarrow> bytes \<Rightarrow> bool" where
  "exact dec v \<longleftrightarrow> (\<forall>k < length v. \<forall>n. dec (take k v) = Inl n \<longrightarrow> k + Suc n \<le> length v)"

lemma mrRead_payload:
  assumes "positioned c q items rest" and "q \<noteq> []" and "connOK c" and "withinLimit c (length q)" and "0 < n"
  shows "\<exists>j c'. mrRead n c = (Inr (take j q), c') \<and> 0 < j \<and> j \<le> n \<and> positioned c' (drop j q) items rest \<and> served [] c c'
    \<and> withinLimit c' (length (drop j q))"
proof -
  define j where "j = (if lrN c < 0 then n else min n (nat (lrN c)))"
  have j: "0 < j" "j \<le> n" "lrN c \<noteq> 0" using assms(4,5) by (auto simp: j_def withinLimit_def)
  from msgRead_payload[OF assms(1-3), of j] obtain c1 where
    m: "msgRead j c = (Inr (take j q), c1)" "positioned c1 (drop j q) items rest" "served [] c c1" "lrN c1 = lrN c" by blast
  define c' where "c' = (if lrN c < 0 then c1 else c1\<lparr>lrN := max 0 (lrN c1 - int (length (take j q)))\<rparr>)"
  have "\<not> cClosed c" using assms(3) by (simp add: connOK_def)
  then have "mrRead n c = (Inr (take j q), c')" using j(3) m(1) by (auto simp: mrRead_def limitRead_def j_def c'_def)
  moreover have "positioned c' (drop j q) items rest" "served [] c c'" using m(2,3) by (auto simp: c'_def)
  moreover have "withinLimit c' (length (drop j q))" using assms(4) m(4) by (auto simp: withinLimit_def c'_def)
  ultimately show ?thesis using j(1,2) by blast
qed

text \<open>Inside a frame that holds the rest of the value, and perhaps more.\<close>

lemma decodeFrom_frame:
  assumes "stops dec v m" and "x = [] \<or> exact dec v" and "positioned c (q @ x) items rest" and "connOK c" and "withinLimit c (length (q @ x))"
    and "v = acc @ q"
  shows "\<exists>c'. decodeFrom dec acc c = (Inr m, c') \<and> positioned c' x items rest \<and> served [] c c'"
  using assms(3-)
proof (induction "length q" arbitrary: c q acc rule: less_induct)
  case less
  show ?case
  proof (cases "q = []")
    case True
    with assms(1) less.prems show ?thesis by (subst decodeFrom.simps) (simp add: stops_def served_refl)
  next
    case False
    have k: "length acc < length v" "take (length acc) v = acc" using False less.prems(4) by auto
    with assms(1) obtain n where n: "dec acc = Inl n" unfolding stops_def by metis
    from mrRead_payload[OF less.prems(1) _ less.prems(2,3), of "Suc n"] False obtain j c1 where
      r: "mrRead (Suc n) c = (Inr (take j (q @ x)), c1)" "0 < j" "j \<le> Suc n" "positioned c1 (drop j (q @ x)) items rest" "served [] c c1"
        "withinLimit c1 (length (drop j (q @ x)))" by auto
    have "x = [] \<or> j \<le> length q" using assms(2) k n r(3) less.prems(4) unfolding exact_def by fastforce
    then have j: "take j (q @ x) = take j q" "drop j (q @ x) = drop j q @ x" by auto
    have "length (drop j q) < length q" "v = (acc @ take j q) @ drop j q" "connOK c1"
      using False r(2,5) less.prems(4) by (auto simp: served_def)
    from less.hyps[OF this(1) _ this(3) _ this(2)] r(4,6) obtain c' where
      c': "decodeFrom dec (acc @ take j q) c1 = (Inr m, c')" "positioned c' x items rest" "served [] c1 c'" unfolding j by blast
    have "decodeFrom dec acc c = decodeFrom dec (acc @ take j q) c1" using n r(1)[unfolded j(1)] by (subst decodeFrom.simps) simp
    with c' served_trans[OF r(5) c'(3)] show ?thesis by auto
  qed
qed

text \<open>The first frame of a binary message, whatever the connection has left of the one before.\<close>

lemma reader_frame:
  assumes "connOK c" and "mrFin c" and "length p < 2 ^ 63" and "list_all itemOK items" and "items \<noteq> [] \<longrightarrow> isPart (last items)"
    and "keysFor items c" and "cIn c = peerFrame (cClient c) (items = []) opBinary p k @ wireBytes (cClient c) opContinuation items @ rest"
  shows "\<exists>c'. reader c = (Inr opBinary, c') \<and> positioned c' p items rest \<and> connOK c' \<and> lrN c' = lrLimit c \<and> served [] c c'"
proof -
  let ?h = "frameHeader (\<not> cClient c) (items = []) opBinary (length p) (peerKey c k)"
  let ?r = "wireBytes (cClient c) opContinuation items @ rest"
  have rl: "readLoop c = (Inr ?h, c\<lparr>cIn := (if cClient c then p else fst (mask_frame k p)) @ ?r\<rparr>)"
    by (rule readLoop_data) (use assms(1,3,7) in \<open>auto simp: connOK_def\<close>)
  have "list_ex isPart items = (items \<noteq> [])" using assms(5) by (cases items rule: rev_cases) auto
  then have "positioned (mrReset ?h (c\<lparr>cIn := (if cClient c then p else fst (mask_frame k p)) @ ?r\<rparr>)) p items rest"
    using assms(4,5) by (auto simp: positioned_def mrReset_def setFrame_def frameHeader_def)
  moreover have "reader c = (Inr opBinary, mrReset ?h (c\<lparr>cIn := (if cClient c then p else fst (mask_frame k p)) @ ?r\<rparr>))"
    using assms(1,2) rl by (auto simp: reader_def connOK_def frameHeader_def opcode_defs Let_def)
  ultimately show ?thesis using assms(1) by (auto simp: mrReset_def setFrame_def connOK_def served_def)
qed

lemma MessageBinary_op [simp]: "MessageBinary = opBinary"
  by (simp add: MessageBinary_def opcode_defs)

lemma wsRead_first:
  assumes "connOK c" and "mrFin c" and "length (v @ x) < 2 ^ 63" and "list_all itemOK items" and "items \<noteq> [] \<longrightarrow> isPart (last items)"
    and "keysFor items c" and "cIn c = peerFrame (cClient c) (items = []) opBinary (v @ x) k @ wireBytes (cClient c) opContinuation items @ rest"
    and "stops dec v m" and "x = [] \<or> exact dec v" and "lrLimit c < 0 \<or> int (length (v @ x)) < lrLimit c"
  shows "\<exists>c'. wsRead dec c = (RBinary (Inr m), c') \<and> positioned c' x items rest \<and> served [] c c'"
proof -
  from reader_frame[OF assms(1-7)] obtain c1 where
    r: "reader c = (Inr opBinary, c1)" "positioned c1 (v @ x) items rest" "connOK c1" "lrN c1 = lrLimit c" "served [] c c1" by blast
  have "withinLimit c1 (length (v @ x))" using assms(10) r(4) by (simp add: withinLimit_def)
  from decodeFrom_frame[OF assms(8,9) r(2,3) this] obtain c' where
    c': "decodeFrom dec [] c1 = (Inr m, c')" "positioned c' x items rest" "served [] c1 c'" by auto
  with r(1) served_trans[OF r(5) c'(3)] show ?thesis by (auto simp: wsRead_def)
qed


subsection \<open>Messages in one frame\<close>

lemma wsRead_whole:
  assumes "idle c" and "length v < 2 ^ 63" and "stops dec v m" and "lrLimit c < 0 \<or> int (length v) < lrLimit c"
    and "cIn c = peerFrame (cClient c) True opBinary v k @ rest"
  shows "\<exists>c'. wsRead dec c = (RBinary (Inr m), c') \<and> idle c' \<and> cIn c' = rest \<and> served [] c c'"
proof -
  have "\<exists>c'. wsRead dec c = (RBinary (Inr m), c') \<and> positioned c' [] [] rest \<and> served [] c c'"
    by (rule wsRead_first) (use assms in \<open>auto simp: idle_def keysFor_def\<close>)
  then show ?thesis by (auto simp: positioned_def idle_def served_def)
qed

subsection \<open>Messages that are not read to their end\<close>

text \<open>
  C23: A message that ends with an empty frame costs the connection. When a binary message comes as a frame with its value and an empty last
  frame, as the message writer of this very library sends it, the message is delivered, but the decoder has not read the last frame: the
  next read fails, whatever has been sent, and the connection is closed.
\<close>

theorem streamed_message_costs_connection:
  assumes "idle c" and "length v < 2 ^ 63" and "stops dec v m" and "lrLimit c < 0 \<or> int (length v) < lrLimit c"
    and "cIn c = peerFrame (cClient c) False opBinary v k @ peerFrame (cClient c) True opContinuation [] k' @ rest"
  shows "\<exists>c' e c''. wsRead dec c = (RBinary (Inr m), c') \<and> wsRead dec c' = (RErr e, c'') \<and> cClosed c''"
proof -
  have "\<exists>c'. wsRead dec c = (RBinary (Inr m), c') \<and> positioned c' [] [Part [] k'] rest \<and> served [] c c'"
    by (rule wsRead_first) (use assms in \<open>auto simp: idle_def keysFor_def\<close>)
  then obtain c' where c': "wsRead dec c = (RBinary (Inr m), c')" "\<not> mrFin c'" "connOK c'" by (auto simp: positioned_def served_def)
  then show ?thesis by (auto simp: wsRead_def reader_def connOK_def closeConn_def Let_def)
qed

text \<open>
  What a decoder leaves of a frame is taken for frames. When the payload of one binary frame is a value followed by the bytes of
  another frame, an agent whose decoder reads no further than the value delivers two messages for one, where the connection promises
  a reader of the rest that it \<open>will hang\<close>.
\<close>

theorem unread_payload_is_parsed:
  assumes "idle c" and "cClient c" and "stops dec v1 m1" "exact dec v1" and "stops dec v2 m2"
    and "length (v1 @ peerFrame True True opBinary v2 k') < 2 ^ 63"
    and "lrLimit c < 0 \<or> int (length (v1 @ peerFrame True True opBinary v2 k')) < lrLimit c"
    and "cIn c = peerFrame True True opBinary (v1 @ peerFrame True True opBinary v2 k') k @ rest"
  shows "\<exists>c' c''. wsRead dec c = (RBinary (Inr m1), c') \<and> wsRead dec c' = (RBinary (Inr m2), c'')"
proof -
  let ?f = "peerFrame True True opBinary v2 k'"
  have "\<exists>c'. wsRead dec c = (RBinary (Inr m1), c') \<and> positioned c' ?f [] rest \<and> served [] c c'"
    by (rule wsRead_first) (use assms in \<open>auto simp: idle_def keysFor_def\<close>)
  then obtain c' where c': "wsRead dec c = (RBinary (Inr m1), c')" "positioned c' ?f [] rest" "served [] c c'" by blast
  have p: "connOK c'" "mrFin c'" "cClient c'" "cIn c' = ?f @ rest" "lrLimit c' = lrLimit c" using c'(2,3) assms(2) by (auto simp: positioned_def served_def)
  have len: "length v2 \<le> length ?f" by (auto simp: peerFrame_def frameBytes_def)
  have "\<exists>c''. wsRead dec c' = (RBinary (Inr m2), c'') \<and> positioned c'' [] [] rest \<and> served [] c' c''"
    by (rule wsRead_first[where k = k']) (use p assms(5-7) len in \<open>auto simp: keysFor_def\<close>)
  with c'(1) show ?thesis by blast
qed

text \<open>A decoder of values of two bytes, for the witnesses.\<close>

definition twoBytes :: decoder where
  "twoBytes b = (if length b < 2 then Inl (1 - length b) else Inr (Inr (empty_message\<lparr>mPayload := b\<rparr>)))"

lemma twoBytes_stops: "stops twoBytes [a, b] (empty_message\<lparr>mPayload := [a, b]\<rparr>)" "exact twoBytes [a, b]"
  by (auto simp: stops_def exact_def twoBytes_def)

theorem streamed_message_costs_connection_witness:
  "\<exists>c' e c''. wsRead twoBytes (exampleConn (peerFrame True False opBinary [1, 2] 0 @ peerFrame True True opContinuation [] 0 @ []))
       = (RBinary (Inr (empty_message\<lparr>mPayload := [1, 2]\<rparr>)), c') \<and> wsRead twoBytes c' = (RErr e, c'') \<and> cClosed c''"
  by (rule streamed_message_costs_connection[OF exampleConn_idle _ twoBytes_stops(1)]) (auto simp: exampleConn_def newConn_def defaultReadLimit_def)

theorem unread_payload_is_parsed_witness:
  "\<exists>c' c''. wsRead twoBytes (exampleConn (peerFrame True True opBinary ([1, 2] @ peerFrame True True opBinary [3, 4] 0) 0 @ []))
       = (RBinary (Inr (empty_message\<lparr>mPayload := [1, 2]\<rparr>)), c') \<and> wsRead twoBytes c' = (RBinary (Inr (empty_message\<lparr>mPayload := [3, 4]\<rparr>)), c'')"
proof -
  have "length (peerFrame True True opBinary [3, 4] 0) = 4" by code_simp
  then show ?thesis
    by (intro unread_payload_is_parsed[OF exampleConn_idle _ twoBytes_stops twoBytes_stops(1)]) (auto simp: exampleConn_def newConn_def defaultReadLimit_def)
qed

subsection \<open>A link for WRP messages\<close>

text \<open>\<open>Send\<close> on a connection, and what its other end reads.\<close>

definition Send_conn :: "(message \<Rightarrow> bytes) \<Rightarrow> message \<Rightarrow> conn \<Rightarrow> gerr option \<times> conn" where
  "Send_conn enc msg c = Write_conn MessageBinary (enc msg) c"

definition sendWrp :: "(message \<Rightarrow> bytes) \<Rightarrow> message \<Rightarrow> conn \<times> conn \<Rightarrow> gerr option \<times> conn \<times> conn" where
  "sendWrp enc m s = (case s of (w, r) \<Rightarrow> (case Send_conn enc m w of (err, w') \<Rightarrow> (err, w', deliver w w' r)))"

definition readWrp :: "decoder \<Rightarrow> conn \<times> conn \<Rightarrow> (gerr + message) \<times> conn \<times> conn" where
  "readWrp dec s =
     (case s of (w, r) \<Rightarrow>
        (case wsRead dec r of
           (RBinary x, r') \<Rightarrow> (x, w, r')
         | (RErr e, r') \<Rightarrow> (Inl e, w, r')
         | (RText, r') \<Rightarrow> (Inl ErrInvalidMsgType, w, r')
         | (RCancelled, r') \<Rightarrow> (Inl DeadlineExceeded, w, r')))"

text \<open>The wire form of messages sent whole, with the keys of their frames.\<close>

fun wholeFrames :: "bool \<Rightarrow> (message \<Rightarrow> bytes) \<Rightarrow> message list \<Rightarrow> 32 word list \<Rightarrow> bytes" where
  "wholeFrames client enc [] ks = []"
| "wholeFrames client enc (m # ms) ks = peerFrame client True opBinary (enc m) (List.hd ks) @ wholeFrames client enc ms (tl ks)"

lemma wholeFrames_snoc:
  "\<exists>ks'. wholeFrames client enc (ms @ [m]) ks' = wholeFrames client enc ms ks @ peerFrame client True opBinary (enc m) k"
proof (induction ms arbitrary: ks)
  case Nil
  show ?case by (rule exI[of _ "[k]"]) simp
next
  case (Cons m' ms)
  from Cons.IH[of "tl ks"] obtain ks' where "wholeFrames client enc (ms @ [m]) ks' = wholeFrames client enc ms (tl ks) @ peerFrame client True opBinary (enc m) k"
    by blast
  then show ?case by (intro exI[of _ "List.hd ks # ks'"]) simp
qed

text \<open>The messages a codec can carry over a connection with a read limit, and the link that holds messages.\<close>

definition carries :: "(message \<Rightarrow> bytes) \<Rightarrow> decoder \<Rightarrow> int \<Rightarrow> message \<Rightarrow> bool" where
  "carries enc dec lim m \<longleftrightarrow> stops dec (enc m) m \<and> length (enc m) < 2 ^ 63 \<and> (lim < 0 \<or> int (length (enc m)) < lim)"

definition holdsWrp :: "(message \<Rightarrow> bytes) \<Rightarrow> decoder \<Rightarrow> int \<Rightarrow> nat \<Rightarrow> message list \<Rightarrow> conn \<times> conn \<Rightarrow> bool" where
  "holdsWrp enc dec lim n q s \<longleftrightarrow> (case s of (w, r) \<Rightarrow> drained w \<and> canWrite n w \<and> idle r \<and> cClient r = (\<not> cClient w) \<and> lrLimit r = lim
     \<and> list_all (carries enc dec lim) q \<and> (\<exists>ks. cIn r = wholeFrames (cClient r) enc q ks))"

lemma sendWrp_ok:
  assumes "holdsWrp enc dec lim (Suc n) q s" and "carries enc dec lim m"
  shows "\<exists>s'. sendWrp enc m s = (None, s') \<and> holdsWrp enc dec lim n (q @ [m]) s'"
proof -
  obtain w r where s: "s = (w, r)" by (cases s)
  from assms(1) obtain ks where h: "drained w" "canWrite (Suc n) w" "idle r" "cClient r = (\<not> cClient w)" "lrLimit r = lim"
    "list_all (carries enc dec lim) q" "cIn r = wholeFrames (cClient r) enc q ks" unfolding holdsWrp_def s prod.case by blast
  have c1: "canWrite 1 w" using h(2) by (auto simp: canWrite_def)
  from Write_conn_ok[OF h(1) c1, of MessageBinary "enc m"] obtain w1 where
    w1: "Send_conn enc m w = (None, w1)" "drained w1" "cClient w1 = cClient w"
      "bwSent (cBw w1) = bwSent (cBw w) @ wireBytes (\<not> cClient w) opBinary (message [enc m] (writeKeys 1 w))" "cRand w1 = dropKeys 1 w"
    by (auto simp: Send_conn_def)
  obtain k where "writeKeys 1 w = [k]" using length_writeKeys[OF c1] by (cases "writeKeys 1 w") auto
  then have "cIn (deliver w w1 r) = wholeFrames (cClient r) enc q ks @ peerFrame (cClient r) True opBinary (enc m) k"
    using w1(4) h(4,7) by (simp add: deliver_def message_def)
  with wholeFrames_snoc[of "cClient r" enc q m ks k] have "\<exists>ks'. cIn (deliver w w1 r) = wholeFrames (cClient r) enc (q @ [m]) ks'" by metis
  moreover have "canWrite n w1" using canWrite_rest[of 1 n w w1] h(2) w1(3,5) by simp
  ultimately show ?thesis using s h w1(1-3) assms(2) by (auto simp: sendWrp_def holdsWrp_def deliver_def)
qed

lemma readWrp_ok:
  assumes "holdsWrp enc dec lim n (m # q) s"
  shows "\<exists>s'. readWrp dec s = (Inr m, s') \<and> holdsWrp enc dec lim n q s'"
proof -
  obtain w r where s: "s = (w, r)" by (cases s)
  from assms obtain ks where h: "drained w" "canWrite n w" "idle r" "cClient r = (\<not> cClient w)" "lrLimit r = lim" "carries enc dec lim m"
    "list_all (carries enc dec lim) q" "cIn r = peerFrame (cClient r) True opBinary (enc m) (List.hd ks) @ wholeFrames (cClient r) enc q (tl ks)"
    unfolding holdsWrp_def s prod.case list_all_iff list.set wholeFrames.simps by blast
  from wsRead_whole[OF h(3) _ _ _ h(8), of dec m] h(5,6) obtain r1 where
    r1: "wsRead dec r = (RBinary (Inr m), r1)" "idle r1" "cIn r1 = wholeFrames (cClient r) enc q (tl ks)" "served [] r r1" by (auto simp: carries_def)
  have "cClient r1 = cClient r" "lrLimit r1 = lrLimit r" using r1(4) by (simp_all add: served_def)
  moreover from this have "cIn r1 = wholeFrames (cClient r1) enc q (tl ks)" using r1(3) by simp
  ultimately have "holdsWrp enc dec lim n q (w, r1)" unfolding holdsWrp_def prod.case
    using h(1,2,4,5,7) r1(2) by (intro conjI exI) simp_all
  with s r1(1) show ?thesis by (simp add: readWrp_def)
qed

interpretation wrplink: fifo_link "sendWrp enc" "readWrp dec" "carries enc dec lim" "holdsWrp enc dec lim" for enc dec lim
  by unfold_locales (rule sendWrp_ok readWrp_ok; assumption)+

text \<open>The messages of the library itself, sent whole.\<close>

interpretation msglink: fifo_link "\<lambda>m s. case linkStep (SendWhole (fst m) (snd m)) s of (Inl e, s') \<Rightarrow> (Some e, s') | (Inr _, s') \<Rightarrow> (None, s')"
    "\<lambda>s. case Read_conn sz (snd s) of (x, r') \<Rightarrow> (x, fst s, r')" "\<lambda>m. opFits lim (SendWhole (fst m) (snd m))" "\<lambda>n q s. linked lim q s \<and> canWrite n (fst s)"
  for sz lim
proof unfold_locales
  fix n q and s :: "conn \<times> conn" and m
  assume "linked lim q s \<and> canWrite (Suc n) (fst s)" "opFits lim (SendWhole (fst m) (snd m))"
  then show "\<exists>s'. (case linkStep (SendWhole (fst m) (snd m)) s of (Inl e, s') \<Rightarrow> (Some e, s') | (Inr _, s') \<Rightarrow> (None, s')) = (None, s')
      \<and> linked lim (q @ [m]) s' \<and> canWrite n (fst s')"
    using linkStep_whole[of lim q "fst s" "snd s" "fst m" "snd m" n] by (auto simp del: linkStep.simps)
next
  fix n m q and s :: "conn \<times> conn"
  assume "linked lim (m # q) s \<and> canWrite n (fst s)"
  then show "\<exists>s'. (case Read_conn sz (snd s) of (x, r') \<Rightarrow> (x, fst s, r')) = (Inr m, s') \<and> linked lim q s' \<and> canWrite n (fst s')"
    using linked_recv[of lim m q "fst s" "snd s" sz] by auto
qed

end
