(* ===== verification/WsMonitor.thy ===== *)
theory WsMonitor
  imports WsAgent
begin

text \<open>
  The inactivity monitor of \<open>internal/websocket/ws.go\<close>: for every read a goroutine that cancels the context of the read when nothing has been
  heard for the inactivity timeout. The listener for pings, which runs in the reading goroutine, tells it through the channel \<open>activity\<close>. The
  channel is shared by the monitors of all the reads of a connection and has no buffer, so that its length is always 0 and the listener always
  sends, and waits until a monitor receives. Times are those of one clock.
\<close>

datatype cause = CtxLive | CtxDeadline | CtxCanceled

datatype readerAt = InReader | InListener | ReadDone

text \<open>\<open>mnReset\<close> is when the timer of the current monitor was started, \<open>mnOld\<close> how many monitors of earlier reads have not yet seen that
  their context has ended, and \<open>mnPings\<close> when pings were heard during the current read.\<close>

record monitor =
  mnNow :: int
  mnReset :: int
  mnAlive :: bool
  mnOld :: nat
  mnCause :: cause
  mnReader :: readerAt
  mnPings :: "int list"

definition monitorStart :: "int \<Rightarrow> monitor" where
  "monitorStart t = \<lparr>mnNow = t, mnReset = t, mnAlive = True, mnOld = 0, mnCause = CtxLive, mnReader = InReader, mnPings = []\<rparr>"

text \<open>The ping listener up to the send, and the next read with its monitor.\<close>

definition hearPing :: "monitor \<Rightarrow> monitor" where
  "hearPing s = (if mnCause s \<noteq> CtxLive then s else s\<lparr>mnReader := InListener, mnPings := mnPings s @ [mnNow s]\<rparr>)"

definition nextRead :: "monitor \<Rightarrow> monitor" where
  "nextRead s =
     s\<lparr>mnReset := mnNow s, mnAlive := True, mnOld := (if mnAlive s then Suc (mnOld s) else mnOld s), mnCause := CtxLive, mnReader := InReader,
       mnPings := []\<rparr>"

inductive mnStep :: "int \<Rightarrow> monitor \<Rightarrow> monitor \<Rightarrow> bool" for T where
  Tick: "0 < d \<Longrightarrow> mnStep T s (s\<lparr>mnNow := mnNow s + d\<rparr>)"
| Ping: "mnReader s = InReader \<Longrightarrow> mnStep T s (hearPing s)"
| Taken: "mnReader s = InListener \<Longrightarrow> mnAlive s \<Longrightarrow> mnStep T s (s\<lparr>mnReset := mnNow s, mnReader := InReader\<rparr>)"
| TakenByOld: "mnReader s = InListener \<Longrightarrow> 0 < mnOld s \<Longrightarrow> mnStep T s (s\<lparr>mnReader := InReader\<rparr>)"
| OldEnds: "0 < mnOld s \<Longrightarrow> mnStep T s (s\<lparr>mnOld := mnOld s - 1\<rparr>)"
| Fires: "mnAlive s \<Longrightarrow> mnReset s + T \<le> mnNow s \<Longrightarrow>
    mnStep T s (s\<lparr>mnAlive := False, mnCause := (if mnCause s = CtxLive then CtxDeadline else mnCause s)\<rparr>)"
| Ends: "mnAlive s \<Longrightarrow> mnCause s \<noteq> CtxLive \<Longrightarrow> mnStep T s (s\<lparr>mnAlive := False\<rparr>)"
| Parent: "mnCause s = CtxLive \<Longrightarrow> mnStep T s (s\<lparr>mnCause := CtxCanceled\<rparr>)"
| Returns: "mnReader s = InReader \<Longrightarrow> mnStep T s (s\<lparr>mnReader := ReadDone\<rparr>)"
| NextRead: "mnReader s = ReadDone \<Longrightarrow> mnCause s = CtxLive \<Longrightarrow> mnStep T s (nextRead s)"

inductive_cases mnStepE: "mnStep T s s'"

subsection \<open>When the monitor is right\<close>

text \<open>As long as no monitor of an earlier read can receive, every ping of the read has restarted the timer.\<close>

definition mnInv :: "int \<Rightarrow> monitor \<Rightarrow> bool" where
  "mnInv T s \<longleftrightarrow> mnReset s \<le> mnNow s \<and> (\<forall>p\<in>set (mnPings s). p \<le> mnNow s) \<and>
     (mnCause s = CtxDeadline \<longrightarrow> mnReset s + T \<le> mnNow s \<and> \<not> mnAlive s) \<and>
     (mnReader s \<noteq> InListener \<longrightarrow> (\<forall>p\<in>set (mnPings s). p \<le> mnReset s))"

text \<open>The steps of one read, in which no monitor of an earlier one receives.\<close>

definition ownStep :: "int \<Rightarrow> monitor \<Rightarrow> monitor \<Rightarrow> bool" where
  "ownStep T s s' \<longleftrightarrow> mnStep T s s' \<and> mnOld s = 0"

lemma ownStep_inv: "ownStep T s s' \<Longrightarrow> mnInv T s \<Longrightarrow> mnInv T s'"
  unfolding ownStep_def
  by (elim conjE mnStepE) (auto simp: mnInv_def hearPing_def nextRead_def)

lemma ownSteps_inv: "(ownStep T)\<^sup>*\<^sup>* (monitorStart t) s \<Longrightarrow> mnInv T s"
proof (induction rule: rtranclp_induct)
  case base
  show ?case by (simp add: mnInv_def monitorStart_def)
qed (rule ownStep_inv)


lemma own: "mnStep T s s' \<Longrightarrow> mnOld s = 0 \<Longrightarrow> ownStep T s s'"
  by (simp add: ownStep_def)

definition timedOut :: monitor where
  "timedOut = \<lparr>mnNow = 60, mnReset = 0, mnAlive = False, mnOld = 0, mnCause = CtxDeadline, mnReader = InReader, mnPings = []\<rparr>"

lemma timedOut_reached: "(ownStep 60)\<^sup>*\<^sup>* (monitorStart 0) timedOut"
proof -
  have "ownStep 60 (monitorStart 0) (monitorStart 0\<lparr>mnNow := 60\<rparr>)"
    using mnStep.Tick[of 60 60 "monitorStart 0"] by (simp add: own monitorStart_def)
  moreover have "ownStep 60 (monitorStart 0\<lparr>mnNow := 60\<rparr>) timedOut"
    using mnStep.Fires[of "monitorStart 0\<lparr>mnNow := 60\<rparr>" 60] by (simp add: own monitorStart_def timedOut_def)
  ultimately show ?thesis by auto
qed


subsection \<open>The race\<close>

definition listenerStuck :: "monitor \<Rightarrow> bool" where
  "listenerStuck s \<longleftrightarrow> mnReader s = InListener \<and> \<not> mnAlive s \<and> mnOld s = 0"

lemma listenerStuck_step: "mnStep T s s' \<Longrightarrow> listenerStuck s \<Longrightarrow> listenerStuck s'"
  by (elim mnStepE) (auto simp: listenerStuck_def)

lemma listenerStuck_steps: "(mnStep T)\<^sup>*\<^sup>* s s' \<Longrightarrow> listenerStuck s \<Longrightarrow> listenerStuck s'"
  by (induction rule: rtranclp_induct) (auto intro: listenerStuck_step)

definition raced :: "int \<Rightarrow> int \<Rightarrow> monitor" where
  "raced T t = \<lparr>mnNow = t + T, mnReset = t, mnAlive = False, mnOld = 0, mnCause = CtxDeadline, mnReader = InListener, mnPings = [t + T]\<rparr>"

lemma raced_reached:
  assumes "0 < T"
  shows "(mnStep T)\<^sup>*\<^sup>* (monitorStart t) (raced T t)"
proof -
  let ?s1 = "monitorStart t\<lparr>mnNow := t + T\<rparr>"
  let ?s2 = "?s1\<lparr>mnReader := InListener, mnPings := [t + T]\<rparr>"
  have "mnStep T (monitorStart t) ?s1" using mnStep.Tick[OF assms, of T "monitorStart t"] by (simp add: monitorStart_def)
  moreover have "mnStep T ?s1 ?s2" using mnStep.Ping[of ?s1 T] by (simp add: monitorStart_def hearPing_def)
  moreover have "mnStep T ?s2 (raced T t)" using mnStep.Fires[of ?s2 T] by (simp add: monitorStart_def raced_def)
  ultimately show ?thesis by (meson converse_rtranclp_into_rtranclp rtranclp.rtrancl_refl)
qed

text \<open>
  C21: A ping that arrives as the monitor fires stops the agent for good. From the start of a read, for every timeout, a state can be reached in
  which the listener waits to send and no monitor is left to receive; whatever happens then, the read never returns: the agent neither reads nor
  reconnects, and \<open>Stop\<close> waits for it for ever.
\<close>

theorem ping_race_deadlocks:
  assumes "0 < T"
  shows "\<exists>s. (mnStep T)\<^sup>*\<^sup>* (monitorStart t) s \<and> mnCause s = CtxDeadline \<and> (\<forall>s'. (mnStep T)\<^sup>*\<^sup>* s s' \<longrightarrow> mnReader s' = InListener)"
proof (intro exI conjI allI impI)
  show "(mnStep T)\<^sup>*\<^sup>* (monitorStart t) (raced T t)" by (rule raced_reached[OF assms])
  fix s'
  assume "(mnStep T)\<^sup>*\<^sup>* (raced T t) s'"
  then have "listenerStuck s'" by (rule listenerStuck_steps) (simp add: listenerStuck_def raced_def)
  then show "mnReader s' = InListener" by (simp add: listenerStuck_def)
qed (simp add: raced_def)

theorem ping_race_deadlocks_witness:
  "\<exists>s. (mnStep 60)\<^sup>*\<^sup>* (monitorStart 0) s \<and> mnCause s = CtxDeadline \<and> (\<forall>s'. (mnStep 60)\<^sup>*\<^sup>* s s' \<longrightarrow> mnReader s' = InListener)"
  by (rule ping_race_deadlocks) simp

text \<open>
  A monitor of an earlier read that has not yet run may take the news of a ping: then the current one counts the connection as inactive
  although a ping was heard within the timeout.
\<close>

theorem activity_lost:
  assumes "1 < T"
  shows "\<exists>s. (mnStep T)\<^sup>*\<^sup>* (monitorStart t) s \<and> mnCause s = CtxDeadline \<and> mnReader s \<noteq> InListener \<and> (\<exists>p\<in>set (mnPings s). mnNow s < p + T)"
proof -
  define s1 where "s1 = nextRead (monitorStart t\<lparr>mnReader := ReadDone\<rparr>)"
  define s2 where "s2 = s1\<lparr>mnNow := t + 1\<rparr>"
  define s3 where "s3 = s2\<lparr>mnReader := InListener, mnPings := [t + 1]\<rparr>"
  define s4 where "s4 = s3\<lparr>mnReader := InReader\<rparr>"
  define s5 where "s5 = s4\<lparr>mnNow := t + T\<rparr>"
  define s6 where "s6 = s5\<lparr>mnAlive := False, mnCause := CtxDeadline\<rparr>"
  note defs = s1_def s2_def s3_def s4_def s5_def s6_def nextRead_def monitorStart_def hearPing_def
  have "(mnStep T)\<^sup>*\<^sup>* (monitorStart t) s1"
    using mnStep.Returns[of "monitorStart t" T] mnStep.NextRead[of "monitorStart t\<lparr>mnReader := ReadDone\<rparr>" T]
    unfolding s1_def by (auto simp: monitorStart_def intro: converse_rtranclp_into_rtranclp)
  moreover have "mnStep T s1 s2" using mnStep.Tick[of 1 T s1] by (simp add: defs)
  moreover have "mnStep T s2 s3" using mnStep.Ping[of s2 T] by (simp add: defs)
  moreover have "mnStep T s3 s4" using mnStep.TakenByOld[of s3 T] by (simp add: defs)
  moreover have "mnStep T s4 s5" using mnStep.Tick[of "T - 1" T s4] assms by (simp add: defs)
  moreover have "mnStep T s5 s6" using mnStep.Fires[of s5 T] by (simp add: defs)
  ultimately have "(mnStep T)\<^sup>*\<^sup>* (monitorStart t) s6" by (meson rtranclp.rtrancl_into_rtrancl)
  moreover have "mnCause s6 = CtxDeadline" "mnReader s6 = InReader" "mnPings s6 = [t + 1]" "mnNow s6 = t + T" by (simp_all add: defs)
  ultimately show ?thesis using assms by (intro exI[of _ s6]) simp
qed

theorem activity_lost_witness:
  "\<exists>s. (mnStep 60)\<^sup>*\<^sup>* (monitorStart 0) s \<and> mnCause s = CtxDeadline \<and> mnReader s \<noteq> InListener \<and> (\<exists>p\<in>set (mnPings s). mnNow s < p + 60)"
  by (rule activity_lost) simp

end
