(* ===== verification/Spec2Isabelle.thy ===== *)
theory Spec2Isabelle
  imports QosService Handlers PubSub MockTr181 Frame CloseFrame Fs Credentials WsAgent Libparodus Jwtxt Net Metadata ConnLink Handshake Agent
    ConnFlate NetConn Configuration LibparodusStart Listeners WsJson WsJs WsRead WsMonitor
begin

text \<open>
  \<^bold>\<open>xmidt-agent, a model and its properties.\<close>

  The agent runs on a device and keeps one websocket to the cloud. What it carries are WRP messages (\<open>wrp-go\<close>). A message from the cloud
  passes through the logging, authorisation and missing-service handlers into a publish-subscribe table, whose listeners are the
  services on the device: the handler of the agent's own log level, the mock TR-181 data model, and the external processes that
  the libparodus adapter reaches over nanomsg sockets. A message from a service goes the other way, through the QOS handler, which
  queues it by importance and hands it to the websocket. Around this core lie the credentials that authenticate the connection,
  the JWT instructions that redirect it, the network and metadata facts it reports, the file system its state is kept in, the
  configuration, and the program that puts all of it together. The websocket library itself, with both sides of the handshake,
  is part of the repository.

  \<^bold>\<open>How code is translated.\<close> A struct is a record, an enumeration or a tagged value a datatype, a package a theory, and an
  operation a function that returns its result and the changed state. An error is a value of \<open>gerr\<close>; a call that blocks for ever
  or panics is \<open>None\<close>. A goroutine is a step function or an inductive step relation over the events of its \<open>select\<close>, and what holds
  of it is shown for every reachable state, so for every order of the events. Integers keep their width where the code computes
  with bits (frame headers, masking keys, sizes of frames); sizes of queues and clocks are unbounded. Code that is not part of
  the repository is an argument of the definitions that use it: the WRP codec and locators, \<open>eventor\<close>, \<open>jwx\<close>, the nanomsg sockets,
  \<open>goschtalt\<close>, \<open>zap\<close>, \<open>net/http\<close>, \<open>encoding/json\<close>, \<open>compress/flate\<close>, the browser, the resolver and the clock. What the code relies
  on is a named hypothesis (\<open>flateLaws\<close>, \<open>stops\<close>, \<open>sort_func\<close>, \<open>subscription_table\<close>), and each of them is met by a concrete function.

  \<^bold>\<open>Foundations.\<close>
  \<^item> \<open>Prelude\<close>: errors, bytes, strings, channels, option lists, the shared lemmas. \<open>Wrp\<close>: messages and handlers (\<open>internal/wrpkit\<close>).
  \<^item> \<open>GoHeap\<close>, \<open>GoSort\<close>, \<open>GoBufio\<close>, \<open>HttpHeader\<close>: what the program uses of \<open>container/heap\<close>, \<open>slices\<close>, \<open>bufio.Writer\<close> and \<open>http.Header\<close>.
    The locale \<open>heap_order\<close> holds the heap lemmas for a total preorder, \<open>sort_func\<close> those for a sorting function, \<open>byte_sink\<close> those for a
    writer that only appends.
  \<^item> \<open>FifoLink\<close>: the locale \<open>fifo_link\<close> of a link that carries messages, and that any schedule of sends and reads on it is a queue.

  \<^bold>\<open>The messages of the device.\<close>
  \<^item> \<open>QosQueue\<close> (\<open>internal/wrphandlers/qos/priority.go\<close>, \<open>priority_queue.go\<close>): the queue, its heap order for both tie breakers
    (\<open>tie_breaker\<close>, a \<open>heap_order\<close> twice), trimming by expiry and importance, the budget and the order of delivery.
  \<^item> \<open>QosService\<close> (\<open>qos.go\<close>, \<open>options.go\<close>): options, life cycle, and the service goroutine with its retries; \<open>message_queue\<close> states what it
    needs of a queue and \<open>qosq\<close> shows that the priority queue gives it.
  \<^item> \<open>Handlers\<close> (\<open>auth\<close>, \<open>missing\<close>, \<open>logging\<close>, \<open>xmidt_agent_crud\<close>, \<open>internal/loglevel\<close>): the stateless handlers; \<open>responder\<close> is the contract of a
    handler that answers requests, interpreted for three of them.
  \<^item> \<open>PubSub\<close> (\<open>internal/pubsub\<close>): subscriptions (\<open>subscription_table\<close>) and one publication with all its goroutines as a step function.
  \<^item> \<open>MockTr181\<close> (\<open>mocktr181\<close>): get and set over the parameter list. \<open>Libparodus\<close> and \<open>LibparodusStart\<close> (\<open>internal/adapters/libparodus\<close>): the
    services, their keepalives, the receive loop, and how \<open>Start\<close> and \<open>Stop\<close> meet the receiver.

  \<^bold>\<open>The websocket library\<close> (\<open>internal/nhooyr.io/websocket\<close>).
  \<^item> \<open>Frame\<close> (\<open>frame.go\<close>), \<open>CloseFrame\<close> (\<open>close.go\<close>): header codec, masking against its bytewise definition, close payloads, each with
    its round trip.
  \<^item> \<open>Conn\<close> (\<open>conn.go\<close>, \<open>read.go\<close>, \<open>write.go\<close>, \<open>close.go\<close>): one goroutine's calls on a connection. \<open>ConnMessages\<close>: whole messages, in any
    fragmentation and among any control frames. \<open>ConnLink\<close>: two connections back to back refine a queue; read limit, closing handshake,
    termination.
  \<^item> \<open>ConnSync\<close>: the same connection under several goroutines, the mutex and the timeout loop. \<open>Compress\<close>, \<open>ConnFlate\<close> (\<open>compress.go\<close> and
    its uses): compressed messages. \<open>NetConn\<close> (\<open>netconn.go\<close>): the connection as a stream. \<open>WsJson\<close> (\<open>wsjson\<close>): JSON messages.
  \<^item> \<open>Handshake\<close> (\<open>dial.go\<close>, \<open>accept.go\<close>): both sides, and that they agree. \<open>WsJs\<close> (\<open>ws_js.go\<close>): the connection of the JavaScript target.

  \<^bold>\<open>The connection of the agent and its surroundings.\<close>
  \<^item> \<open>WsAgent\<close> (\<open>internal/websocket\<close>): options, \<open>Start\<close>, \<open>Stop\<close>, \<open>Send\<close>, dialling and the run goroutine. \<open>WsRead\<close>: its reads on a connection and
    the link for WRP messages (\<open>wrplink\<close>, an interpretation of \<open>fifo_link\<close>; \<open>msglink\<close> is the one for plain messages). \<open>WsMonitor\<close>: the
    inactivity monitor. \<open>Listeners\<close>: listeners and their options.
  \<^item> \<open>Fs\<close> (\<open>internal/fs\<close>, with the locales \<open>checked_store\<close> and \<open>directory_fs\<close>, both met by the file system in memory), \<open>Credentials\<close>, \<open>Jwtxt\<close>,
    \<open>Net\<close>, \<open>Metadata\<close>, \<open>Configuration\<close>: the packages of these names.
  \<^item> \<open>Agent\<close> (\<open>cmd/xmidt-agent\<close>): the provider functions and the chain of handlers they build.
  \<^item> This theory: the two ways through the agent, composed from the parts.

  \<^bold>\<open>What is shown.\<close> The queue stays within its budget, keeps everything there is room for, drops the least important first, and is
  drained in order; the service hands over every message. Published messages reach every listener before the result is
  given, and a handler passes on only what its guard allows. Frames, messages, compressed messages and byte streams come back
  as they were written, whole messages from concurrent writers included. Sessions of the agent are bracketed by connect and
  disconnect events. Credentials and instructions are used only while they hold. Where the code does something else, the
  behaviour is stated as it is: a ping that meets its timeout, a caller of \<open>MarkInvalid\<close> that gives up, a \<open>Stop\<close> during \<open>Start\<close>, and
  a message the cloud sends in several frames each have a theorem that shows the run in question.

  \<^bold>\<open>Bounds and termination.\<close> Loops over data are structural. The loops of a reader recur on the bytes that are still unread, with a
  \<open>termination\<close> proof by that measure. Loops whose end depends on the peer or on a reader given as an argument (\<open>readAllF\<close>, \<open>readRounds\<close>) are partial
  functions into \<open>option\<close>, and the theorems state that they return. Masking keys come from a finite list, the source of random
  bytes; \<open>canWrite n\<close> says that it suffices for \<open>n\<close> frames, and a server needs none.

  \<^bold>\<open>Not modelled.\<close> The bindings to the JavaScript runtime (the argument \<open>browser\<close> of \<open>WsJs\<close>); the generated \<open>stringer.go\<close>; the helpers
  \<open>xsync\<close>, \<open>util\<close>, \<open>errd\<close> and \<open>bpool\<close>, whose uses are written out; test helpers and example programs; the event records, which are the
  trace types of the models; the file system of the operating system; the parsing of the command line and the dependency
  injection of the program, which are calls of libraries. The text of most errors is kept only where the code looks at it.
\<close>

subsection \<open>From the device to the cloud\<close>


definition anyTwoBytes :: "message \<Rightarrow> decoder" where
  "anyTwoBytes m b = (if length b < 2 then Inl (1 - length b) else Inr (Inr m))"

lemma anyTwoBytes_carries: "carries (\<lambda>_. [1, 2]) (anyTwoBytes m) 32769 m"
  by (auto simp: carries_def stops_def anyTwoBytes_def)

lemma example_holdsWrp:
  "holdsWrp enc dec 32769 1 [] (exampleConn [], newConn False (\<lambda>_. []) None [] emptyBw [])"
  "holdsWrp enc dec 32769 1 [] (newConn False (\<lambda>_. []) None [] emptyBw [], exampleConn [])"
  using example_linked exampleConn_idle[of "[]"]
  by (simp_all add: holdsWrp_def linked_def canWrite_def exampleConn_def newConn_def defaultReadLimit_def drained_def connOK_def emptyBw_def bwGood_def)


subsection \<open>From the cloud to the device\<close>

text \<open>
  C6: The way in, from the wire to the routes. The messages the cloud sends, each in one frame and in any interleaving with the reads, are read
  and decoded by the agent in order, and with the handlers of the agent in front, exactly those of the partner of the device reach
  the publish-subscribe routes, in the order in which they were sent.
\<close>

theorem cloud_to_device:
  assumes "validIdentity ident" and "fifoSpec xs [] = Some (out, rest)"
    and "holdsWrp enc dec cap (length (puts xs)) [] link" and "list_all (carries enc dec cap) (puts xs)"
  shows "\<exists>link' listener. runLink (sendWrp enc) (readWrp dec) xs link = (Inr out, link') \<and> out @ rest = puts xs
    \<and> provideIngress reqTx typeString (\<lambda>_ _ _ s. s) (\<lambda>_ _ _ s. s) (\<lambda>m s. (None, s @ [m])) (\<lambda>m s. (None, s)) (Some ()) ident = Some (Inr listener)
    \<and> fold listener out [] = filter (\<lambda>m. partnerMatch [TrimSpace (idPartnerID ident)] (mPartnerIDs m)) out"
proof -
  let ?ok = "\<lambda>m :: message. partnerMatch [TrimSpace (idPartnerID ident)] (mPartnerIDs m)"
  define listener where "listener = (\<lambda>(m :: message) s. if ?ok m then s @ [m] else s)"
  have "provideIngress reqTx typeString (\<lambda>_ _ _ s. s) (\<lambda>_ _ _ s. s) (\<lambda>m s. (None, s @ [m])) (\<lambda>m s. (None, s)) (Some ()) ident = Some (Inr listener)"
    using provideIngress_valid[OF assms(1), of reqTx typeString "\<lambda>_ _ _ s. s" "\<lambda>_ _ _ s. s" "\<lambda>m s. (None, s @ [m])" "\<lambda>m s. (None, s)" "()"]
    by (auto simp: listener_def Let_def fun_eq_iff)
  moreover have "fold listener ms acc = acc @ filter ?ok ms" for acc ms
    by (induction ms arbitrary: acc) (simp_all add: listener_def)
  ultimately show ?thesis
    using wrplink.run_refines[of enc dec cap xs 0 "[]" link out rest] fifoSpec_puts[OF assms(2)] assms(2-4) by fastforce
qed

theorem cloud_to_device_witness:
  "\<exists>link' listener. runLink (sendWrp (\<lambda>_. [1, 2])) (readWrp (anyTwoBytes (empty_message\<lparr>mPartnerIDs := [''other'']\<rparr>)))
        [Put (empty_message\<lparr>mPartnerIDs := [''other'']\<rparr>), Take] (newConn False (\<lambda>_. []) None [] emptyBw [], exampleConn [])
        = (Inr [empty_message\<lparr>mPartnerIDs := [''other'']\<rparr>], link')
    \<and> provideIngress (\<lambda>_. True) (\<lambda>_. []) (\<lambda>_ _ _ s. s) (\<lambda>_ _ _ s. s) (\<lambda>m s. (None, s @ [m])) (\<lambda>m s. (None, s)) (Some ()) exampleIdentity
        = Some (Inr listener)
    \<and> fold listener [empty_message\<lparr>mPartnerIDs := [''other'']\<rparr>] [] = []"
proof -
  let ?m = "empty_message\<lparr>mPartnerIDs := [''other'']\<rparr>" and ?link = "(newConn False (\<lambda>_. []) None [] emptyBw [], exampleConn [])"
  have "\<not> partnerMatch [''comcast''] [''other'']" by code_simp
  then show ?thesis
    using cloud_to_device[OF exampleIdentity_valid(1), of "[Put ?m, Take]" "[?m]" "[]" "\<lambda>_. [1, 2]" "anyTwoBytes ?m" 32769 ?link "\<lambda>_. True" "\<lambda>_. []"]
      anyTwoBytes_carries[of ?m] example_holdsWrp(2) exampleIdentity_valid(2) by (simp del: runLink.simps)
qed

end
